(* ===== verification/Prelude.thy ===== *)
theory Prelude
  imports Main "HOL-Library.Word"
begin

text \<open>
  What every other theory of the development shares: the names of the machine types,
  the faults a C++ operation can end in, sequencing of operations that may fail, the
  decimal numerals that the parsers read and the printers write, and the generic lemmas
  on lists and machine words that the component theories use.
\<close>

section \<open>Machine types and lemma collections\<close>

type_synonym u8 = "8 word"
type_synonym u32 = "32 word"
type_synonym u64 = "64 word"

named_theorems word_nat \<open>reading machine words as natural numbers\<close>

section \<open>Failures as values\<close>

text \<open>
  A C++ exception carries its message. A failed \<open>assert\<close> ends the process, and an
  operation whose behaviour the language leaves undefined has no result that could be
  relied on: both are failures of their own kind.
\<close>

datatype failure =
    Runtime_error string
  | Assertion_failed
  | Undefined_behaviour

definition and_then :: "'e + 'a \<Rightarrow> ('a \<Rightarrow> 'e + 'b) \<Rightarrow> 'e + 'b" where
  "and_then r k = (case r of Inl e \<Rightarrow> Inl e | Inr a \<Rightarrow> k a)"

lemma and_then_simps [simp]:
  "and_then (Inl e) k = Inl e"
  "and_then (Inr a) k = k a"
  by (simp_all add: and_then_def)

lemma and_then_Inr_iff:
  "and_then r k = Inr b \<longleftrightarrow> (\<exists>a. r = Inr a \<and> k a = Inr b)"
  by (cases r) auto

lemma and_then_Inl_iff:
  "and_then r k = Inl e \<longleftrightarrow> r = Inl e \<or> (\<exists>a. r = Inr a \<and> k a = Inl e)"
  by (cases r) auto

lemma and_then_assoc: "and_then (and_then r f) g = and_then r (\<lambda>a. and_then (f a) g)"
  by (cases r) auto

text \<open>A loop that appends one result per element and stops at the first failure.\<close>

fun map_results :: "('a \<Rightarrow> 'e + 'b) \<Rightarrow> 'a list \<Rightarrow> 'e + 'b list" where
  "map_results f [] = Inr []"
| "map_results f (x # xs) = and_then (f x) (\<lambda>y. and_then (map_results f xs) (\<lambda>ys. Inr (y # ys)))"

lemma map_results_map:
  "(\<And>x. x \<in> set xs \<Longrightarrow> f (h x) = Inr (g x)) \<Longrightarrow> map_results f (map h xs) = Inr (map g xs)"
  by (induction xs) auto

lemma map_results_length: "map_results f xs = Inr ys \<Longrightarrow> length ys = length xs"
  by (induction xs arbitrary: ys) (auto simp: and_then_Inr_iff)

section \<open>Decimal numerals\<close>

text \<open>The digits of the C locale, their values, and the numeral of a natural number.\<close>

definition is_digit :: "char \<Rightarrow> bool" where
  "is_digit c \<longleftrightarrow> 48 \<le> (of_char c :: nat) \<and> (of_char c :: nat) \<le> 57"

definition digit_value :: "char \<Rightarrow> nat" where
  "digit_value c = of_char c - 48"

definition digit_char :: "nat \<Rightarrow> char" where
  "digit_char d = char_of (48 + d)"

definition decimal_value :: "string \<Rightarrow> nat" where
  "decimal_value s = fold (\<lambda>c n. 10 * n + digit_value c) s 0"

fun show_nat :: "nat \<Rightarrow> string" where
  "show_nat n = (if n < 10 then [digit_char n] else show_nat (n div 10) @ [digit_char (n mod 10)])"

declare show_nat.simps [simp del]

lemma of_char_digit_char: "d < 10 \<Longrightarrow> (of_char (digit_char d) :: nat) = 48 + d"
  by (simp add: digit_char_def)

lemma is_digit_digit_char [simp]: "d < 10 \<Longrightarrow> is_digit (digit_char d)"
  by (simp add: is_digit_def of_char_digit_char)

lemma digit_value_digit_char [simp]: "d < 10 \<Longrightarrow> digit_value (digit_char d) = d"
  by (simp add: digit_value_def of_char_digit_char)

lemma decimal_value_snoc [simp]:
  "decimal_value (s @ [c]) = 10 * decimal_value s + digit_value c"
  by (simp add: decimal_value_def)

lemma decimal_value_Nil [simp]: "decimal_value [] = 0"
  by (simp add: decimal_value_def)

lemma decimal_value_show_nat [simp]: "decimal_value (show_nat n) = n"
proof (induction n rule: show_nat.induct)
  case (1 n)
  then show ?case
    using decimal_value_snoc [of "[]"] by (subst show_nat.simps) auto
qed

lemma show_nat_digits: "list_all is_digit (show_nat n)"
proof (induction n rule: show_nat.induct)
  case (1 n)
  then show ?case by (subst show_nat.simps) auto
qed

lemma show_nat_nonempty [simp]: "show_nat n \<noteq> []"
  by (subst show_nat.simps) simp

section \<open>Lists\<close>

lemma takeWhile_append_stop [simp]:
  "list_all p xs \<Longrightarrow> ys = [] \<or> \<not> p (hd ys) \<Longrightarrow> takeWhile p (xs @ ys) = xs"
  by (induction xs; cases ys) auto

lemma dropWhile_append_stop [simp]:
  "list_all p xs \<Longrightarrow> ys = [] \<or> \<not> p (hd ys) \<Longrightarrow> dropWhile p (xs @ ys) = ys"
  by (induction xs; cases ys) auto

lemma list_all_takeWhile: "list_all p (takeWhile p xs)"
  by (induction xs) auto

lemma take_upt_map: "take n (map f [a..<b]) = map f [a..<min b (a + n)]"
  by (simp add: take_map min_def)

section \<open>Words\<close>

text \<open>
  A counting loop \<open>for (i = a; i != b; ++i)\<close> over an unsigned integer ends, whatever the
  bounds: the distance still to go, taken modulo the width, goes down in every round.
\<close>

lemma word_loop_decreases:
  fixes i e :: "'a::len word"
  assumes "i \<noteq> e"
  shows "unat (e - (i + 1)) < unat (e - i)"
proof -
  have "e - i \<noteq> 0" using assms by simp
  then have "unat (e - i - 1) < unat (e - i)" by (rule measure_unat)
  then show ?thesis by (simp add: algebra_simps)
qed

lemma unat_loop_distance:
  fixes i e :: "'a::len word"
  assumes "i \<noteq> e"
  shows "unat (e - i) = Suc (unat (e - (i + 1)))"
proof -
  have "e - i \<noteq> 0" using assms by simp
  then have "unat (e - i - 1) = unat (e - i) - 1" by (rule unat_minus_one)
  moreover have "0 < unat (e - i)" using assms by (simp add: unat_gt_0)
  ultimately show ?thesis by (simp add: algebra_simps)
qed

lemma unat_minus_le [word_nat]: "b \<le> a \<Longrightarrow> unat (a - b) = unat a - unat (b :: 'a::len word)"
  by (simp add: unat_sub)

lemma unat_plus_no_wrap [word_nat]:
  "unat a + unat b < 2 ^ LENGTH('a) \<Longrightarrow> unat (a + b) = unat a + unat (b :: 'a::len word)"
  by (simp add: unat_word_ariths)

lemma unat_min_word [word_nat]: "unat (min a b) = min (unat a) (unat (b :: 'a::len word))"
  by (simp add: min_def word_le_nat_alt)

lemma unat_next_below:
  fixes i e :: "'a::len word"
  assumes "unat i < unat e"
  shows "unat (i + 1) = Suc (unat i)"
proof -
  have "Suc (unat i) < 2 ^ LENGTH('a)"
    using Suc_leI [OF assms] unsigned_less by (rule order.strict_trans1)
  then show ?thesis using unat_plus_no_wrap [of i 1] by simp
qed

end
