(* ===== verification/Io_Streams.thy ===== *)
theory Io_Streams
  imports Prelude
begin

text \<open>
  The part of the C++ standard library's input streams that the parsers use: a string
  stream with its two state bits, the sentry that skips white space, the extraction of a
  word, of an unsigned number and of a delimited token, and \<open>std::atoll\<close>.
  These are the standard library's documented operations in the default (C) locale.
\<close>

section \<open>Character classes\<close>

definition is_space :: "char \<Rightarrow> bool" where
  "is_space c \<longleftrightarrow> c = CHR '' '' \<or> (9 \<le> (of_char c :: nat) \<and> (of_char c :: nat) \<le> 13)"

lemma digit_not_space: "is_digit c \<Longrightarrow> \<not> is_space c"
  by (auto simp: is_digit_def is_space_def)

section \<open>String streams\<close>

record istream =
  rest :: string
  failbit :: bool
  eofbit :: bool

definition istringstream :: "string \<Rightarrow> istream" where
  "istringstream s = \<lparr>rest = s, failbit = False, eofbit = False\<rparr>"

definition good :: "istream \<Rightarrow> bool" where
  "good st \<longleftrightarrow> \<not> failbit st \<and> \<not> eofbit st"

text \<open>
  \<open>std::istream::sentry\<close>: on a good stream white space is skipped; reaching the end while
  skipping sets both bits. The second component is the sentry's truth value.
\<close>

definition sentry :: "istream \<Rightarrow> istream \<times> bool" where
  "sentry st =
     (if good st then
        (case dropWhile is_space (rest st) of
           [] \<Rightarrow> (st\<lparr>rest := [], failbit := True, eofbit := True\<rparr>, False)
         | c # cs \<Rightarrow> (st\<lparr>rest := c # cs\<rparr>, True))
      else (st\<lparr>failbit := True\<rparr>, False))"

text \<open>\<open>in >> s\<close> for an initially empty string \<open>s\<close>: one word, up to white space or the end.\<close>

definition extract_string :: "istream \<Rightarrow> istream \<times> string" where
  "extract_string st =
     (case sentry st of (st', ok) \<Rightarrow>
        if ok then
          let w = takeWhile (\<lambda>c. \<not> is_space c) (rest st');
              r = dropWhile (\<lambda>c. \<not> is_space c) (rest st')
          in (st'\<lparr>rest := r, eofbit := (r = [])\<rparr>, w)
        else (st', []))"

text \<open>
  \<open>in >> n\<close> for an unsigned integer \<open>n\<close>: an optional sign, then decimal digits. Without a
  digit the value is 0 and the stream fails; out of range it is the greatest value and the
  stream fails; a minus sign negates modulo the width. When the sentry already fails the
  variable keeps its value, which the result \<open>None\<close> says.
\<close>

definition split_sign :: "string \<Rightarrow> bool \<times> string" where
  "split_sign s =
     (case s of
        [] \<Rightarrow> (False, [])
      | c # cs \<Rightarrow> if c = CHR ''-'' then (True, cs)
                  else if c = CHR ''+'' then (False, cs) else (False, s))"

definition extract_unsigned :: "istream \<Rightarrow> istream \<times> 'a::len word option" where
  "extract_unsigned st =
     (case sentry st of (st', ok) \<Rightarrow>
        if ok then
          (case split_sign (rest st') of (neg, s) \<Rightarrow>
             let ds = takeWhile is_digit s; r = dropWhile is_digit s; n = decimal_value ds;
                 st'' = st'\<lparr>rest := r, eofbit := (r = [])\<rparr>
             in if ds = [] then (st''\<lparr>failbit := True\<rparr>, Some 0)
                else if 2 ^ LENGTH('a) \<le> n then (st''\<lparr>failbit := True\<rparr>, Some (- 1))
                else (st'', Some (if neg then - word_of_nat n else word_of_nat n)))
        else (st', None))"

text \<open>
  \<open>while (std::getline(st, token, d))\<close> over a fresh string stream: the tokens between the
  delimiters. A delimiter that ends the text opens no further token.
\<close>

function getline_tokens :: "char \<Rightarrow> string \<Rightarrow> string list" where
  "getline_tokens d s =
     (if s = [] then []
      else takeWhile (\<lambda>c. c \<noteq> d) s #
             getline_tokens d (drop 1 (dropWhile (\<lambda>c. c \<noteq> d) s)))"
  by pat_completeness auto
termination
proof (relation "measure (\<lambda>(d, s). length s)")
  fix d :: char and s :: string
  assume "s \<noteq> []"
  then have "length (drop 1 (dropWhile (\<lambda>c. c \<noteq> d) s)) < length s"
    using length_dropWhile_le [of "\<lambda>c. c \<noteq> d" s] by (cases s) (auto split: if_splits)
  then show "((d, drop 1 (dropWhile (\<lambda>c. c \<noteq> d) s)), d, s) \<in> measure (\<lambda>(d, s). length s)"
    by simp
qed simp

declare getline_tokens.simps [simp del]

text \<open>
  \<open>std::atoll\<close>: leading white space, a sign, digits. The behaviour is undefined when the
  value does not fit a signed 64-bit integer; the result is used as an unsigned one.
\<close>

definition atoll :: "string \<Rightarrow> u64 option" where
  "atoll s =
     (case split_sign (dropWhile is_space s) of (neg, t) \<Rightarrow>
        let n = decimal_value (takeWhile is_digit t) in
        if n < 2 ^ 63 \<or> (neg \<and> n = 2 ^ 63)
        then Some (if neg then - word_of_nat n else word_of_nat n) else None)"

section \<open>Facts about the stream operations\<close>

lemma split_sign_digits [simp]:
  "list_all is_digit s \<Longrightarrow> split_sign s = (False, s)"
  by (cases s) (auto simp: split_sign_def is_digit_def)

lemma dropWhile_space_digits [simp]:
  "list_all is_digit s \<Longrightarrow> dropWhile is_space s = s"
  by (cases s) (auto simp: digit_not_space)

lemma takeWhile_all [simp]: "list_all p s \<Longrightarrow> takeWhile p s = s"
  by (induction s) auto

lemma dropWhile_all [simp]: "list_all p s \<Longrightarrow> dropWhile p s = []"
  by (induction s) auto

lemma atoll_digits:
  "list_all is_digit s \<Longrightarrow>
   atoll s = (if decimal_value s < 2 ^ 63 then Some (word_of_nat (decimal_value s)) else None)"
  by (simp add: atoll_def)

lemma sentry_word:
  "s \<noteq> [] \<Longrightarrow> \<not> is_space (hd s) \<Longrightarrow> sentry (istringstream s) = (istringstream s, True)"
  by (cases s) (auto simp: sentry_def istringstream_def good_def)

lemma sentry_empty [simp]:
  "sentry (istringstream []) = (\<lparr>rest = [], failbit = True, eofbit = True\<rparr>, False)"
  by (simp add: sentry_def istringstream_def good_def)

lemma extract_string_word:
  assumes "s \<noteq> []" and "list_all (\<lambda>c. \<not> is_space c) s"
  shows "extract_string (istringstream s) = (\<lparr>rest = [], failbit = False, eofbit = True\<rparr>, s)"
proof -
  have "\<not> is_space (hd s)" using assms by (cases s) auto
  with assms show ?thesis
    by (simp add: extract_string_def sentry_word) (simp add: istringstream_def list_all_iff)
qed

lemma extract_string_empty [simp]:
  "extract_string (istringstream []) = (\<lparr>rest = [], failbit = True, eofbit = True\<rparr>, [])"
  by (simp add: extract_string_def)

text \<open>Every extracted word is free of white space.\<close>

lemma extract_string_no_space: "list_all (\<lambda>c. \<not> is_space c) (snd (extract_string st))"
  by (auto simp: extract_string_def Let_def list_all_takeWhile split: prod.splits)

lemma extract_unsigned_digits:
  assumes "s \<noteq> []" and "list_all is_digit s" and "decimal_value s < 2 ^ LENGTH('a::len)"
  shows "extract_unsigned (istringstream s) =
    (\<lparr>rest = [], failbit = False, eofbit = True\<rparr>, Some (word_of_nat (decimal_value s) :: 'a word))"
proof -
  have "\<not> is_space (hd s)" using assms by (cases s) (auto simp: digit_not_space)
  with assms show ?thesis
    by (simp add: extract_unsigned_def sentry_word) (simp add: istringstream_def list_all_iff)
qed

lemma extract_unsigned_empty [simp]: "snd (extract_unsigned (istringstream [])) = None"
  by (simp add: extract_unsigned_def)

text \<open>Tokens joined by the delimiter are read back, unless the last one is empty.\<close>

fun join :: "char \<Rightarrow> string list \<Rightarrow> string" where
  "join d [] = []"
| "join d [t] = t"
| "join d (t # ts) = t @ d # join d ts"

lemma set_join: "set (join d ts) \<subseteq> insert d (\<Union>t \<in> set ts. set t)"
  by (induction d ts rule: join.induct) auto

lemma getline_tokens_Nil [simp]: "getline_tokens d [] = []"
  by (subst getline_tokens.simps) simp

lemma getline_tokens_join:
  "list_all (\<lambda>t. d \<notin> set t) ts \<Longrightarrow> ts = [] \<or> last ts \<noteq> [] \<Longrightarrow> getline_tokens d (join d ts) = ts"
proof (induction d ts rule: join.induct)
  case (1 d)
  then show ?case by simp
next
  case (2 d t)
  then have "list_all (\<lambda>c. c \<noteq> d) t" by (auto simp: list_all_iff)
  with 2 show ?case by (subst getline_tokens.simps) simp
next
  case (3 d t u ts)
  then have "list_all (\<lambda>c. c \<noteq> d) t" by (auto simp: list_all_iff)
  with 3 show ?case by (subst getline_tokens.simps) simp
qed

end
