(* ===== verification/Boost_Regex.thy ===== *)
theory Boost_Regex
  imports Io_Streams
begin

text \<open>
  Two parsers of the program match their text against a regular expression with
  \<open>boost::regex_match\<close>. The library itself is not part of the sources, so the matcher is a
  parameter of every parser. What the parsers rely on is its documented contract, stated
  here as the locale \<open>regex_engine\<close>: the whole text is matched, and each capture group
  that took part in the match holds the text it matched.
  The patterns are trees (\<open>rx\<close>) built from exactly the constructs that the two patterns of
  the sources use.
\<close>

section \<open>Patterns and what they match\<close>

datatype rx =
    Chars "char \<Rightarrow> bool"        \<comment> \<open>a bracket expression or a class escape\<close>
  | Star_of "char \<Rightarrow> bool"      \<comment> \<open>the same, any number of times\<close>
  | Plus_of "char \<Rightarrow> bool"      \<comment> \<open>the same, at least once\<close>
  | Text string                 \<comment> \<open>literal characters\<close>
  | Then rx rx                  \<comment> \<open>concatenation\<close>
  | Or rx rx                    \<comment> \<open>alternation\<close>
  | Opt rx                      \<comment> \<open>an optional (possibly non-capturing) group\<close>
  | Group nat rx                \<comment> \<open>a capturing group and its number\<close>

type_synonym captures = "nat \<rightharpoonup> string"

inductive matches :: "rx \<Rightarrow> string \<Rightarrow> captures \<Rightarrow> bool" where
  chars: "p c \<Longrightarrow> matches (Chars p) [c] Map.empty"
| star_of: "list_all p s \<Longrightarrow> matches (Star_of p) s Map.empty"
| plus_of: "s \<noteq> [] \<Longrightarrow> list_all p s \<Longrightarrow> matches (Plus_of p) s Map.empty"
| literal: "matches (Text w) w Map.empty"
| then_rx: "matches a s m \<Longrightarrow> matches b t m' \<Longrightarrow> matches (Then a b) (s @ t) (m ++ m')"
| or_left: "matches a s m \<Longrightarrow> matches (Or a b) s m"
| or_right: "matches b s m \<Longrightarrow> matches (Or a b) s m"
| opt_none: "matches (Opt a) [] Map.empty"
| opt_some: "matches a s m \<Longrightarrow> matches (Opt a) s m"
| group: "matches a s m \<Longrightarrow> matches (Group n a) s (m(n \<mapsto> s))"

inductive_simps matches_simps:
  "matches (Chars p) s m"
  "matches (Star_of p) s m"
  "matches (Plus_of p) s m"
  "matches (Text w) s m"
  "matches (Then a b) s m"
  "matches (Or a b) s m"
  "matches (Opt a) s m"
  "matches (Group n a) s m"

inductive_cases then_elim: "matches (Then a b) s m"

section \<open>The contract of the matcher\<close>

locale regex_engine =
  fixes regex_match :: "rx \<Rightarrow> string \<Rightarrow> captures option"
  assumes match_sound: "regex_match r s = Some m \<Longrightarrow> matches r s m"
    and match_complete: "regex_match r s = None \<Longrightarrow> \<not> matches r s m"
begin

text \<open>
  Where a pattern can match a text in one way only, the matcher's answer is determined by
  the pattern.
\<close>

lemma match_unique:
  assumes "matches r s m" and "\<And>m'. matches r s m' \<Longrightarrow> m' = m"
  shows "regex_match r s = Some m"
  using assms match_sound [of r s] match_complete [of r s m]
  by (cases "regex_match r s") auto

lemma no_match: "(\<And>m. \<not> matches r s m) \<Longrightarrow> regex_match r s = None"
  using match_sound [of r s] by (cases "regex_match r s") auto

end

text \<open>\<open>m.str(i)\<close>: the text of a group, empty when the group took no part.\<close>

definition str :: "captures \<Rightarrow> nat \<Rightarrow> string" where
  "str m i = (case m i of None \<Rightarrow> [] | Some t \<Rightarrow> t)"

section \<open>A matcher that satisfies the contract\<close>

text \<open>
  A backtracking matcher over the same patterns: all the ways to match a prefix of the
  text, longest repetition first, each with its captures and the text left over.
\<close>

fun prefixes_of :: "(char \<Rightarrow> bool) \<Rightarrow> string \<Rightarrow> string list" where
  "prefixes_of p [] = [[]]"
| "prefixes_of p (c # s) = (if p c then map (Cons c) (prefixes_of p s) else []) @ [[]]"

fun strip_prefix :: "string \<Rightarrow> string \<Rightarrow> string option" where
  "strip_prefix [] s = Some s"
| "strip_prefix (c # w) [] = None"
| "strip_prefix (c # w) (d # s) = (if c = d then strip_prefix w s else None)"

fun prefix_matches :: "rx \<Rightarrow> string \<Rightarrow> (captures \<times> string) list" where
  "prefix_matches (Chars p) s =
     (case s of [] \<Rightarrow> [] | c # t \<Rightarrow> if p c then [(Map.empty, t)] else [])"
| "prefix_matches (Star_of p) s = map (\<lambda>t. (Map.empty, drop (length t) s)) (prefixes_of p s)"
| "prefix_matches (Plus_of p) s =
     map (\<lambda>t. (Map.empty, drop (length t) s)) (filter (\<lambda>t. t \<noteq> []) (prefixes_of p s))"
| "prefix_matches (Text w) s =
     (case strip_prefix w s of None \<Rightarrow> [] | Some t \<Rightarrow> [(Map.empty, t)])"
| "prefix_matches (Then a b) s =
     concat (map (\<lambda>(m, t). map (\<lambda>(m', u). (m ++ m', u)) (prefix_matches b t)) (prefix_matches a s))"
| "prefix_matches (Or a b) s = prefix_matches a s @ prefix_matches b s"
| "prefix_matches (Opt a) s = prefix_matches a s @ [(Map.empty, s)]"
| "prefix_matches (Group n a) s =
     map (\<lambda>(m, t). (m(n \<mapsto> take (length s - length t) s), t)) (prefix_matches a s)"

definition backtrack_match :: "rx \<Rightarrow> string \<Rightarrow> captures option" where
  "backtrack_match r s =
     (case filter (\<lambda>(m, t). t = []) (prefix_matches r s) of [] \<Rightarrow> None | (m, t) # _ \<Rightarrow> Some m)"

lemma strip_prefix_Some: "strip_prefix w s = Some t \<longleftrightarrow> s = w @ t"
  by (induction w s rule: strip_prefix.induct) auto

lemma set_prefixes_of: "t \<in> set (prefixes_of p s) \<longleftrightarrow> (\<exists>u. s = t @ u \<and> list_all p t)"
proof (induction p s arbitrary: t rule: prefixes_of.induct)
  case (2 p c s)
  then show ?case by (cases t) (auto simp: image_iff)
qed auto

lemma prefixes_of_rest:
  "(\<exists>u \<in> set (prefixes_of p s). q u \<and> t = drop (length u) s) \<longleftrightarrow>
   (\<exists>u. s = u @ t \<and> list_all p u \<and> q u)"
  by (auto simp: set_prefixes_of)

lemma prefix_matches_iff:
  "(m, t) \<in> set (prefix_matches r s) \<longleftrightarrow> (\<exists>u. s = u @ t \<and> matches r u m)"
proof (induction r arbitrary: s t m)
  case (Chars p)
  then show ?case by (cases s) (auto simp: matches_simps Cons_eq_append_conv)
next
  case (Star_of p)
  then show ?case
    using prefixes_of_rest [of p s "\<lambda>_. True" t] by (auto simp: matches_simps image_iff)
next
  case (Plus_of p)
  then show ?case
    using prefixes_of_rest [of p s "\<lambda>u. u \<noteq> []" t] by (auto simp: matches_simps image_iff)
next
  case (Text w)
  then show ?case by (cases "strip_prefix w s") (auto simp: matches_simps strip_prefix_Some [symmetric])
next
  case (Then a b)
  have "(m, t) \<in> set (prefix_matches (Then a b) s) \<longleftrightarrow>
      (\<exists>m1 v m2. (m1, v) \<in> set (prefix_matches a s) \<and>
        (m2, t) \<in> set (prefix_matches b v) \<and> m = m1 ++ m2)"
    unfolding prefix_matches.simps by force
  also have "\<dots> \<longleftrightarrow> (\<exists>u w m1 m2. s = (u @ w) @ t \<and> matches a u m1 \<and> matches b w m2 \<and>
      m = m1 ++ m2)"
    unfolding Then.IH by auto
  also have "\<dots> \<longleftrightarrow> (\<exists>u. s = u @ t \<and> matches (Then a b) u m)"
    unfolding matches_simps by blast
  finally show ?case .
next
  case (Or a b)
  then show ?case by (auto simp: matches_simps)
next
  case (Opt a)
  then show ?case by (auto simp: matches_simps)
next
  case (Group n a)
  have "(m, t) \<in> set (prefix_matches (Group n a) s) \<longleftrightarrow>
      (\<exists>m1. (m1, t) \<in> set (prefix_matches a s) \<and> m = m1(n \<mapsto> take (length s - length t) s))"
    unfolding prefix_matches.simps by force
  also have "\<dots> \<longleftrightarrow> (\<exists>u. s = u @ t \<and> matches (Group n a) u m)"
    unfolding Group.IH by (auto simp: matches_simps)
  finally show ?case .
qed

lemma backtrack_match_Some: "backtrack_match r s = Some m \<Longrightarrow> matches r s m"
proof -
  let ?full = "filter (\<lambda>(m, t). t = []) (prefix_matches r s)"
  assume "backtrack_match r s = Some m"
  then obtain t where "(m, t) \<in> set ?full"
    by (cases ?full) (auto simp: backtrack_match_def simp del: set_filter)
  then show "matches r s m" by (auto simp: prefix_matches_iff)
qed

lemma backtrack_match_None: "backtrack_match r s = None \<Longrightarrow> \<not> matches r s m"
proof
  assume none: "backtrack_match r s = None" and "matches r s m"
  then have "(m, []) \<in> set (prefix_matches r s)" by (auto simp: prefix_matches_iff)
  then have "filter (\<lambda>(m, t). t = []) (prefix_matches r s) \<noteq> []"
    by (auto simp: filter_empty_conv)
  with none show False by (auto simp: backtrack_match_def split: list.splits)
qed

interpretation backtracking: regex_engine backtrack_match
  by unfold_locales (auto dest: backtrack_match_Some backtrack_match_None)

end
