(* ===== verification/Sizes.thy ===== *)
theory Sizes
  imports Boost_Regex
begin

text \<open>
  \<open>src/Size.hpp\<close> and \<open>src/Size.cpp\<close>: an amount of bytes with the unit system it was
  written in, its parser \<open>parse_size\<close> with the two regular expressions and the
  fall-through switch, and the stream extraction. The reference definition
  \<open>size_of_text\<close> reads the same texts with a scanner and a table of units; the parser is
  proved equal to it for every matcher that satisfies the contract.
\<close>

section \<open>Data\<close>

datatype UnitSystem = SI | IEC

record Size =
  size_value :: u64
  unit_system :: UnitSystem

text \<open>The default constructor: no bytes, in the IEC system.\<close>

definition default_Size :: Size where
  "default_Size = \<lparr>size_value = 0, unit_system = IEC\<rparr>"

section \<open>The parser\<close>

definition regex_iec :: rx where
  "regex_iec =
     Then (Group 1 (Plus_of is_digit))
    (Then (Star_of is_space)
    (Then (Opt (Group 2 (Then (Chars (\<lambda>c. c \<in> set ''KMGTPE'')) (Text ''i''))))
          (Group 3 (Or (Text ''B'') (Text ''bit'')))))"

definition regex_si :: rx where
  "regex_si =
     Then (Group 1 (Plus_of is_digit))
    (Then (Star_of is_space)
    (Then (Opt (Group 2 (Chars (\<lambda>c. c \<in> set ''kKMGTPE''))))
          (Group 3 (Or (Text ''B'') (Or (Text ''b'') (Text ''bit''))))))"

definition size_error :: "string \<Rightarrow> failure" where
  "size_error s = Runtime_error
     (''size '' @ [CHR 0x27] @ s @ [CHR 0x27] @ '' doesn'' @ [CHR 0x27] @ ''t match either '' @
      [CHR 0x5C] @ ''d+'' @ [CHR 0x5C] @ ''s*([KMGTPE]i)?(B|bit) nor '' @
      [CHR 0x5C] @ ''d+'' @ [CHR 0x5C] @ ''s*([kKMGTPE])?(B|b|bit)'')"

text \<open>
  The switch over the unit prefix has no \<open>break\<close>: each case multiplies once and falls into
  the next one. Multiplication wraps at 64 bits.
\<close>

definition case_K :: "u64 \<Rightarrow> u64 \<Rightarrow> u64" where "case_K factor n = n * factor"
definition case_M :: "u64 \<Rightarrow> u64 \<Rightarrow> u64" where "case_M factor n = case_K factor (n * factor)"
definition case_G :: "u64 \<Rightarrow> u64 \<Rightarrow> u64" where "case_G factor n = case_M factor (n * factor)"
definition case_T :: "u64 \<Rightarrow> u64 \<Rightarrow> u64" where "case_T factor n = case_G factor (n * factor)"
definition case_P :: "u64 \<Rightarrow> u64 \<Rightarrow> u64" where "case_P factor n = case_T factor (n * factor)"
definition case_E :: "u64 \<Rightarrow> u64 \<Rightarrow> u64" where "case_E factor n = case_P factor (n * factor)"

definition switch_prefix :: "u64 \<Rightarrow> char \<Rightarrow> u64 \<Rightarrow> u64" where
  "switch_prefix factor c n =
     (if c = CHR ''E'' then case_E factor n
      else if c = CHR ''P'' then case_P factor n
      else if c = CHR ''T'' then case_T factor n
      else if c = CHR ''G'' then case_G factor n
      else if c = CHR ''M'' then case_M factor n
      else if c = CHR ''K'' \<or> c = CHR ''k'' then case_K factor n
      else n)"

definition prefix_factor :: "UnitSystem \<Rightarrow> u64" where
  "prefix_factor us = (if us = SI then 1000 else 1024)"

text \<open>What \<open>parse_size\<close> does once one of the expressions has matched.\<close>

definition size_of_captures :: "UnitSystem \<Rightarrow> captures \<Rightarrow> failure + Size" where
  "size_of_captures us m =
     (case atoll (str m 1) of
        None \<Rightarrow> Inl Undefined_behaviour
      | Some n \<Rightarrow>
          let n = (case m 2 of
                     None \<Rightarrow> n
                   | Some g \<Rightarrow> (case g of [] \<Rightarrow> n | c # _ \<Rightarrow> switch_prefix (prefix_factor us) c n));
              n = (if str m 3 = ''bit'' \<or> str m 3 = ''b'' then n div 8 else n)
          in Inr \<lparr>size_value = n, unit_system = us\<rparr>)"

definition parse_size :: "(rx \<Rightarrow> string \<Rightarrow> captures option) \<Rightarrow> string \<Rightarrow> failure + Size" where
  "parse_size regex_match s =
     (case regex_match regex_iec s of
        Some m \<Rightarrow> size_of_captures IEC m
      | None \<Rightarrow>
          (case regex_match regex_si s of
             Some m \<Rightarrow> size_of_captures SI m
           | None \<Rightarrow> Inl (size_error s)))"

text \<open>\<open>operator>>\<close>: the size is left as it was when the sentry fails.\<close>

definition extract_Size ::
  "(rx \<Rightarrow> string \<Rightarrow> captures option) \<Rightarrow> istream \<Rightarrow> failure + istream \<times> Size option" where
  "extract_Size regex_match st =
     (case sentry st of (st', ok) \<Rightarrow>
        if ok then
          (case extract_string st' of (st'', s) \<Rightarrow>
             and_then (parse_size regex_match s) (\<lambda>z. Inr (st'', Some z)))
        else Inr (st', None))"

section \<open>The reference reading of a size\<close>

text \<open>
  A number, white space, then one of the units of the table: its unit system, how many
  times the factor of that system is applied, and whether it counts bits.
\<close>

definition iec_units :: "(string \<times> string \<times> nat \<times> bool) list" where
  "iec_units =
     [(g, t, k, t = ''bit'').
        (g, k) \<leftarrow> [('''', 0), (''Ki'', 1), (''Mi'', 2), (''Gi'', 3), (''Ti'', 4), (''Pi'', 5), (''Ei'', 6)],
        t \<leftarrow> [''B'', ''bit'']]"

definition si_units :: "(string \<times> string \<times> nat \<times> bool) list" where
  "si_units =
     [(g, t, k, t \<noteq> ''B'').
        (g, k) \<leftarrow> [('''', 0), (''k'', 1), (''K'', 1), (''M'', 2), (''G'', 3), (''T'', 4), (''P'', 5), (''E'', 6)],
        t \<leftarrow> [''B'', ''b'', ''bit'']]"

definition unit_table :: "(string \<times> UnitSystem \<times> nat \<times> bool) list" where
  "unit_table =
     map (\<lambda>(g, t, k, bits). (g @ t, IEC, k, bits)) iec_units @
     map (\<lambda>(g, t, k, bits). (g @ t, SI, k, bits)) si_units"

definition size_number :: "UnitSystem \<Rightarrow> nat \<Rightarrow> bool \<Rightarrow> nat \<Rightarrow> u64" where
  "size_number us k bits n =
     (let v = word_of_nat n * prefix_factor us ^ k in if bits then v div 8 else v)"

definition size_of_text :: "string \<Rightarrow> failure + Size" where
  "size_of_text s =
     (if takeWhile is_digit s = [] then Inl (size_error s)
      else case map_of unit_table (dropWhile is_space (dropWhile is_digit s)) of
        None \<Rightarrow> Inl (size_error s)
      | Some (us, k, bits) \<Rightarrow>
          if decimal_value (takeWhile is_digit s) < 2 ^ 63
          then Inr \<lparr>size_value = size_number us k bits (decimal_value (takeWhile is_digit s)),
                    unit_system = us\<rparr>
          else Inl Undefined_behaviour)"

section \<open>The expressions match exactly the texts of the table\<close>

lemmas unit_simps = iec_units_def si_units_def

definition size_captures :: "string \<Rightarrow> string \<Rightarrow> string \<Rightarrow> captures" where
  "size_captures ds g t =
     (if g = [] then [1 \<mapsto> ds, 3 \<mapsto> t] else [1 \<mapsto> ds, 2 \<mapsto> g, 3 \<mapsto> t])"

lemma size_captures_simps [simp]:
  "str (size_captures ds g t) (Suc 0) = ds"
  "size_captures ds g t 2 = (if g = [] then None else Some g)"
  "str (size_captures ds g t) 3 = t"
  by (auto simp: size_captures_def str_def)

text \<open>
  Both expressions have the same shape: a number, white space, an optional prefix out of a
  set \<open>A\<close> of texts and a unit out of a set \<open>B\<close>.
\<close>

lemma matches_size_pattern:
  assumes a: "\<And>s m. matches a s m \<longleftrightarrow> s \<in> A \<and> m = Map.empty"
    and b: "\<And>s m. matches b s m \<longleftrightarrow> s \<in> B \<and> m = Map.empty"
    and A: "[] \<notin> A"
  shows "matches (Then (Group 1 (Plus_of is_digit)) (Then (Star_of is_space)
             (Then (Opt (Group 2 a)) (Group 3 b)))) s m \<longleftrightarrow>
    (\<exists>ds ws g t. s = ds @ ws @ g @ t \<and> ds \<noteq> [] \<and> list_all is_digit ds \<and> list_all is_space ws \<and>
       (g \<in> insert [] A \<and> t \<in> B) \<and> m = size_captures ds g t)"
    (is "?lhs \<longleftrightarrow> ?rhs")
proof
  assume ?lhs
  then obtain ds ws g t m1 m2 m3 m4 where s: "s = ds @ ws @ g @ t"
    and 1: "matches (Group 1 (Plus_of is_digit)) ds m1"
    and 2: "matches (Star_of is_space) ws m2"
    and 3: "matches (Opt (Group 2 a)) g m3" and 4: "matches (Group 3 b) t m4"
    and m: "m = m1 ++ (m2 ++ (m3 ++ m4))"
    by (elim then_elim) blast
  from 1 2 have ds: "ds \<noteq> []" "list_all is_digit ds" "m1 = [1 \<mapsto> ds]"
    and ws: "list_all is_space ws" "m2 = Map.empty"
    by (simp_all add: matches_simps)
  from 3 A have g: "g \<in> insert [] A" "m3 = (if g = [] then Map.empty else [2 \<mapsto> g])"
    by (auto simp: matches_simps a)
  from 4 have t: "t \<in> B" "m4 = [3 \<mapsto> t]" by (auto simp: matches_simps b)
  have "m = size_captures ds g t"
    by (auto simp: m ds ws g t size_captures_def)
  with s ds(1,2) ws(1) g(1) t(1) show ?rhs by blast
next
  assume ?rhs
  then obtain ds ws g t where s: "s = ds @ ws @ g @ t" and ds: "ds \<noteq> []" "list_all is_digit ds"
    and ws: "list_all is_space ws" and g: "g \<in> insert [] A" and t: "t \<in> B"
    and m: "m = size_captures ds g t"
    by blast
  have 1: "matches (Group 1 (Plus_of is_digit)) ds [1 \<mapsto> ds]"
    using ds by (auto intro!: matches.intros)
  have 2: "matches (Star_of is_space) ws Map.empty"
    using ws by (rule matches.star_of)
  have 3: "matches (Opt (Group 2 a)) g (if g = [] then Map.empty else [2 \<mapsto> g])"
    using g A by (auto simp: matches_simps a)
  have 4: "matches (Group 3 b) t [3 \<mapsto> t]"
    using t by (auto simp: matches_simps b)
  have "m = [1 \<mapsto> ds] ++ (Map.empty ++ ((if g = [] then Map.empty else [2 \<mapsto> g]) ++ [3 \<mapsto> t]))"
    by (auto simp: m size_captures_def)
  with s 1 2 3 4 show ?lhs
    by (metis matches.then_rx)
qed

definition size_shape ::
  "(string \<times> string \<times> nat \<times> bool) list \<Rightarrow> string \<Rightarrow> captures \<Rightarrow> bool" where
  "size_shape units s m \<longleftrightarrow>
     (\<exists>ds ws g t. s = ds @ ws @ g @ t \<and> ds \<noteq> [] \<and> list_all is_digit ds \<and> list_all is_space ws \<and>
        (\<exists>k bits. (g, t, k, bits) \<in> set units) \<and> m = size_captures ds g t)"

lemma iec_units_iff:
  "g \<in> insert [] ((\<lambda>c. [c, CHR ''i'']) ` set ''KMGTPE'') \<and> t \<in> {''B'', ''bit''} \<longleftrightarrow>
   (\<exists>k bits. (g, t, k, bits) \<in> set iec_units)"
  by (simp add: iec_units_def ex_disj_distrib ex_bool_eq) argo

lemma si_units_iff:
  "g \<in> insert [] ((\<lambda>c. [c]) ` set ''kKMGTPE'') \<and> t \<in> {''B'', ''b'', ''bit''} \<longleftrightarrow>
   (\<exists>k bits. (g, t, k, bits) \<in> set si_units)"
  by (simp add: si_units_def ex_disj_distrib ex_bool_eq) argo

lemma matches_iec: "matches regex_iec s m \<longleftrightarrow> size_shape iec_units s m"
proof -
  note units = iec_units_iff
  let ?A = "(\<lambda>c. [c, CHR ''i'']) ` set ''KMGTPE''"
  have "matches regex_iec s m \<longleftrightarrow>
    (\<exists>ds ws g t. s = ds @ ws @ g @ t \<and> ds \<noteq> [] \<and> list_all is_digit ds \<and> list_all is_space ws \<and>
       (g \<in> insert [] ?A \<and> t \<in> {''B'', ''bit''}) \<and> m = size_captures ds g t)"
    unfolding regex_iec_def
    by (rule matches_size_pattern) (auto simp: matches_simps)
  also have "\<dots> \<longleftrightarrow> size_shape iec_units s m"
    unfolding size_shape_def units ..
  finally show ?thesis .
qed

lemma matches_si: "matches regex_si s m \<longleftrightarrow> size_shape si_units s m"
proof -
  note units = si_units_iff
  let ?A = "(\<lambda>c. [c]) ` set ''kKMGTPE''"
  have "matches regex_si s m \<longleftrightarrow>
    (\<exists>ds ws g t. s = ds @ ws @ g @ t \<and> ds \<noteq> [] \<and> list_all is_digit ds \<and> list_all is_space ws \<and>
       (g \<in> insert [] ?A \<and> t \<in> {''B'', ''b'', ''bit''}) \<and> m = size_captures ds g t)"
    unfolding regex_si_def
    by (rule matches_size_pattern) (auto simp: matches_simps)
  also have "\<dots> \<longleftrightarrow> size_shape si_units s m"
    unfolding size_shape_def units ..
  finally show ?thesis .
qed

section \<open>The parser reads what the reference reads\<close>

text \<open>The facts about the table of units, each by evaluation over its entries.\<close>

lemma case_unfolds:
  "switch_prefix f (CHR ''k'') n = n * f" "switch_prefix f (CHR ''K'') n = n * f"
  "switch_prefix f (CHR ''M'') n = n * f ^ 2" "switch_prefix f (CHR ''G'') n = n * f ^ 3"
  "switch_prefix f (CHR ''T'') n = n * f ^ 4" "switch_prefix f (CHR ''P'') n = n * f ^ 5"
  "switch_prefix f (CHR ''E'') n = n * f ^ 6"
  by (simp_all add: switch_prefix_def case_E_def case_P_def case_T_def case_G_def case_M_def
      case_K_def power_numeral_even power_numeral_odd mult.assoc)

lemma unit_switch:
  "(g, t, k, bits) \<in> set iec_units \<union> set si_units \<Longrightarrow>
   (case g of [] \<Rightarrow> n | c # _ \<Rightarrow> switch_prefix f c n) = n * f ^ k"
  by (auto simp: unit_simps case_unfolds)

lemma unit_bits:
  "(g, t, k, bits) \<in> set iec_units \<union> set si_units \<Longrightarrow> (t = ''bit'' \<or> t = ''b'') = bits"
  by (auto simp: unit_simps)

lemma unit_start:
  "(g, t, k, bits) \<in> set iec_units \<union> set si_units \<Longrightarrow>
   g @ t \<noteq> [] \<and> \<not> is_digit (hd (g @ t)) \<and> \<not> is_space (hd (g @ t))"
  by (auto simp: unit_simps is_digit_def is_space_def)

lemma table_iec_all:
  "list_all (\<lambda>(g, t, k, bits). map_of unit_table (g @ t) = Some (IEC, k, bits)) iec_units"
  by code_simp

lemma table_si_all:
  "list_all (\<lambda>(g, t, k, bits). map_of unit_table (g @ t) = Some (SI, k, bits) \<or>
     list_ex (\<lambda>(g', t', k', bits'). g' = [] \<and> t' = g @ t) iec_units) si_units"
  by code_simp

lemma table_iec:
  "(g, t, k, bits) \<in> set iec_units \<Longrightarrow> map_of unit_table (g @ t) = Some (IEC, k, bits)"
  using table_iec_all by (auto simp: list_all_iff)

lemma table_si:
  "(g, t, k, bits) \<in> set si_units \<Longrightarrow>
   map_of unit_table (g @ t) = Some (SI, k, bits) \<or>
   (\<exists>k bits. ([], g @ t, k, bits) \<in> set iec_units)"
  using table_si_all by (force simp: list_all_iff list_ex_iff)

lemma table_entry:
  "map_of unit_table u = Some (us, k, bits) \<Longrightarrow>
   \<exists>g t. u = g @ t \<and> (g, t, k, bits) \<in> set (if us = IEC then iec_units else si_units)"
  by (auto simp: unit_table_def dest!: map_of_SomeD) blast+

text \<open>What the scanner sees of a text of the shape that the expressions match.\<close>

lemma scan_size:
  assumes "list_all is_digit ds" and "list_all is_space ws"
    and "u \<noteq> [] \<and> \<not> is_digit (hd u) \<and> \<not> is_space (hd u)"
  shows "takeWhile is_digit (ds @ ws @ u) = ds"
    and "dropWhile is_space (dropWhile is_digit (ds @ ws @ u)) = u"
proof -
  have "ws @ u = [] \<or> \<not> is_digit (hd (ws @ u))"
    using assms by (cases ws) (auto dest: digit_not_space)
  then show "takeWhile is_digit (ds @ ws @ u) = ds"
    and "dropWhile is_space (dropWhile is_digit (ds @ ws @ u)) = u"
    using assms by simp_all
qed

lemma size_of_captures_eq:
  assumes "list_all is_digit ds" and "(g, t, k, bits) \<in> set iec_units \<union> set si_units"
  shows "size_of_captures us (size_captures ds g t) =
    (if decimal_value ds < 2 ^ 63
     then Inr \<lparr>size_value = size_number us k bits (decimal_value ds), unit_system = us\<rparr>
     else Inl Undefined_behaviour)"
proof -
  have "(case size_captures ds g t 2 of None \<Rightarrow> n | Some g \<Rightarrow>
      (case g of [] \<Rightarrow> n | c # _ \<Rightarrow> switch_prefix (prefix_factor us) c n)) = n * prefix_factor us ^ k" for n
    using unit_switch [OF assms(2), of n "prefix_factor us"] by (auto split: list.splits)
  then show ?thesis
    using assms unit_bits [OF assms(2)]
    by (simp add: size_of_captures_def atoll_digits size_number_def Let_def)
qed

text \<open>
  Hence a text has the shape in at most one way, and the way is the one the scanner finds.
\<close>

definition unit_text :: "string \<Rightarrow> string" where
  "unit_text s = dropWhile is_space (dropWhile is_digit s)"

lemma size_shape_iff:
  assumes "set units \<subseteq> set iec_units \<union> set si_units"
  shows "size_shape units s m \<longleftrightarrow>
    takeWhile is_digit s \<noteq> [] \<and>
    (\<exists>g t k bits. (g, t, k, bits) \<in> set units \<and> unit_text s = g @ t \<and>
       m = size_captures (takeWhile is_digit s) g t)"
    (is "?lhs \<longleftrightarrow> ?rhs")
proof
  assume ?lhs
  then obtain ds ws g t k bits where s: "s = ds @ ws @ (g @ t)" and ds: "ds \<noteq> []" "list_all is_digit ds"
    and ws: "list_all is_space ws" and unit: "(g, t, k, bits) \<in> set units"
    and m: "m = size_captures ds g t"
    by (auto simp: size_shape_def)
  have "(g @ t) \<noteq> [] \<and> \<not> is_digit (hd (g @ t)) \<and> \<not> is_space (hd (g @ t))"
    using unit_start unit assms by blast
  from scan_size [OF ds(2) ws this] ds(1) unit m show ?rhs
    unfolding s unit_text_def by auto
next
  assume ?rhs
  moreover have "s = takeWhile is_digit s @ takeWhile is_space (dropWhile is_digit s) @ unit_text s"
    by (simp add: unit_text_def)
  ultimately show ?lhs
    unfolding size_shape_def by (metis list_all_takeWhile)
qed

lemmas iec_shape = matches_iec [unfolded size_shape_iff [of iec_units, OF Un_upper1]]
lemmas si_shape = matches_si [unfolded size_shape_iff [of si_units, OF Un_upper2]]

context regex_engine
begin

lemma parse_size_is_reference: "parse_size regex_match s = size_of_text s"
proof (cases "regex_match regex_iec s")
  case (Some m)
  then obtain g t k bits where unit: "(g, t, k, bits) \<in> set iec_units" "unit_text s = g @ t"
    and m: "m = size_captures (takeWhile is_digit s) g t" "takeWhile is_digit s \<noteq> []"
    using match_sound [of regex_iec s m] by (auto simp: iec_shape)
  with Some show ?thesis
    by (simp add: parse_size_def size_of_captures_eq [OF list_all_takeWhile UnI1 [OF unit(1)]]
        size_of_text_def table_iec unit_text_def [symmetric])
next
  case None
  note no_iec = match_complete [OF None, unfolded iec_shape]
  show ?thesis
  proof (cases "regex_match regex_si s")
    case (Some m)
    then obtain g t k bits where unit: "(g, t, k, bits) \<in> set si_units" "unit_text s = g @ t"
      and m: "m = size_captures (takeWhile is_digit s) g t" "takeWhile is_digit s \<noteq> []"
      using match_sound [of regex_si s m] by (auto simp: si_shape)
    have "map_of unit_table (g @ t) = Some (SI, k, bits)"
      using table_si [OF unit(1)] no_iec m(2) unit(2) by fastforce
    with None Some unit m show ?thesis
      by (simp add: parse_size_def size_of_captures_eq [OF list_all_takeWhile UnI2 [OF unit(1)]]
          size_of_text_def unit_text_def [symmetric])
  next
    case none_si: None
    have "map_of unit_table (unit_text s) = None" if "takeWhile is_digit s \<noteq> []"
    proof (rule ccontr)
      assume "map_of unit_table (unit_text s) \<noteq> None"
      then obtain us k bits where "map_of unit_table (unit_text s) = Some (us, k, bits)"
        by auto
      from table_entry [OF this] obtain g t where u: "unit_text s = g @ t"
        and entry: "(g, t, k, bits) \<in> set (if us = IEC then iec_units else si_units)"
        by blast
      have "(g, t, k, bits) \<notin> set iec_units" using no_iec that u by blast
      moreover have "(g, t, k, bits) \<notin> set si_units"
        using match_complete [OF none_si, unfolded si_shape] that u by blast
      ultimately show False using entry by (simp split: if_splits)
    qed
    with None none_si show ?thesis
      by (simp add: parse_size_def size_of_text_def unit_text_def [symmetric])
  qed
qed

end

section \<open>What follows for the sizes a user writes\<close>

lemma size_of_text_numeral:
  assumes "map_of unit_table u = Some (us, k, bits)" and "n < 2 ^ 63"
  shows "size_of_text (show_nat n @ u) =
    Inr \<lparr>size_value = size_number us k bits n, unit_system = us\<rparr>"
proof -
  from table_entry [OF assms(1)] obtain g t where "u = g @ t"
    and unit: "(g, t, k, bits) \<in> set iec_units \<union> set si_units"
    by (auto split: if_splits)
  then have u: "u \<noteq> [] \<and> \<not> is_digit (hd u) \<and> \<not> is_space (hd u)"
    using unit_start by blast
  show ?thesis
    using assms scan_size [OF show_nat_digits _ u, of "[]"]
    by (simp add: size_of_text_def)
qed

text \<open>Without wrap-around the word is the number that the text denotes.\<close>

lemma unat_size_number:
  assumes "n * unat (prefix_factor us) ^ k < 2 ^ 64"
  shows "unat (size_number us k bits n) =
    n * unat (prefix_factor us) ^ k div (if bits then 8 else 1)"
proof -
  have "word_of_nat n * prefix_factor us ^ k = (word_of_nat (n * unat (prefix_factor us) ^ k) :: u64)"
    by simp
  then have "unat (word_of_nat n * prefix_factor us ^ k :: u64) = n * unat (prefix_factor us) ^ k"
    using assms by (simp only: unat_of_nat) simp
  then show ?thesis
    by (simp add: size_number_def Let_def unat_div)
qed

end
