(* ===== verification/Cpu_Ranges.thy ===== *)
theory Cpu_Ranges
  imports Io_Streams
begin

text \<open>
  \<open>src/Range.hpp\<close>, \<open>src/Range.ipp\<close>, \<open>src/Ranges.hpp\<close>, \<open>src/Ranges.ipp\<close> and
  \<open>src/Cpu.hpp\<close>: ranges of values and lists of ranges, their textual form, and the list
  of CPU cores that a list of ranges stands for.
  The C++ templates are definitions that take the operations of the element type as
  arguments; what they need of these is the locale \<open>range_element\<close>, interpreted here for
  the 32-bit core numbers.
\<close>

section \<open>Data\<close>

record 'a Range =
  range_low :: 'a
  range_high :: 'a

record 'a Ranges =
  ranges :: "'a Range list"

type_synonym CpuCoreId = u32
type_synonym CpuCoreIds = "CpuCoreId list"
type_synonym CpuCoreIdRanges = "CpuCoreId Ranges"

text \<open>The one-argument constructor.\<close>

definition range_of_value :: "'a \<Rightarrow> 'a Range" where
  "range_of_value v = \<lparr>range_low = v, range_high = v\<rparr>"

section \<open>Reading and printing\<close>

type_synonym 'a extractor = "istream \<Rightarrow> failure + istream \<times> 'a option"

text \<open>
  \<open>Type x; std::istringstream{text} >> x;\<close> with the stream thrown away: a failed extraction
  goes unnoticed. \<open>dflt\<close> is the value of a default-initialised variable: \<open>None\<close> for a
  built-in integer, whose value is indeterminate, so that using it is undefined.
\<close>

definition read_text :: "'a extractor \<Rightarrow> 'a option \<Rightarrow> string \<Rightarrow> failure + 'a" where
  "read_text reader dflt text =
     and_then (reader (istringstream text)) (\<lambda>(st, v).
       case v of
         Some x \<Rightarrow> Inr x
       | None \<Rightarrow> (case dflt of Some x \<Rightarrow> Inr x | None \<Rightarrow> Inl Undefined_behaviour))"

definition extract_Range :: "'a extractor \<Rightarrow> 'a option \<Rightarrow> istream \<Rightarrow> failure + istream \<times> 'a Range" where
  "extract_Range reader dflt st =
     (case extract_string st of (st', s) \<Rightarrow>
        let before = takeWhile (\<lambda>c. c \<noteq> CHR ''-'') s;
            after = drop (Suc (length before)) s
        in and_then (read_text reader dflt before) (\<lambda>low.
           and_then (if CHR ''-'' \<in> set s then read_text reader dflt after else Inr low) (\<lambda>high.
             Inr (st', \<lparr>range_low = low, range_high = high\<rparr>))))"

definition print_Range :: "('a \<Rightarrow> string) \<Rightarrow> ('a \<Rightarrow> 'a \<Rightarrow> bool) \<Rightarrow> 'a Range \<Rightarrow> string" where
  "print_Range printer differ r =
     printer (range_low r) @ (if differ (range_low r) (range_high r) then ''-'' @ printer (range_high r) else '''')"

definition extract_Ranges :: "'a extractor \<Rightarrow> 'a option \<Rightarrow> istream \<Rightarrow> failure + istream \<times> 'a Ranges" where
  "extract_Ranges reader dflt st =
     (case extract_string st of (st', s) \<Rightarrow>
        and_then
          (map_results
             (\<lambda>token. and_then (extract_Range reader dflt (istringstream token)) (\<lambda>(_, r). Inr r))
             (getline_tokens (CHR '','') s))
          (\<lambda>rs. Inr (st', \<lparr>ranges = rs\<rparr>)))"

text \<open>The printing loop with its flag, as it is written.\<close>

fun print_ranges_loop ::
  "('a \<Rightarrow> string) \<Rightarrow> ('a \<Rightarrow> 'a \<Rightarrow> bool) \<Rightarrow> bool \<Rightarrow> 'a Range list \<Rightarrow> string" where
  "print_ranges_loop printer differ first [] = ''''"
| "print_ranges_loop printer differ first (r # rs) =
     (if first
      then '', '' @ print_Range printer differ r @ print_ranges_loop printer differ False rs
      else print_Range printer differ r @ print_ranges_loop printer differ first rs)"

definition print_Ranges :: "('a \<Rightarrow> string) \<Rightarrow> ('a \<Rightarrow> 'a \<Rightarrow> bool) \<Rightarrow> 'a Ranges \<Rightarrow> string" where
  "print_Ranges printer differ rs = print_ranges_loop printer differ True (ranges rs)"

section \<open>The values of a range\<close>

text \<open>\<open>for (i = low; i != high; ++i)\<close> counts modulo the width of the integer.\<close>

function sequence_loop :: "'a::len word \<Rightarrow> 'a word \<Rightarrow> 'a word list" where
  "sequence_loop i e = (if i \<noteq> e then i # sequence_loop (i + 1) e else [])"
  by pat_completeness auto
termination
  by (relation "measure (\<lambda>(i, e). unat (e - i))") (auto intro: word_loop_decreases)

declare sequence_loop.simps [simp del]

definition as_sequence :: "'a::len word Range \<Rightarrow> 'a word list" where
  "as_sequence r = sequence_loop (range_low r) (range_high r) @ [range_high r]"

text \<open>\<open>std::unique\<close> keeps the first element of every group of equal neighbours.\<close>

definition ranges_sequence :: "'a::len word Ranges \<Rightarrow> 'a word list" where
  "ranges_sequence rs = remdups_adj (concat (map as_sequence (ranges rs)))"

definition to_cpu_core_list :: "CpuCoreIdRanges \<Rightarrow> CpuCoreIds" where
  "to_cpu_core_list rs = ranges_sequence rs"

section \<open>Core numbers as text\<close>

definition extract_core :: "CpuCoreId extractor" where
  "extract_core st = Inr (extract_unsigned st)"

definition print_core :: "CpuCoreId \<Rightarrow> string" where
  "print_core c = show_nat (unat c)"

section \<open>What the templates need of their element type\<close>

text \<open>
  A printed element is a word of characters other than the two separators, and reading
  it gives the element back.
\<close>

definition plain_char :: "char \<Rightarrow> bool" where
  "plain_char c \<longleftrightarrow> \<not> is_space c \<and> c \<noteq> CHR ''-'' \<and> c \<noteq> CHR '',''"

lemma separators_not_space [simp]: "\<not> is_space (CHR ''-'')" "\<not> is_space (CHR '','')"
  by (simp_all add: is_space_def)

locale range_element =
  fixes reader :: "'a extractor"
    and printer :: "'a \<Rightarrow> string"
  assumes read_print: "\<exists>st. reader (istringstream (printer x)) = Inr (st, Some x)"
    and print_plain: "list_all plain_char (printer x)"
    and print_nonempty: "printer x \<noteq> []"
begin

lemma read_text_print: "read_text reader dflt (printer x) = Inr x"
  using read_print [of x] by (auto simp: read_text_def)

abbreviation "text_of \<equiv> print_Range printer (\<noteq>)"

lemma range_text_chars: "list_all (\<lambda>c. plain_char c \<or> c = CHR ''-'') (text_of r)"
  using print_plain [of "range_low r"] print_plain [of "range_high r"]
  by (auto simp: print_Range_def list_all_iff)

lemma range_text_word: "text_of r \<noteq> []" "list_all (\<lambda>c. \<not> is_space c) (text_of r)"
  "CHR '','' \<notin> set (text_of r)"
proof -
  show "text_of r \<noteq> []" by (simp add: print_Range_def print_nonempty)
  show "list_all (\<lambda>c. \<not> is_space c) (text_of r)"
    using range_text_chars [of r] by (rule list.pred_mono_strong) (auto simp: plain_char_def)
  show "CHR '','' \<notin> set (text_of r)"
    using range_text_chars [of r] by (auto simp: list_all_iff plain_char_def)
qed

lemma range_roundtrip:
  "\<exists>st. extract_Range reader dflt (istringstream (text_of r)) = Inr (st, r)"
proof (cases "range_low r = range_high r")
  case True
  then have "text_of r = printer (range_low r)" by (simp add: print_Range_def)
  moreover have "CHR ''-'' \<notin> set (printer (range_low r))"
    using print_plain [of "range_low r"] by (auto simp: list_all_iff plain_char_def)
  moreover have "list_all (\<lambda>c. c \<noteq> CHR ''-'') (printer (range_low r))"
    using calculation(2) by (auto simp: list_all_iff)
  ultimately show ?thesis
    using True range_text_word [of r]
    by (simp add: extract_Range_def extract_string_word read_text_print)
next
  case False
  let ?l = "printer (range_low r)" and ?h = "printer (range_high r)"
  have shown: "text_of r = ?l @ ''-'' @ ?h" using False by (simp add: print_Range_def)
  have "list_all (\<lambda>c. c \<noteq> CHR ''-'') ?l"
    using print_plain [of "range_low r"] by (auto simp: list_all_iff plain_char_def)
  then have "takeWhile (\<lambda>c. c \<noteq> CHR ''-'') (?l @ ''-'' @ ?h) = ?l" by simp
  with shown range_text_word [of r] show ?thesis
    by (simp add: extract_Range_def extract_string_word read_text_print Let_def)
qed

lemma ranges_of_joined_texts:
  assumes "rs \<noteq> []"
  shows "\<exists>st. extract_Ranges reader dflt (istringstream (join (CHR '','') (map text_of rs))) =
    Inr (st, \<lparr>ranges = rs\<rparr>)"
proof -
  let ?s = "join (CHR '','') (map text_of rs)"
  have tokens: "getline_tokens (CHR '','') ?s = map text_of rs"
    using assms range_text_word by (intro getline_tokens_join) (auto simp: list_all_iff last_map)
  have "list_all (\<lambda>c. \<not> is_space c) ?s"
    using set_join [of "CHR '',''" "map text_of rs"] range_text_word(2)
    unfolding list_all_iff by fastforce
  moreover have "?s \<noteq> []" using tokens assms by auto
  moreover have "map_results
      (\<lambda>t. and_then (extract_Range reader dflt (istringstream t)) (\<lambda>(_, r). Inr r))
      (map text_of rs) = Inr rs"
  proof -
    have "and_then (extract_Range reader dflt (istringstream (text_of r))) (\<lambda>(_, r). Inr r) = Inr r" for r
      using range_roundtrip [of dflt r] by auto
    then show ?thesis by (simp add: map_results_map [where g = "\<lambda>r. r", simplified])
  qed
  ultimately show ?thesis
    by (simp add: extract_Ranges_def extract_string_word tokens)
qed

end

lemma plain_digit: "is_digit c \<Longrightarrow> plain_char c"
  by (auto simp: plain_char_def is_digit_def digit_not_space)

interpretation cores: range_element extract_core print_core
proof
  fix x :: CpuCoreId
  have "decimal_value (show_nat (unat x)) < 2 ^ LENGTH(32)"
    using unsigned_less [of x] by simp
  then show "\<exists>st. extract_core (istringstream (print_core x)) = Inr (st, Some x)"
    using extract_unsigned_digits [of "show_nat (unat x)", where 'a = 32] show_nat_digits [of "unat x"]
    by (simp add: extract_core_def print_core_def)
  show "list_all plain_char (print_core x)"
    using show_nat_digits [of "unat x"] by (auto simp: print_core_def list_all_iff plain_digit)
  show "print_core x \<noteq> []" by (simp add: print_core_def)
qed

section \<open>The loop over a range\<close>

lemma sequence_loop_eq:
  "sequence_loop i e = map (\<lambda>k. i + word_of_nat k) [0..<unat (e - i)]"
proof (induction i e rule: sequence_loop.induct)
  case (1 i e)
  show ?case
  proof (cases "i = e")
    case True
    then show ?thesis by (subst sequence_loop.simps) simp
  next
    case False
    then have "sequence_loop i e = i # map (\<lambda>k. (i + 1) + word_of_nat k) [0..<unat (e - (i + 1))]"
      using 1 by (simp add: sequence_loop.simps [of i e])
    also have "\<dots> = map (\<lambda>k. i + word_of_nat k) (0 # map Suc [0..<unat (e - (i + 1))])"
      by (simp add: add.assoc)
    also have "0 # map Suc [0..<unat (e - (i + 1))] = [0..<unat (e - i)]"
      using False by (simp add: unat_loop_distance map_Suc_upt upt_conv_Cons)
    finally show ?thesis .
  qed
qed

lemma as_sequence_eq:
  "as_sequence r = map (\<lambda>k. range_low r + word_of_nat k) [0..<Suc (unat (range_high r - range_low r))]"
  by (simp add: as_sequence_def sequence_loop_eq)

lemma as_sequence_upt:
  assumes "range_low r \<le> range_high r"
  shows "map unat (as_sequence r) = [unat (range_low r) ..< Suc (unat (range_high r))]"
proof -
  let ?l = "unat (range_low r)" and ?h = "unat (range_high r)"
  have le: "?l \<le> ?h" using assms by (simp add: word_le_nat_alt)
  have at: "unat (range_low r + word_of_nat k) = ?l + k" if "k < Suc (?h - ?l)" for k
  proof -
    have small: "?l + k < 2 ^ LENGTH('a)"
      using that le unsigned_less [of "range_high r"] by (metis add.commute less_Suc_eq_le less_diff_conv2 le_less_trans nat_add_left_cancel_le ordered_cancel_comm_monoid_diff_class.add_diff_inverse)
    then have "unat (word_of_nat k :: 'a word) = k" by (simp add: unat_of_nat)
    with small show ?thesis using unat_plus_no_wrap [of "range_low r" "word_of_nat k"] by simp
  qed
  have "map unat (as_sequence r) = map (\<lambda>k. k + ?l) [0..<Suc (?h - ?l)]"
    unfolding as_sequence_eq using assms at
    by (simp add: unat_minus_le add.commute del: upt_Suc)
  also have "\<dots> = [?l ..< Suc ?h]"
    using le map_add_upt [of ?l "Suc (?h - ?l)"] by (simp add: Suc_diff_le del: upt_Suc)
  finally show ?thesis .
qed

lemma as_sequence_distinct: "range_low r \<le> range_high r \<Longrightarrow> distinct (as_sequence r)"
  by (metis as_sequence_upt distinct_map distinct_upt)

lemma as_sequence_set:
  assumes "range_low r \<le> range_high r"
  shows "set (as_sequence r) = {range_low r .. range_high r}"
proof -
  have "unat ` set (as_sequence r) = {unat (range_low r) .. unat (range_high r)}"
    using as_sequence_upt [OF assms] by (metis atLeastLessThanSuc_atLeastAtMost list.set_map set_upt)
  then have "unat x \<in> unat ` set (as_sequence r) \<longleftrightarrow> x \<in> {range_low r .. range_high r}" for x
    by (simp add: word_le_nat_alt)
  then show ?thesis
    unfolding set_eq_iff by (simp add: inj_image_mem_iff inj_def word_unat_eq_iff)
qed

end
