(* ===== verification/Config.thy ===== *)
theory Config
  imports Sizes Cpu_Ranges
begin

text \<open>
  \<open>src/SessionConfiguration.hpp\<close>, \<open>src/SessionConfiguration.cpp\<close> and
  \<open>src/ApplicationConfiguration.hpp\<close>: the enumerations of a session's options with
  their readers and printers, and the configuration records.
\<close>

section \<open>Data\<close>

datatype Mode = CLIENT | SERVER
datatype Verify = NONE | FIRST | ALL'  \<comment> \<open>\<open>ALL\<close> is a token of the logic\<close>
datatype Direction = RX | TX | BOTH
datatype ShutdownPolicy = WAIT_FOR_PEER | SEND_COMPLETE | RECEIVE_COMPLETE
datatype Protocol = UDP | TCP

text \<open>
  \<open>boost::posix_time::time_duration\<close>: a number of ticks, or one of the special values
  that \<open>is_special\<close> tells apart.
\<close>

datatype time_duration = Special | Ticks int

definition is_special :: "time_duration \<Rightarrow> bool" where
  "is_special d \<longleftrightarrow> d = Special"

record SessionConfiguration =
  mode :: Mode
  verify :: Verify
  direction :: Direction
  endpoint :: string
  send_bandwidth :: Size
  receive_bandwidth :: Size
  bandwidth_sampling_frequency :: u64
  windows :: Size
  total_size :: Size  \<comment> \<open>\<open>size\<close> in the source\<close>
  packet_size :: "Size Range"
  duration_margin :: time_duration
  shutdown_policy :: ShutdownPolicy
  protocol :: Protocol

record ApplicationConfiguration =
  cpus :: CpuCoreIdRanges
  session_configurations :: "SessionConfiguration list"

section \<open>Reading the enumerations\<close>

text \<open>
  Every \<open>operator>>\<close> has the same frame: a sentry, one word, and a chain of comparisons
  that ends in an exception. The variable keeps its value when the sentry fails.
\<close>

definition extract_keyword :: "(string \<Rightarrow> failure + 'a) \<Rightarrow> 'a extractor" where
  "extract_keyword keyword st =
     (case sentry st of (st', ok) \<Rightarrow>
        if ok then
          (case extract_string st' of (st'', s) \<Rightarrow>
             and_then (keyword s) (\<lambda>x. Inr (st'', Some x)))
        else Inr (st', None))"

definition verify_keyword :: "string \<Rightarrow> failure + Verify" where
  "verify_keyword s =
     (if s = ''none'' then Inr NONE
      else if s = ''first'' then Inr FIRST
      else if s = ''all'' then Inr ALL'
      else Inl (Runtime_error ''Unexpected verification mode''))"

definition direction_keyword :: "string \<Rightarrow> failure + Direction" where
  "direction_keyword s =
     (if s = ''tx'' then Inr TX
      else if s = ''rx'' then Inr RX
      else if s = ''both'' then Inr BOTH
      else Inl (Runtime_error ''Unexpected mode option value''))"

definition policy_keyword :: "string \<Rightarrow> failure + ShutdownPolicy" where
  "policy_keyword s =
     (if s = ''wait_for_peer'' then Inr WAIT_FOR_PEER
      else if s = ''send_complete'' then Inr SEND_COMPLETE
      else if s = ''receive_complete'' then Inr RECEIVE_COMPLETE
      else Inl (Runtime_error ''Unexpected shutdown policy''))"

definition protocol_keyword :: "string \<Rightarrow> failure + Protocol" where
  "protocol_keyword s =
     (if s = ''tcp'' then Inr TCP
      else if s = ''udp'' then Inr UDP
      else Inl (Runtime_error ''Unexpected protocol''))"

definition extract_Verify :: "Verify extractor" where
  "extract_Verify = extract_keyword verify_keyword"

definition extract_Direction :: "Direction extractor" where
  "extract_Direction = extract_keyword direction_keyword"

definition extract_ShutdownPolicy :: "ShutdownPolicy extractor" where
  "extract_ShutdownPolicy = extract_keyword policy_keyword"

definition extract_Protocol :: "Protocol extractor" where
  "extract_Protocol = extract_keyword protocol_keyword"

section \<open>Printing them\<close>

fun print_Verify :: "Verify \<Rightarrow> string" where
  "print_Verify NONE = ''none''"
| "print_Verify FIRST = ''first''"
| "print_Verify ALL' = ''all''"

fun print_Mode :: "Mode \<Rightarrow> string" where
  "print_Mode CLIENT = ''client''"
| "print_Mode SERVER = ''server''"

fun print_Direction :: "Direction \<Rightarrow> string" where
  "print_Direction RX = ''rx''"
| "print_Direction TX = ''tx''"
| "print_Direction BOTH = ''both''"

fun print_ShutdownPolicy :: "ShutdownPolicy \<Rightarrow> string" where
  "print_ShutdownPolicy WAIT_FOR_PEER = ''wait_for_peer''"
| "print_ShutdownPolicy SEND_COMPLETE = ''send_complete''"
| "print_ShutdownPolicy RECEIVE_COMPLETE = ''receive_complete''"

fun print_Protocol :: "Protocol \<Rightarrow> string" where
  "print_Protocol TCP = ''tcp''"
| "print_Protocol UDP = ''udp''"

section \<open>What the readers and the printers promise each other\<close>

locale keyword_enum =
  fixes keyword :: "string \<Rightarrow> failure + 'a"
    and printer :: "'a \<Rightarrow> string"
  assumes keyword_printer: "keyword (printer x) = Inr x"
    and printer_word: "printer x \<noteq> [] \<and> list_all (\<lambda>c. \<not> is_space c) (printer x)"
    and keyword_only: "keyword s = Inr x \<Longrightarrow> s = printer x"
begin

lemma keyword_read: "\<exists>st. extract_keyword keyword (istringstream (printer x)) = Inr (st, Some x)"
proof -
  have "\<not> is_space (hd (printer x))" using printer_word [of x] by (cases "printer x") auto
  then show ?thesis
    using printer_word [of x]
    by (simp add: extract_keyword_def sentry_word extract_string_word keyword_printer)
qed

lemma keyword_accepts: "(\<exists>x. keyword s = Inr x) \<longleftrightarrow> s \<in> range printer"
  using keyword_printer keyword_only by blast

end

interpretation verify_enum: keyword_enum verify_keyword print_Verify
proof
  show "verify_keyword (print_Verify x) = Inr x" for x by (cases x) (auto simp: verify_keyword_def)
  show "print_Verify x \<noteq> [] \<and> list_all (\<lambda>c. \<not> is_space c) (print_Verify x)" for x
    by (cases x) (auto simp: is_space_def)
  show "verify_keyword s = Inr x \<Longrightarrow> s = print_Verify x" for s x
    by (auto simp: verify_keyword_def split: if_splits)
qed

interpretation direction_enum: keyword_enum direction_keyword print_Direction
proof
  show "direction_keyword (print_Direction x) = Inr x" for x
    by (cases x) (auto simp: direction_keyword_def)
  show "print_Direction x \<noteq> [] \<and> list_all (\<lambda>c. \<not> is_space c) (print_Direction x)" for x
    by (cases x) (auto simp: is_space_def)
  show "direction_keyword s = Inr x \<Longrightarrow> s = print_Direction x" for s x
    by (auto simp: direction_keyword_def split: if_splits)
qed

interpretation policy_enum: keyword_enum policy_keyword print_ShutdownPolicy
proof
  show "policy_keyword (print_ShutdownPolicy x) = Inr x" for x
    by (cases x) (auto simp: policy_keyword_def)
  show "print_ShutdownPolicy x \<noteq> [] \<and> list_all (\<lambda>c. \<not> is_space c) (print_ShutdownPolicy x)" for x
    by (cases x) (auto simp: is_space_def)
  show "policy_keyword s = Inr x \<Longrightarrow> s = print_ShutdownPolicy x" for s x
    by (auto simp: policy_keyword_def split: if_splits)
qed

interpretation protocol_enum: keyword_enum protocol_keyword print_Protocol
proof
  show "protocol_keyword (print_Protocol x) = Inr x" for x
    by (cases x) (auto simp: protocol_keyword_def)
  show "print_Protocol x \<noteq> [] \<and> list_all (\<lambda>c. \<not> is_space c) (print_Protocol x)" for x
    by (cases x) (auto simp: is_space_def)
  show "protocol_keyword s = Inr x \<Longrightarrow> s = print_Protocol x" for s x
    by (auto simp: protocol_keyword_def split: if_splits)
qed

end
