(* ===== verification/Stats.thy ===== *)
theory Stats
  imports Config
begin

text \<open>
  \<open>src/Statistics.hpp\<close> and the bandwidth computation of \<open>src/Statistics.cpp\<close>. Dates are
  ticks of Boost's universal clock; \<open>None\<close> is \<open>not_a_date_time\<close>. The padding that keeps
  the two halves of the record on different cache lines carries no data.
\<close>

record Statistics =
  start_date :: "int option"
  received_bytes_count :: Size
  receive_duration :: time_duration
  sent_bytes_count :: Size
  send_duration :: time_duration

definition default_Statistics :: Statistics where
  "default_Statistics =
     \<lparr>start_date = None, received_bytes_count = default_Size, receive_duration = Ticks 0,
      sent_bytes_count = default_Size, send_duration = Ticks 0\<rparr>"

text \<open>The difference of two dates; anything minus \<open>not_a_date_time\<close> is special.\<close>

definition time_since :: "int \<Rightarrow> int option \<Rightarrow> time_duration" where
  "time_since now date = (case date of None \<Rightarrow> Special | Some d \<Rightarrow> Ticks (now - d))"

text \<open>
  The number that \<open>compute_bandwidth\<close> prints, with \<open>None\<close> for the text \<open>undefined\<close>. The
  duration is given by its whole milliseconds, a signed number that the division converts
  to an unsigned one.
\<close>

definition compute_bandwidth :: "u64 \<Rightarrow> int option \<Rightarrow> u64 option" where
  "compute_bandwidth bytes_count total_milliseconds =
     (case total_milliseconds of
        None \<Rightarrow> None
      | Some ms \<Rightarrow> if ms = 0 then None else Some (bytes_count div word_of_int ms * 1000))"

end
