(* ===== verification/Throttle.thy ===== *)
theory Throttle
  imports Prelude
begin

text \<open>
  \<open>src/BandwidthThrottle.hpp\<close> and \<open>src/BandwidthThrottle.cpp\<close>: time is cut into slices,
  and a transfer may move a fixed number of bytes in each. Times are nanoseconds of the
  steady clock, whose readings are arguments. The Boost timer is represented by its
  expiry time: its documented promise is that the handler of a wait runs without failure
  only once that time has come.
\<close>

section \<open>State and operations\<close>

record BandwidthThrottle =
  expiry :: int             \<comment> \<open>the expiry time of \<open>timer_\<close>\<close>
  slice_bytes_count :: u64
  slice_duration :: int
  next_slice_start :: int

definition to_slice_bytes_count :: "u64 \<Rightarrow> u64 \<Rightarrow> failure + u64" where
  "to_slice_bytes_count bandwidth sampling_frequency =
     (if sampling_frequency = 0 then Inl Assertion_failed
      else Inr (bandwidth div sampling_frequency))"

text \<open>The quotient of a signed count of nanoseconds and a \<open>size_t\<close> is computed unsigned.\<close>

definition to_slice_duration :: "u64 \<Rightarrow> failure + int" where
  "to_slice_duration sampling_frequency =
     (if sampling_frequency = 0 then Inl Assertion_failed
      else Inr (uint (1000 * 1000 * 1000 div sampling_frequency)))"

definition make_throttle :: "int \<Rightarrow> u64 \<Rightarrow> u64 \<Rightarrow> failure + BandwidthThrottle" where
  "make_throttle now bandwidth sampling_frequency =
     and_then (to_slice_bytes_count bandwidth sampling_frequency) (\<lambda>bytes.
     and_then (to_slice_duration sampling_frequency) (\<lambda>duration.
       Inr \<lparr>expiry = 0, slice_bytes_count = bytes, slice_duration = duration,
            next_slice_start = now\<rparr>))"

text \<open>
  \<open>delay\<close> sets the timer to the start of the next slice; its handler does nothing on
  failure, and otherwise moves the start on and grants the bytes of the slice.
\<close>

definition delay :: "BandwidthThrottle \<Rightarrow> BandwidthThrottle" where
  "delay t = t\<lparr>expiry := next_slice_start t\<rparr>"

definition begin_slice :: "BandwidthThrottle \<Rightarrow> BandwidthThrottle \<times> u64" where
  "begin_slice t =
     (t\<lparr>next_slice_start := next_slice_start t + slice_duration t\<rparr>, slice_bytes_count t)"

definition reset :: "int \<Rightarrow> BandwidthThrottle \<Rightarrow> BandwidthThrottle" where
  "reset now t = t\<lparr>next_slice_start := now\<rparr>"

section \<open>Facts about slices\<close>

lemma make_throttle_Inr:
  "make_throttle now bandwidth f = Inr t \<longleftrightarrow>
   f \<noteq> 0 \<and> t = \<lparr>expiry = 0, slice_bytes_count = bandwidth div f,
                slice_duration = uint (1000000000 div f :: u64), next_slice_start = now\<rparr>"
  by (auto simp: make_throttle_def to_slice_bytes_count_def to_slice_duration_def and_then_Inr_iff)

lemma delay_simps [simp]:
  "expiry (delay t) = next_slice_start t"
  "slice_bytes_count (delay t) = slice_bytes_count t"
  "slice_duration (delay t) = slice_duration t"
  "next_slice_start (delay t) = next_slice_start t"
  by (simp_all add: delay_def)

lemma reset_simps [simp]:
  "expiry (reset now t) = expiry t"
  "slice_bytes_count (reset now t) = slice_bytes_count t"
  "slice_duration (reset now t) = slice_duration t"
  "next_slice_start (reset now t) = now"
  by (simp_all add: reset_def)

lemma begin_slice_simps [simp]:
  "snd (begin_slice t) = slice_bytes_count t"
  "expiry (fst (begin_slice t)) = expiry t"
  "slice_bytes_count (fst (begin_slice t)) = slice_bytes_count t"
  "slice_duration (fst (begin_slice t)) = slice_duration t"
  "next_slice_start (fst (begin_slice t)) = next_slice_start t + slice_duration t"
  by (simp_all add: begin_slice_def)

text \<open>
  A run of the throttle: the times at which successive waits end, each not before the
  expiry of its wait, and the bytes that the slices grant.
\<close>

inductive grants :: "BandwidthThrottle \<Rightarrow> int list \<Rightarrow> nat \<Rightarrow> BandwidthThrottle \<Rightarrow> bool" where
  no_slice: "grants t [] 0 t"
| slice: "grants t starts bytes u \<Longrightarrow> expiry (delay u) \<le> now \<Longrightarrow> begin_slice (delay u) = (v, b) \<Longrightarrow>
    grants t (now # starts) (bytes + unat b) v"

lemma grants_invariant:
  "grants t starts bytes u \<Longrightarrow>
   slice_bytes_count u = slice_bytes_count t \<and> slice_duration u = slice_duration t \<and>
   bytes = length starts * unat (slice_bytes_count t) \<and>
   next_slice_start u = next_slice_start t + int (length starts) * slice_duration t \<and>
   (starts \<noteq> [] \<longrightarrow> next_slice_start u \<le> hd starts + slice_duration t)"
proof (induction rule: grants.induct)
  case (no_slice t)
  then show ?case by simp
next
  case (slice t starts bytes u now v b)
  then have "v = fst (begin_slice (delay u))" "b = slice_bytes_count u"
    by (auto simp: begin_slice_def)
  with slice show ?case by (simp add: algebra_simps)
qed

end
