(* ===== verification/Errors.thy ===== *)
theory Errors
  imports Prelude
begin

text \<open>
  \<open>src/Error.hpp\<close>, \<open>src/Error.cpp\<close> and \<open>src/Signal.cpp\<close>: the program's own error
  codes and their messages, the error codes that Boost hands over, and the exit flag with
  its signal handler.
\<close>

section \<open>Error codes\<close>

datatype Error =
    success
  | generic_fault
  | unexpected_eof
  | data_mismatch
  | test_timeout
  | unexpected_data
  | user_interrupt
  | program_termination
  | unknown_signal

fun error_number :: "Error \<Rightarrow> int" where
  "error_number success = 0"
| "error_number generic_fault = 1"
| "error_number unexpected_eof = 2"
| "error_number data_mismatch = 3"
| "error_number test_timeout = 4"
| "error_number unexpected_data = 5"
| "error_number user_interrupt = 6"
| "error_number program_termination = 7"
| "error_number unknown_signal = 8"

definition message :: "int \<Rightarrow> string" where
  "message condition =
     (if condition = error_number success then ''Success''
      else if condition = error_number generic_fault then ''Generic fault''
      else if condition = error_number unexpected_eof then ''Unexpected Eof''
      else if condition = error_number data_mismatch then ''Data mismatch''
      else if condition = error_number test_timeout then ''Test timeout''
      else if condition = error_number unexpected_data then ''Unexpected data''
      else if condition = error_number user_interrupt then ''User Interrupt''
      else if condition = error_number program_termination then ''Program termination''
      else if condition = error_number unknown_signal then ''Unknown signal''
      else ''Unknown error'')"

text \<open>
  A \<open>boost::system::error_code\<close> is a number and a category. The sources compare codes
  with two of Asio's, \<open>operation_aborted\<close> and \<open>eof\<close>, which stay symbolic here, build codes of
  the program's own category, and pass every other code on.
\<close>

datatype error_code =
    No_error
  | Operation_aborted
  | Eof
  | System_error int
  | Tester_error Error

definition category_name :: string where
  "category_name = ''tcp_tester''"

definition make_error_code :: "Error \<Rightarrow> error_code" where
  "make_error_code e = Tester_error e"

text \<open>The conversion to \<open>bool\<close>: whether the number is not zero.\<close>

definition is_failure :: "error_code \<Rightarrow> bool" where
  "is_failure c \<longleftrightarrow> c \<noteq> No_error \<and> c \<noteq> System_error 0 \<and> c \<noteq> Tester_error success"

lemma is_failure_simps [simp]:
  "\<not> is_failure No_error" "is_failure Operation_aborted" "is_failure Eof"
  "is_failure (System_error n) \<longleftrightarrow> n \<noteq> 0"
  "is_failure (Tester_error e) \<longleftrightarrow> e \<noteq> success"
  by (auto simp: is_failure_def)

lemma tester_error_is_failure: "is_failure (make_error_code e) \<longleftrightarrow> error_number e \<noteq> 0"
  by (cases e) (auto simp: make_error_code_def)

section \<open>Exceptions\<close>

datatype thrown =
    Standard failure          \<comment> \<open>an exception of the standard library, or no regular end at all\<close>
  | System_failure error_code \<comment> \<open>\<open>boost::system::system_error\<close>\<close>
  | Terminated              \<comment> \<open>an exception left a thread: \<open>std::terminate\<close>\<close>

text \<open>Operations that throw exceptions of one kind, among operations that throw any.\<close>

definition throws_standard :: "failure + 'a \<Rightarrow> thrown + 'a" where
  "throws_standard r = map_sum Standard id r"

definition throws_system :: "error_code + 'a \<Rightarrow> thrown + 'a" where
  "throws_system r = map_sum System_failure id r"

lemma throws_simps [simp]:
  "throws_standard (Inl f) = Inl (Standard f)" "throws_standard (Inr a) = Inr a"
  "throws_system (Inl e) = Inl (System_failure e)" "throws_system (Inr a) = Inr a"
  by (simp_all add: throws_standard_def throws_system_def)

lemma throws_iff [simp]:
  "throws_standard r = Inr a \<longleftrightarrow> r = Inr a" "throws_system r' = Inr a \<longleftrightarrow> r' = Inr a"
  "throws_standard r = Inl t \<longleftrightarrow> (\<exists>f. r = Inl f \<and> t = Standard f)"
  "throws_system r' = Inl t \<longleftrightarrow> (\<exists>e. r' = Inl e \<and> t = System_failure e)"
  by (cases r; cases r'; auto)+

section \<open>The exit flag and the signal handler\<close>

record signal_state =
  exit_requested :: bool
  aborted :: bool  \<comment> \<open>\<open>std::abort\<close> has ended the process\<close>

definition signals_at_start :: signal_state where
  "signals_at_start = \<lparr>exit_requested = False, aborted = False\<rparr>"

definition request_exit :: "signal_state \<Rightarrow> signal_state" where
  "request_exit s = s\<lparr>exit_requested := True\<rparr>"

definition is_exit_requested :: "signal_state \<Rightarrow> bool" where
  "is_exit_requested s = exit_requested s"

definition on_signal :: "signal_state \<Rightarrow> signal_state" where
  "on_signal s = (if is_exit_requested s then s\<lparr>aborted := True\<rparr> else request_exit s)"

end
