(* ===== verification/Sessions.thy ===== *)
theory Sessions
  imports Stats Throttle Errors "HOL-Library.Signed_Division"
begin

text \<open>
  \<open>src/Session.hpp\<close> and \<open>src/Session.cpp\<close>: the state of a session and the operations of
  the base class. A virtual function that a base operation calls is an argument of that
  operation, as the C++ object's table of functions is; \<open>Tcp_Session\<close> and
  \<open>Udp_Session\<close> define the functions of the two subclasses.

  Asynchronous operations are values in the list \<open>pending\<close>: starting one appends it,
  and its handler runs in a later step, defined in \<open>Session_Steps\<close>. The operating system's
  side of a session (the socket and the bytes that crossed it, the clocks, the process-wide
  exit flag, the numbers the random generator will draw) are fields of the same record.
\<close>

section \<open>State\<close>

text \<open>
  Asio runs the handler of an operation after the operation completed (\<open>Completed\<close>, the
  handler is queued) or after it was cancelled, and then with the code
  \<open>operation_aborted\<close>. A cancellation does not reach an operation that has completed.
\<close>

datatype progress = Waiting | Completed | Cancelled

datatype operation =
    Wait_signal progress            \<comment> \<open>\<open>signals_\<close>\<close>
  | Wait_timeout progress           \<comment> \<open>\<open>timeout_timer_\<close>\<close>
  | Wait_receive_slice progress     \<comment> \<open>the timer of \<open>receive_throttle_\<close>\<close>
  | Wait_send_slice progress        \<comment> \<open>the timer of \<open>send_throttle_\<close>\<close>
  | Receive progress u64 u64        \<comment> \<open>into a buffer: what is left of the slice, buffer size\<close>
  | Receive_eof progress            \<comment> \<open>into one byte, for the end of the stream\<close>
  | Send progress u64 u64 u64       \<comment> \<open>what is left of the slice, buffer offset and size\<close>
  | Connect progress                \<comment> \<open>connecting, or accepting a peer\<close>
  | Posted progress                 \<comment> \<open>the function that \<open>initialize\<close> posts\<close>

record Socket =
  closed :: bool                \<comment> \<open>\<open>close\<close> has been called\<close>
  send_shut_down :: bool
  sent_stream :: "u8 list"      \<comment> \<open>the payload handed to the peer, in order\<close>
  received_stream :: "u8 list"  \<comment> \<open>the payload handed to \<open>on_receive\<close>, in order\<close>

record Session =
  configuration :: SessionConfiguration
  statistics :: Statistics
  session_failure :: error_code  \<comment> \<open>\<open>failure_\<close>\<close>
  send_buffer :: "u8 list"
  send_throttle :: BandwidthThrottle
  receive_buffer :: "u8 list"
  receive_throttle :: BandwidthThrottle
  is_receive_complete :: bool
  is_send_complete :: bool
  socket :: Socket
  pending :: "operation list"
  timeout_expiry :: int          \<comment> \<open>the expiry time of \<open>timeout_timer_\<close>\<close>
  process :: signal_state
  crashed :: "failure option"
  mismatches :: "(u64 \<times> u8 \<times> u8) list"  \<comment> \<open>the lines on \<open>std::cerr\<close>: position, expected, got\<close>
  universal_time :: int
  steady_time :: int
  ticks_per_second :: int        \<comment> \<open>the resolution of Boost's \<open>time_duration\<close>\<close>
  draws :: "nat \<Rightarrow> u64"         \<comment> \<open>what the random distribution yields next\<close>

abbreviation sent :: "Session \<Rightarrow> u64" where
  "sent s \<equiv> size_value (sent_bytes_count (statistics s))"

abbreviation received :: "Session \<Rightarrow> u64" where
  "received s \<equiv> size_value (received_bytes_count (statistics s))"

abbreviation goal :: "Session \<Rightarrow> u64" where
  "goal s \<equiv> size_value (total_size (configuration s))"

definition BUFFER_SIZE :: u64 where
  "BUFFER_SIZE = push_bit 10 128"

lemma BUFFER_SIZE_value: "BUFFER_SIZE = 131072" "unat BUFFER_SIZE = 131072"
  by (simp_all add: BUFFER_SIZE_def push_bit_eq_mult)

definition new_socket :: Socket where
  "new_socket = \<lparr>closed = False, send_shut_down = False, sent_stream = [], received_stream = []\<rparr>"

section \<open>Small steps shared by the operations\<close>

definition start_op :: "operation \<Rightarrow> Session \<Rightarrow> Session" where
  "start_op op s = s\<lparr>pending := pending s @ [op]\<rparr>"

text \<open>The first crash stays: nothing that the model still computes afterwards takes place.\<close>

definition crash :: "failure \<Rightarrow> Session \<Rightarrow> Session" where
  "crash f s = s\<lparr>crashed := (case crashed s of None \<Rightarrow> Some f | Some g \<Rightarrow> Some g)\<rparr>"

fun cancel_signal :: "operation \<Rightarrow> operation" where
  "cancel_signal (Wait_signal Waiting) = Wait_signal Cancelled"
| "cancel_signal op = op"

fun cancel_timeout :: "operation \<Rightarrow> operation" where
  "cancel_timeout (Wait_timeout Waiting) = Wait_timeout Cancelled"
| "cancel_timeout op = op"

fun cancel_receive_slice :: "operation \<Rightarrow> operation" where
  "cancel_receive_slice (Wait_receive_slice Waiting) = Wait_receive_slice Cancelled"
| "cancel_receive_slice op = op"

fun cancel_send_slice :: "operation \<Rightarrow> operation" where
  "cancel_send_slice (Wait_send_slice Waiting) = Wait_send_slice Cancelled"
| "cancel_send_slice op = op"

text \<open>\<open>receive_throttle_.delay(\<dots>)\<close> and \<open>send_throttle_.delay(\<dots>)\<close>: setting the expiry time cancels waits.\<close>

definition delay_receive :: "Session \<Rightarrow> Session" where
  "delay_receive s =
     start_op (Wait_receive_slice Waiting)
       (s\<lparr>receive_throttle := delay (receive_throttle s),
          pending := map cancel_receive_slice (pending s)\<rparr>)"

definition delay_send :: "Session \<Rightarrow> Session" where
  "delay_send s =
     start_op (Wait_send_slice Waiting)
       (s\<lparr>send_throttle := delay (send_throttle s),
          pending := map cancel_send_slice (pending s)\<rparr>)"

section \<open>Construction and initialisation\<close>

definition make_Session ::
  "(nat \<Rightarrow> u64) \<Rightarrow> int \<Rightarrow> int \<Rightarrow> int \<Rightarrow> SessionConfiguration \<Rightarrow> failure + Session" where
  "make_Session random tps universal steady c =
     and_then (make_throttle steady (size_value (send_bandwidth c)) (bandwidth_sampling_frequency c))
       (\<lambda>send.
     and_then (make_throttle steady (size_value (receive_bandwidth c)) (bandwidth_sampling_frequency c))
       (\<lambda>receive.
     Inr \<lparr>configuration = c, statistics = default_Statistics, session_failure = No_error,
          send_buffer = replicate (unat BUFFER_SIZE) 0, send_throttle = send,
          receive_buffer = replicate (unat BUFFER_SIZE) 0, receive_throttle = receive,
          is_receive_complete = False, is_send_complete = False, socket = new_socket,
          pending = [], timeout_expiry = 0, process = signals_at_start, crashed = None,
          mismatches = [], universal_time = universal, steady_time = steady,
          ticks_per_second = tps, draws = random\<rparr>))"

text \<open>The loop that fills the send buffer with the bytes 0, 1, \<dots>, 255, 0, \<dots>.\<close>

function fill_loop :: "u64 \<Rightarrow> u64 \<Rightarrow> u8 list \<Rightarrow> u8 list" where
  "fill_loop i e buffer =
     (if i \<noteq> e then fill_loop (i + 1) e (buffer[unat i := ucast i]) else buffer)"
  by pat_completeness auto
termination
  by (relation "measure (\<lambda>(i, e, buffer). unat (e - i))") (auto intro: word_loop_decreases)

declare fill_loop.simps [simp del]

definition base_initialize :: "Session \<Rightarrow> Session" where
  "base_initialize s =
     (let s = start_op (Wait_signal Waiting) s
      in s\<lparr>send_buffer := fill_loop 0 (word_of_nat (length (send_buffer s))) (send_buffer s)\<rparr>)"

section \<open>Aborting, and the signal and timeout handlers\<close>

definition abort_with :: "error_code \<Rightarrow> Session \<Rightarrow> Session" where
  "abort_with failure s = s\<lparr>process := request_exit (process s), session_failure := failure\<rparr>"

text \<open>\<open>SIGINT\<close> and \<open>SIGTERM\<close> have the numbers 2 and 15.\<close>

definition on_signal_number :: "error_code \<Rightarrow> int \<Rightarrow> Session \<Rightarrow> Session" where
  "on_signal_number error signal_number s =
     (if is_failure error then s
      else if signal_number = 2 then abort_with (make_error_code user_interrupt) s
      else if signal_number = 15 then abort_with (make_error_code program_termination) s
      else abort_with (make_error_code unknown_signal) s)"

text \<open>
  Boost's \<open>time_duration\<close> counts its ticks in a signed 64-bit integer. The language leaves an
  overflow undefined; the model takes what a machine with two's complement yields, as the
  code is compiled. (Boost reads the three extreme values as its special values; nothing
  below relies on results that far out.)
\<close>

definition to_ticks :: "int \<Rightarrow> int" where
  "to_ticks x = sint (word_of_int x :: u64)"

lemma to_ticks_exact [simp]: "- (2 ^ 63) \<le> x \<Longrightarrow> x < 2 ^ 63 \<Longrightarrow> to_ticks x = x"
  using signed_take_bit_int_eq_self_iff [of 63 x] by (simp add: to_ticks_def signed_of_int)

text \<open>
  \<open>estimate_test_duration\<close>: dividing by a bandwidth of 0 is undefined. Counting the seconds
  wraps at 64 bits, \<open>pt::seconds\<close> takes them as a signed number and turns them into ticks;
  dividing a duration by 10 truncates.
\<close>

definition estimate_test_duration :: "int \<Rightarrow> SessionConfiguration \<Rightarrow> failure + int" where
  "estimate_test_duration tps c =
     (let bandwidth = min (size_value (receive_bandwidth c)) (size_value (send_bandwidth c))
      in if bandwidth = 0 then Inl Undefined_behaviour
         else
           let duration = to_ticks (sint (size_value (total_size c) div bandwidth + 1) * tps);
               margin = (case duration_margin c of Special \<Rightarrow> duration sdiv 10 | Ticks n \<Rightarrow> n)
           in Inr (to_ticks (duration + margin)))"

definition start_timer :: "Session \<Rightarrow> Session" where
  "start_timer s =
     (case estimate_test_duration (ticks_per_second s) (configuration s) of
        Inl f \<Rightarrow> crash f s
      | Inr ticks \<Rightarrow>
          start_op (Wait_timeout Waiting)
            (s\<lparr>timeout_expiry := universal_time s + ticks,
               pending := map cancel_timeout (pending s)\<rparr>))"

definition on_timeout :: "error_code \<Rightarrow> Session \<Rightarrow> Session" where
  "on_timeout failure s =
     (if is_failure failure then s else abort_with (make_error_code test_timeout) s)"

section \<open>Verifying received bytes\<close>

definition verify_byte :: "u64 \<Rightarrow> u8 \<Rightarrow> Session \<Rightarrow> Session" where
  "verify_byte offset expected_byte s =
     (if length (receive_buffer s) \<le> unat offset then crash Undefined_behaviour s
      else
        let actual = receive_buffer s ! unat offset in
        if actual \<noteq> expected_byte
        then abort_with (make_error_code data_mismatch)
               (s\<lparr>mismatches := mismatches s @ [(received s + offset, expected_byte, actual)]\<rparr>)
        else s)"

function verify_loop :: "u64 \<Rightarrow> u64 \<Rightarrow> u8 \<Rightarrow> Session \<Rightarrow> Session" where
  "verify_loop i n expected_byte s =
     (if i \<noteq> n then verify_loop (i + 1) n (expected_byte + 1) (verify_byte i expected_byte s)
      else s)"
  by pat_completeness auto
termination
  by (relation "measure (\<lambda>(i, n, b, s). unat (n - i))") (auto intro: word_loop_decreases)

declare verify_loop.simps [simp del]

definition verify_bytes :: "u64 \<Rightarrow> Session \<Rightarrow> Session" where
  "verify_bytes bytes_transferred s =
     (let expected_byte = ucast (received s) in
      case verify (configuration s) of
        NONE \<Rightarrow> s
      | FIRST \<Rightarrow> verify_byte 0 expected_byte s
      | ALL' \<Rightarrow> verify_loop 0 bytes_transferred expected_byte s)"

section \<open>Receiving\<close>

definition count_received :: "u64 \<Rightarrow> Session \<Rightarrow> Session" where
  "count_received n s =
     s\<lparr>statistics := (statistics s)\<lparr>received_bytes_count :=
         (received_bytes_count (statistics s))\<lparr>size_value := received s + n\<rparr>\<rparr>\<rparr>"

definition on_receive ::
  "(u64 \<Rightarrow> Session \<Rightarrow> Session) \<Rightarrow> (Session \<Rightarrow> Session) \<Rightarrow>
   error_code \<Rightarrow> u64 \<Rightarrow> u64 \<Rightarrow> Session \<Rightarrow> Session" where
  "on_receive async_receive finish_receive failure bytes_transferred slice_remaining_size s =
     (if failure = Operation_aborted then s
      else if failure = Eof then abort_with (make_error_code unexpected_eof) s
      else if is_failure failure then abort_with failure s
      else
        let s = verify_bytes bytes_transferred s;
            s = count_received bytes_transferred s;
            n = slice_remaining_size - bytes_transferred
        in if received s < goal s then async_receive n s else finish_receive s)"

definition base_finish_receive :: "Session \<Rightarrow> Session" where
  "base_finish_receive s =
     s\<lparr>statistics := (statistics s)\<lparr>receive_duration :=
         time_since (universal_time s) (start_date (statistics s))\<rparr>\<rparr>"

definition on_finish :: "(Session \<Rightarrow> Session) \<Rightarrow> Session \<Rightarrow> Session" where
  "on_finish finish s =
     (let s = s\<lparr>pending := map cancel_signal (pending s)\<rparr>;
          s = s\<lparr>pending := map cancel_timeout (pending s)\<rparr>
      in finish s)"

definition on_receive_complete :: "(Session \<Rightarrow> Session) \<Rightarrow> Session \<Rightarrow> Session" where
  "on_receive_complete finish s =
     (let s = s\<lparr>is_receive_complete := True\<rparr>
      in if is_send_complete s then on_finish finish s else s)"

section \<open>Sending\<close>

definition count_sent :: "u64 \<Rightarrow> Session \<Rightarrow> Session" where
  "count_sent n s =
     s\<lparr>statistics := (statistics s)\<lparr>sent_bytes_count :=
         (sent_bytes_count (statistics s))\<lparr>size_value := sent s + n\<rparr>\<rparr>\<rparr>"

definition on_send ::
  "(u64 \<Rightarrow> Session \<Rightarrow> Session) \<Rightarrow> (Session \<Rightarrow> Session) \<Rightarrow>
   error_code \<Rightarrow> u64 \<Rightarrow> u64 \<Rightarrow> Session \<Rightarrow> Session" where
  "on_send async_send finish_send failure bytes_transferred slice_remaining_size s =
     (if failure = Operation_aborted then s
      else if is_failure failure then abort_with failure s
      else
        let s = count_sent bytes_transferred s;
            n = slice_remaining_size - bytes_transferred
        in if sent s < goal s then async_send n s else finish_send s)"

definition base_finish_send :: "Session \<Rightarrow> Session" where
  "base_finish_send s =
     s\<lparr>statistics := (statistics s)\<lparr>send_duration :=
         time_since (universal_time s) (start_date (statistics s))\<rparr>\<rparr>"

definition on_send_complete :: "(Session \<Rightarrow> Session) \<Rightarrow> Session \<Rightarrow> Session" where
  "on_send_complete finish s =
     (let s = s\<lparr>is_send_complete := True\<rparr>
      in if is_receive_complete s then on_finish finish s else s)"

section \<open>Starting a transfer, and its result\<close>

definition start_transfer ::
  "(u64 \<Rightarrow> Session \<Rightarrow> Session) \<Rightarrow> (Session \<Rightarrow> Session) \<Rightarrow>
   (u64 \<Rightarrow> Session \<Rightarrow> Session) \<Rightarrow> (Session \<Rightarrow> Session) \<Rightarrow> Session \<Rightarrow> Session" where
  "start_transfer async_receive finish_receive async_send finish_send s =
     (let s = s\<lparr>statistics := (statistics s)\<lparr>start_date := Some (universal_time s)\<rparr>\<rparr>;
          s = (if direction (configuration s) = TX then finish_receive s
               else async_receive 0 (s\<lparr>receive_throttle := reset (steady_time s) (receive_throttle s)\<rparr>))
      in if direction (configuration s) = RX then finish_send s
         else async_send 0 (s\<lparr>send_throttle := reset (steady_time s) (send_throttle s)\<rparr>))"

definition finalize :: "Session \<Rightarrow> error_code" where
  "finalize s = session_failure s"

end
