(* ===== verification/Data_Claims.thy ===== *)
theory Data_Claims
  imports Sessions
begin

text \<open>
  The properties of the parsers, the printers, the ranges of CPU cores, the throttle, the
  error codes and the time limit of a test.
\<close>

section \<open>Sizes\<close>

text \<open>C24.
  For every matcher that keeps the contract of \<open>boost::regex_match\<close>, \<open>parse_size\<close>, with its
  two expressions and its fall-through switch, returns on every text exactly what the
  reference reading returns: the same value and unit system, the same exception, and
  undefined behaviour exactly for a number that does not fit 63 bits.
\<close>

theorem parse_size_equals_reference:
  assumes "regex_engine regex_match"
  shows "parse_size regex_match s = size_of_text s"
  using assms by (rule regex_engine.parse_size_is_reference)

theorem parse_size_equals_reference_witness:
  "parse_size backtrack_match (show_nat 12 @ ''Gibit'') = Inr \<lparr>size_value = 1610612736, unit_system = IEC\<rparr>"
proof -
  have "map_of unit_table ''Gibit'' = Some (IEC, 3, True)" by code_simp
  moreover have "size_number IEC 3 True 12 = 1610612736"
    by (simp add: size_number_def prefix_factor_def)
  ultimately show ?thesis
    using parse_size_equals_reference [OF backtracking.regex_engine_axioms, of "show_nat 12 @ ''Gibit''"]
      size_of_text_numeral [of "''Gibit''" IEC 3 True 12] by simp
qed

text \<open>
  A decimal number followed by a unit of the table is read as that many bytes, exactly,
  whenever the product with the unit's factor fits 64 bits; bits are divided by eight.
\<close>

theorem parse_size_reads_sizes:
  assumes "regex_engine regex_match" and "map_of unit_table u = Some (us, k, bits)"
    and "n < 2 ^ 63" and "n * (if us = SI then 1000 else 1024) ^ k < 2 ^ 64"
  shows "\<exists>z. parse_size regex_match (show_nat n @ u) = Inr z \<and> unit_system z = us \<and>
    unat (size_value z) = n * (if us = SI then 1000 else 1024) ^ k div (if bits then 8 else 1)"
proof -
  have "unat (prefix_factor us) = (if us = SI then 1000 else 1024)"
    by (simp add: prefix_factor_def)
  then show ?thesis
    using assms unat_size_number [of n us k bits] size_of_text_numeral [OF assms(2,3)]
      regex_engine.parse_size_is_reference [OF assms(1)] by simp
qed

theorem parse_size_reads_sizes_witness:
  "\<exists>z. parse_size backtrack_match (show_nat 8 @ ''kbit'') = Inr z \<and> unat (size_value z) = 1000"
proof -
  have "map_of unit_table ''kbit'' = Some (SI, 1, True)" by code_simp
  from parse_size_reads_sizes [OF backtracking.regex_engine_axioms this, of 8] show ?thesis by auto
qed

text \<open>
  The product is not checked: a size of 16 EiB or a multiple of it is accepted and read
  as no bytes at all.
\<close>

theorem parse_size_wraps:
  assumes "regex_engine regex_match" and "16 dvd n" and "n < 2 ^ 63"
  shows "parse_size regex_match (show_nat n @ ''EiB'') = Inr \<lparr>size_value = 0, unit_system = IEC\<rparr>"
proof -
  have unit: "map_of unit_table ''EiB'' = Some (IEC, 6, False)" by code_simp
  obtain m where n: "n = 16 * m" using assms(2) by (auto elim: dvdE)
  have "2 ^ 64 dvd n * 1024 ^ 6" by (simp add: n)
  then have "(word_of_nat (n * 1024 ^ 6) :: u64) = 0" by (simp only: word_of_nat_eq_0_iff) simp
  then have "word_of_nat n * (1024 :: u64) ^ 6 = 0" by (simp only: of_nat_mult of_nat_power of_nat_numeral)
  then have "size_number IEC 6 False n = 0"
    by (simp add: size_number_def prefix_factor_def)
  with size_of_text_numeral [OF unit assms(3)] show ?thesis
    using regex_engine.parse_size_is_reference [OF assms(1)] by simp
qed

theorem parse_size_wraps_witness:
  "parse_size backtrack_match (show_nat 16 @ ''EiB'') = Inr \<lparr>size_value = 0, unit_system = IEC\<rparr>"
  using parse_size_wraps [OF backtracking.regex_engine_axioms, of 16] by simp

section \<open>Ranges of CPU cores\<close>

text \<open>
  Reading back a printed range gives the range.
\<close>

theorem core_range_roundtrip:
  "\<exists>st. extract_Range extract_core None (istringstream (print_Range print_core (\<noteq>) r)) = Inr (st, r)"
  by (rule cores.range_roundtrip)

text \<open>C27.
  A list of printed ranges separated by commas is read as the list of these ranges.
\<close>

theorem core_ranges_read:
  assumes "rs \<noteq> []"
  shows "\<exists>st. extract_Ranges extract_core None
      (istringstream (join (CHR '','') (map (print_Range print_core (\<noteq>)) rs))) = Inr (st, \<lparr>ranges = rs\<rparr>)"
  using assms by (rule cores.ranges_of_joined_texts)

theorem core_ranges_read_witness:
  "\<exists>st. extract_Ranges extract_core None (istringstream ''0-3,8'') =
     Inr (st, \<lparr>ranges = [\<lparr>range_low = 0, range_high = 3\<rparr>, \<lparr>range_low = 8, range_high = 8\<rparr>]\<rparr>)"
proof -
  let ?rs = "[\<lparr>range_low = 0, range_high = 3\<rparr>, \<lparr>range_low = 8, range_high = 8\<rparr>] :: CpuCoreId Range list"
  have "join (CHR '','') (map (print_Range print_core (\<noteq>)) ?rs) = ''0-3,8''"
    by code_simp
  then show ?thesis using core_ranges_read [of ?rs] by simp
qed

text \<open>
  The printer of a list of ranges does not print what the reader reads: it puts the
  separator before the first range and none between the others, and reading the printed
  text back uses an uninitialised core number.
\<close>

theorem printed_ranges_unreadable:
  "extract_Ranges extract_core None
     (istringstream (print_Ranges print_core (\<noteq>) \<lparr>ranges = r # rs\<rparr>)) = Inl Undefined_behaviour"
proof -
  let ?tail = "print_Range print_core (\<noteq>) r @ print_ranges_loop print_core (\<noteq>) False rs"
  have shown: "print_Ranges print_core (\<noteq>) \<lparr>ranges = r # rs\<rparr> = CHR '','' # CHR '' '' # ?tail"
    by (simp add: print_Ranges_def)
  have first: "snd (extract_string (istringstream (CHR '','' # CHR '' '' # t))) = '',''" for t
    by (simp add: extract_string_def sentry_word is_space_def) (simp add: istringstream_def)
  have "extract_Range extract_core None (istringstream '''') = Inl Undefined_behaviour"
    by (simp add: extract_Range_def read_text_def extract_core_def extract_unsigned_def)
  moreover have "getline_tokens (CHR '','') '','' = ['''']" by (simp add: getline_tokens.simps)
  ultimately show ?thesis
    unfolding extract_Ranges_def shown
    using first [of ?tail] by (cases "extract_string (istringstream (CHR '','' # CHR '' '' # ?tail))") simp
qed

text \<open>
  The sequence of a range counts from its low to its high end, both included, each value
  once, in order.
\<close>

theorem as_sequence_enumerates:
  fixes r :: "CpuCoreId Range"
  assumes "range_low r \<le> range_high r"
  shows "set (as_sequence r) = {range_low r .. range_high r} \<and> distinct (as_sequence r) \<and>
    map unat (as_sequence r) = [unat (range_low r) ..< Suc (unat (range_high r))]"
  using as_sequence_upt [OF assms] as_sequence_set [OF assms] as_sequence_distinct [OF assms] by blast

theorem as_sequence_enumerates_witness:
  "set (as_sequence \<lparr>range_low = 3, range_high = (6 :: CpuCoreId)\<rparr>) = {3 .. 6}"
  using as_sequence_enumerates [of "\<lparr>range_low = 3, range_high = 6\<rparr>"] by simp

text \<open>C28.
  The list of cores contains exactly the cores of the ranges. Its elimination of duplicates
  is that of \<open>std::unique\<close>: no two neighbours are equal, but a core that two ranges share is
  listed twice unless its two occurrences meet.
\<close>

theorem core_list_content:
  assumes "\<forall>r \<in> set (ranges rs). range_low r \<le> range_high r"
  shows "set (to_cpu_core_list rs) = (\<Union>r \<in> set (ranges rs). {range_low r .. range_high r}) \<and>
    (\<forall>i. Suc i < length (to_cpu_core_list rs) \<longrightarrow>
       to_cpu_core_list rs ! i \<noteq> to_cpu_core_list rs ! Suc i)"
proof
  have "set (as_sequence r) = {range_low r .. range_high r}" if "r \<in> set (ranges rs)" for r
    using assms that as_sequence_set by blast
  then show "set (to_cpu_core_list rs) = (\<Union>r \<in> set (ranges rs). {range_low r .. range_high r})"
    by (simp add: to_cpu_core_list_def ranges_sequence_def)
  show "\<forall>i. Suc i < length (to_cpu_core_list rs) \<longrightarrow>
    to_cpu_core_list rs ! i \<noteq> to_cpu_core_list rs ! Suc i"
    by (auto simp: to_cpu_core_list_def ranges_sequence_def remdups_adj_adjacent)
qed

theorem core_list_content_witness:
  "set (to_cpu_core_list \<lparr>ranges = [\<lparr>range_low = 0, range_high = 1\<rparr>, \<lparr>range_low = 0, range_high = 1\<rparr>]\<rparr>) = {0, 1} \<and>
   to_cpu_core_list \<lparr>ranges = [\<lparr>range_low = 0, range_high = 1\<rparr>, \<lparr>range_low = 0, range_high = 1\<rparr>]\<rparr> = [0, 1, 0, 1]"
proof -
  let ?r = "\<lparr>range_low = 0, range_high = 1\<rparr> :: CpuCoreId Range"
  have "{0 .. 1} = {0, 1 :: CpuCoreId}" by (auto simp: word_le_nat_alt word_unat_eq_iff le_Suc_eq)
  moreover have "as_sequence ?r = [0, 1]" by (simp add: as_sequence_eq)
  ultimately show ?thesis
    using core_list_content [of "\<lparr>ranges = [?r, ?r]\<rparr>"]
    by (simp add: to_cpu_core_list_def ranges_sequence_def)
qed

text \<open>
  A range written the wrong way round is not rejected: it stands for the cores from its
  low end up to the largest number and on from 0 to its high end.
\<close>

theorem reversed_range_wraps:
  fixes r :: "CpuCoreId Range"
  assumes "range_high r < range_low r"
  shows "length (as_sequence r) = 2 ^ 32 + 1 + unat (range_high r) - unat (range_low r)"
proof -
  have "unat (range_high r - range_low r) = 2 ^ 32 + unat (range_high r) - unat (range_low r)"
    using assms unat_sub_if_size [of "range_high r" "range_low r"]
    by (auto simp: word_less_nat_alt word_le_nat_alt word_size)
  moreover have "unat (range_low r) < 2 ^ 32" using unsigned_less [of "range_low r"] by simp
  ultimately show ?thesis by (simp add: as_sequence_eq)
qed

theorem reversed_range_wraps_witness:
  "length (as_sequence \<lparr>range_low = 4, range_high = (3 :: CpuCoreId)\<rparr>) = 2 ^ 32"
  using reversed_range_wraps [of "\<lparr>range_low = 4, range_high = 3\<rparr>"] by simp

section \<open>Options with a fixed set of values\<close>

text \<open>C35.
  Each of the four enumerations of the command line is read from exactly the texts that
  its printer produces, and a printed value is read back as itself.
\<close>

theorem enumerations_roundtrip:
  "(\<exists>st. extract_Verify (istringstream (print_Verify a)) = Inr (st, Some a)) \<and>
   (\<exists>st. extract_Direction (istringstream (print_Direction b)) = Inr (st, Some b)) \<and>
   (\<exists>st. extract_ShutdownPolicy (istringstream (print_ShutdownPolicy p)) = Inr (st, Some p)) \<and>
   (\<exists>st. extract_Protocol (istringstream (print_Protocol q)) = Inr (st, Some q)) \<and>
   ((\<exists>x. verify_keyword s = Inr x) \<longleftrightarrow> s \<in> range print_Verify) \<and>
   ((\<exists>x. direction_keyword s = Inr x) \<longleftrightarrow> s \<in> range print_Direction) \<and>
   ((\<exists>x. policy_keyword s = Inr x) \<longleftrightarrow> s \<in> range print_ShutdownPolicy) \<and>
   ((\<exists>x. protocol_keyword s = Inr x) \<longleftrightarrow> s \<in> range print_Protocol)"
  unfolding extract_Verify_def extract_Direction_def extract_ShutdownPolicy_def extract_Protocol_def
  by (intro conjI verify_enum.keyword_read direction_enum.keyword_read policy_enum.keyword_read
      protocol_enum.keyword_read verify_enum.keyword_accepts direction_enum.keyword_accepts
      policy_enum.keyword_accepts protocol_enum.keyword_accepts)

section \<open>The bandwidth throttle\<close>

text \<open>
  The throttle keeps the rate: over any number of waits, the bytes granted up to the time
  of the latest wait are at most one slice more than the time passed allows, for slices of
  \<open>bandwidth div frequency\<close> bytes and \<open>10\<^sup>9 div frequency\<close> nanoseconds.
\<close>

theorem throttle_keeps_rate:
  assumes "make_throttle start bandwidth frequency = Inr t" and "grants t starts bytes u" and "starts \<noteq> []"
  shows "int bytes * uint (1000000000 div frequency) \<le>
    uint (bandwidth div frequency) * (hd starts - start + uint (1000000000 div frequency))"
proof -
  let ?b = "uint (bandwidth div frequency)" and ?d = "uint (1000000000 div frequency)"
  have t: "slice_bytes_count t = bandwidth div frequency" "slice_duration t = ?d" "next_slice_start t = start"
    using assms(1) by (auto simp: make_throttle_Inr)
  note run = grants_invariant [OF assms(2)]
  have "int (length starts) * ?d \<le> hd starts - start + ?d"
    using run assms(3) t by auto
  then have "?b * (int (length starts) * ?d) \<le> ?b * (hd starts - start + ?d)"
    by (rule mult_left_mono) simp
  moreover have "int bytes = int (length starts) * ?b"
    using run t by (simp flip: uint_nat)
  ultimately show ?thesis by (simp add: algebra_simps)
qed

theorem throttle_keeps_rate_witness:
  "int 1000 * uint (1000000000 div 1 :: u64) \<le> uint (1000 div 1 :: u64) * (7 - 5 + uint (1000000000 div 1 :: u64))"
proof -
  let ?t = "\<lparr>expiry = 0, slice_bytes_count = 1000, slice_duration = 1000000000, next_slice_start = 5\<rparr>"
  have "make_throttle 5 1000 1 = Inr ?t" by (simp add: make_throttle_Inr)
  moreover have "grants ?t [7] (unat (1000 :: u64) + 0) (fst (begin_slice (delay ?t)))"
    using grants.slice [OF grants.no_slice [of ?t], of 7 "fst (begin_slice (delay ?t))" 1000]
    by (simp add: begin_slice_def delay_def)
  then have "grants ?t [7] 1000 (fst (begin_slice (delay ?t)))" by simp
  ultimately show ?thesis using throttle_keeps_rate [of 5 1000 1 ?t "[7]" 1000] by simp
qed

text \<open>
  A bandwidth below the sampling frequency is accepted, but its slices are empty: however
  many of them pass, no byte is ever granted.
\<close>

theorem throttle_can_starve:
  assumes "bandwidth < frequency"
  shows "\<exists>t. make_throttle start bandwidth frequency = Inr t \<and>
    (\<forall>starts bytes u. grants t starts bytes u \<longrightarrow> bytes = 0)"
proof -
  have f: "frequency \<noteq> 0" using assms by auto
  have "bandwidth div frequency = 0"
    using assms by (simp add: word_less_nat_alt unat_div word_unat_eq_iff)
  with f show ?thesis
    using grants_invariant by (fastforce simp: make_throttle_Inr)
qed

theorem throttle_can_starve_witness:
  "\<exists>t. make_throttle 0 999 1000 = Inr t \<and> (\<forall>starts bytes u. grants t starts bytes u \<longrightarrow> bytes = 0)"
  by (rule throttle_can_starve) simp

section \<open>Errors and signals\<close>

text \<open>
  The program's error codes are failures, all but \<open>success\<close>, and no two of them have the
  same number or the same message; a number that is none of theirs has a message of its
  own.
\<close>

theorem error_messages_distinct:
  "(is_failure (make_error_code e) \<longleftrightarrow> e \<noteq> success) \<and>
   (error_number e = error_number e' \<longrightarrow> e = e') \<and>
   (message (error_number e) = message (error_number e') \<longrightarrow> e = e') \<and>
   message (error_number e) \<noteq> ''Unknown error'' \<and>
   (n \<notin> range error_number \<longleftrightarrow> message n = ''Unknown error'')"
proof -
  have "message n = ''Unknown error''" if "n \<notin> range error_number"
  proof -
    have "n \<noteq> error_number e" for e using that by auto
    then show ?thesis by (simp add: message_def del: error_number.simps)
  qed
  moreover have "message (error_number e) \<noteq> ''Unknown error''" for e
    by (cases e) (simp_all add: message_def)
  ultimately have unknown: "n \<notin> range error_number \<longleftrightarrow> message n = ''Unknown error''" by auto
  show ?thesis
    unfolding unknown by (cases e; cases e') (simp_all add: message_def make_error_code_def)
qed

theorem error_messages_distinct_witness:
  "message (error_number data_mismatch) = ''Data mismatch'' \<and> message 9 = ''Unknown error''"
proof -
  have "9 \<notin> range error_number"
  proof
    assume "9 \<in> range error_number"
    then obtain e where "error_number e = 9" by auto
    then show False by (cases e) simp_all
  qed
  then have "message 9 = ''Unknown error''" using error_messages_distinct [of success success 9] by blast
  then show ?thesis by (simp add: message_def)
qed

text \<open>
  The first signal asks the process to exit, the second one aborts it, and only a signal
  that comes after a request to exit does so.
\<close>

theorem second_signal_aborts:
  "is_exit_requested (on_signal s) \<and>
   (aborted (on_signal s) \<longleftrightarrow> aborted s \<or> is_exit_requested s) \<and>
   aborted (on_signal (on_signal s)) \<and> \<not> aborted (on_signal signals_at_start)"
  by (simp add: on_signal_def request_exit_def is_exit_requested_def signals_at_start_def)

end
