(* ===== verification/Tcp_Session.thy ===== *)
theory Tcp_Session
  imports Sessions
begin

text \<open>
  \<open>src/TcpSession.hpp\<close>, \<open>src/TcpSession.cpp\<close> and the operations of
  \<open>src/TcpSocket.cpp\<close> that they call.
\<close>

section \<open>The socket\<close>

text \<open>Failures of \<open>shutdown\<close> and \<open>close\<close> are ignored by the source.\<close>

definition shutdown_send :: "Session \<Rightarrow> Session" where
  "shutdown_send s = s\<lparr>socket := (socket s)\<lparr>send_shut_down := True\<rparr>\<rparr>"

text \<open>Closing a socket cancels the operations that wait on it.\<close>

fun cancel_io :: "operation \<Rightarrow> operation" where
  "cancel_io (Receive Waiting left n) = Receive Cancelled left n"
| "cancel_io (Receive_eof Waiting) = Receive_eof Cancelled"
| "cancel_io (Send Waiting left offset n) = Send Cancelled left offset n"
| "cancel_io (Connect Waiting) = Connect Cancelled"
| "cancel_io op = op"

definition close_socket :: "Session \<Rightarrow> Session" where
  "close_socket s =
     s\<lparr>socket := (socket s)\<lparr>closed := True\<rparr>, pending := map cancel_io (pending s)\<rparr>"

text \<open>
  \<open>async_receive\<close> and \<open>async_send\<close> pass the buffer and the handler on to Asio's socket: the
  operation that they start says which buffer and which handler.
\<close>

definition tcp_socket_async_receive :: "operation \<Rightarrow> Session \<Rightarrow> Session" where
  "tcp_socket_async_receive operation s = start_op operation s"

definition tcp_socket_async_send :: "operation \<Rightarrow> Session \<Rightarrow> Session" where
  "tcp_socket_async_send operation s = start_op operation s"

declare tcp_socket_async_receive_def [simp] tcp_socket_async_send_def [simp]

section \<open>Construction\<close>

text \<open>The socket and the handlers' memories have no state of their own to set up.\<close>

definition make_TcpSession ::
  "(nat \<Rightarrow> u64) \<Rightarrow> int \<Rightarrow> int \<Rightarrow> int \<Rightarrow> SessionConfiguration \<Rightarrow> failure + Session" where
  "make_TcpSession random tps universal steady c = make_Session random tps universal steady c"

section \<open>The virtual functions\<close>

definition tcp_finish :: "Session \<Rightarrow> Session" where
  "tcp_finish s = close_socket s"

definition tcp_async_receive :: "u64 \<Rightarrow> Session \<Rightarrow> Session" where
  "tcp_async_receive slice_remaining_size s =
     (if slice_remaining_size = 0 then delay_receive s
      else tcp_socket_async_receive (Receive Waiting slice_remaining_size
                      (min (word_of_nat (length (receive_buffer s))) slice_remaining_size)) s)"

definition tcp_finish_receive :: "Session \<Rightarrow> Session" where
  "tcp_finish_receive s =
     (let s = base_finish_receive s;
          s = (if shutdown_policy (configuration s) = RECEIVE_COMPLETE then shutdown_send s else s)
      in tcp_socket_async_receive (Receive_eof Waiting) s)"

definition tcp_on_eof :: "error_code \<Rightarrow> u64 \<Rightarrow> Session \<Rightarrow> Session" where
  "tcp_on_eof failure bytes_transferred s =
     (let s = (if shutdown_policy (configuration s) = WAIT_FOR_PEER then shutdown_send s else s)
      in if failure = Eof then on_receive_complete tcp_finish s
         else if is_failure failure then abort_with failure s
         else abort_with (make_error_code unexpected_data) s)"

definition tcp_async_send :: "u64 \<Rightarrow> Session \<Rightarrow> Session" where
  "tcp_async_send slice_remaining_size s =
     (if slice_remaining_size = 0 then delay_send s
      else
        let remaining_size = goal s - sent s;
            slice_remaining_size = min slice_remaining_size remaining_size;
            offset = ucast (ucast (sent s) :: u8);
            n = min slice_remaining_size (BUFFER_SIZE - offset)
        in tcp_socket_async_send (Send Waiting slice_remaining_size offset n) s)"

definition tcp_finish_send :: "Session \<Rightarrow> Session" where
  "tcp_finish_send s =
     (let s = base_finish_send s;
          s = (if shutdown_policy (configuration s) = SEND_COMPLETE then shutdown_send s else s)
      in on_send_complete tcp_finish s)"

definition tcp_start_transfer :: "Session \<Rightarrow> Session" where
  "tcp_start_transfer =
     start_transfer tcp_async_receive tcp_finish_receive tcp_async_send tcp_finish_send"

text \<open>
  \<open>initialize\<close>: the base class's part, the socket's \<open>open\<close> (which connects or accepts
  asynchronously) and the posted start of the timer.
\<close>

definition tcp_initialize :: "Session \<Rightarrow> Session" where
  "tcp_initialize s =
     start_op (Posted Completed) (start_op (Connect Waiting) (base_initialize s))"

end
