(* ===== verification/Udp_Session.thy ===== *)
theory Udp_Session
  imports Tcp_Session
begin

text \<open>
  \<open>src/UdpSession.hpp\<close>, \<open>src/UdpSession.cpp\<close> and the operations of
  \<open>src/UdpSocket.hpp\<close> and \<open>src/UdpSocket.cpp\<close> that they call.
\<close>

section \<open>The socket\<close>

text \<open>
  \<open>async_receive\<close> discards the address of the sender, \<open>async_send\<close> sends to the address that
  \<open>udp_connect\<close> found. Closing is the same operation of the system as for TCP.
\<close>

definition udp_socket_async_receive :: "operation \<Rightarrow> Session \<Rightarrow> Session" where
  "udp_socket_async_receive operation s = start_op operation s"

definition udp_socket_async_send :: "operation \<Rightarrow> Session \<Rightarrow> Session" where
  "udp_socket_async_send operation s = start_op operation s"

definition udp_close :: "Session \<Rightarrow> Session" where
  "udp_close s = close_socket s"

declare udp_socket_async_receive_def [simp] udp_socket_async_send_def [simp] udp_close_def [simp]

section \<open>Construction\<close>

text \<open>
  The constructor of the member \<open>socket_\<close> refuses the server mode. The random distribution
  and its generator are the numbers \<open>random\<close>.
\<close>

definition make_UdpSession ::
  "(nat \<Rightarrow> u64) \<Rightarrow> int \<Rightarrow> int \<Rightarrow> int \<Rightarrow> SessionConfiguration \<Rightarrow> failure + Session" where
  "make_UdpSession random tps universal steady c =
     and_then (make_Session random tps universal steady c) (\<lambda>s.
       if mode c \<noteq> CLIENT then Inl (Runtime_error ''Udp supports client mode only'') else Inr s)"

section \<open>The virtual functions\<close>

definition udp_finish :: "Session \<Rightarrow> Session" where
  "udp_finish s = udp_close s"

definition udp_async_receive :: "u64 \<Rightarrow> Session \<Rightarrow> Session" where
  "udp_async_receive slice_remaining_size s =
     (if slice_remaining_size = 0 then delay_receive s
      else udp_socket_async_receive (Receive Waiting slice_remaining_size
                      (min (word_of_nat (length (receive_buffer s))) slice_remaining_size)) s)"

definition udp_finish_receive :: "Session \<Rightarrow> Session" where
  "udp_finish_receive s = on_receive_complete udp_finish (base_finish_receive s)"

text \<open>The distribution is asked only when its bounds differ.\<close>

definition get_max_datagram_size :: "Session \<Rightarrow> u64 \<times> Session" where
  "get_max_datagram_size s =
     (let a = size_value (range_low (packet_size (configuration s)));
          b = size_value (range_high (packet_size (configuration s)))
      in if a = b then (a, s) else (draws s 0, s\<lparr>draws := \<lambda>i. draws s (Suc i)\<rparr>))"

definition udp_async_send :: "u64 \<Rightarrow> Session \<Rightarrow> Session" where
  "udp_async_send slice_remaining_size s =
     (if slice_remaining_size = 0 then delay_send s
      else
        let remaining_size = goal s - sent s;
            slice_remaining_size = min slice_remaining_size remaining_size;
            offset = ucast (ucast (sent s) :: u8);
            (max_size, s) = get_max_datagram_size s;
            datagram_size = min slice_remaining_size max_size
        in if datagram_size \<le> BUFFER_SIZE - offset
           then udp_socket_async_send (Send Waiting slice_remaining_size offset datagram_size) s
           else crash Assertion_failed s)"

definition udp_finish_send :: "Session \<Rightarrow> Session" where
  "udp_finish_send s = on_send_complete udp_finish (base_finish_send s)"

definition udp_start_transfer :: "Session \<Rightarrow> Session" where
  "udp_start_transfer =
     start_transfer udp_async_receive udp_finish_receive udp_async_send udp_finish_send"

definition udp_initialize :: "Session \<Rightarrow> Session" where
  "udp_initialize s = start_op (Posted Completed) (base_initialize s)"

end
