(* ===== verification/Session_Steps.thy ===== *)
theory Session_Steps
  imports Udp_Session
begin

text \<open>
  What runs when an asynchronous operation of a session ends: the handlers that the
  operations were started with, the table of virtual functions of the two subclasses, and
  the step relation of a session. A step is a turn of a clock, the end of a waiting
  operation, or the run of one handler by \<open>io_service::poll_one\<close>.
\<close>

section \<open>The table of virtual functions\<close>

record virtuals =
  async_receive :: "u64 \<Rightarrow> Session \<Rightarrow> Session"
  finish_receive :: "Session \<Rightarrow> Session"
  async_send :: "u64 \<Rightarrow> Session \<Rightarrow> Session"
  finish_send :: "Session \<Rightarrow> Session"
  on_eof :: "error_code \<Rightarrow> u64 \<Rightarrow> Session \<Rightarrow> Session"
  posted :: "Session \<Rightarrow> Session"  \<comment> \<open>the function posted by \<open>initialize\<close>\<close>
  connected :: "Session \<Rightarrow> Session"  \<comment> \<open>the function given to \<open>TcpSocket::open\<close>\<close>

definition tcp_virtuals :: virtuals where
  "tcp_virtuals =
     \<lparr>async_receive = tcp_async_receive, finish_receive = tcp_finish_receive,
      async_send = tcp_async_send, finish_send = tcp_finish_send,
      on_eof = tcp_on_eof, posted = start_timer, connected = tcp_start_transfer\<rparr>"

text \<open>A UDP session never starts an operation of the last two kinds.\<close>

definition udp_virtuals :: virtuals where
  "udp_virtuals =
     \<lparr>async_receive = udp_async_receive, finish_receive = udp_finish_receive,
      async_send = udp_async_send, finish_send = udp_finish_send,
      on_eof = \<lambda>_ _ s. s, posted = \<lambda>s. udp_start_transfer (start_timer s), connected = \<lambda>s. s\<rparr>"

definition virtuals_of :: "Protocol \<Rightarrow> virtuals" where
  "virtuals_of p = (if p = TCP then tcp_virtuals else udp_virtuals)"

text \<open>\<open>_create_session\<close> and \<open>create_session\<close> of \<open>src/Application.cpp\<close>.\<close>

definition initialize :: "Protocol \<Rightarrow> Session \<Rightarrow> Session" where
  "initialize p = (if p = TCP then tcp_initialize else udp_initialize)"

definition construct_session ::
  "(nat \<Rightarrow> u64) \<Rightarrow> int \<Rightarrow> int \<Rightarrow> int \<Rightarrow> SessionConfiguration \<Rightarrow> failure + Session" where
  "construct_session random tps universal steady c =
     (if protocol c = TCP then make_TcpSession random tps universal steady c
      else make_UdpSession random tps universal steady c)"

definition create_session ::
  "(nat \<Rightarrow> u64) \<Rightarrow> int \<Rightarrow> int \<Rightarrow> int \<Rightarrow> SessionConfiguration \<Rightarrow> failure + Session" where
  "create_session random tps universal steady c =
     and_then (construct_session random tps universal steady c)
       (\<lambda>s. Inr (initialize (protocol c) s))"

lemma create_session_unfold:
  "create_session random tps universal steady c =
     and_then (make_Session random tps universal steady c) (\<lambda>s.
       if protocol c \<noteq> TCP \<and> mode c \<noteq> CLIENT
       then Inl (Runtime_error ''Udp supports client mode only'')
       else Inr (initialize (protocol c) s))"
  by (auto simp: create_session_def construct_session_def make_TcpSession_def make_UdpSession_def and_then_assoc
      intro!: arg_cong [of _ _ "and_then _"])

section \<open>Handlers\<close>

text \<open>What the operating system reports with the end of an operation.\<close>

datatype event =
    Done error_code
  | Signalled error_code int
  | Got error_code "u8 list"  \<comment> \<open>the bytes that were written to the buffer\<close>
  | Wrote error_code u64      \<comment> \<open>how many bytes were taken from the buffer\<close>

definition store_received :: "u8 list \<Rightarrow> Session \<Rightarrow> Session" where
  "store_received data s = s\<lparr>receive_buffer := data @ drop (length data) (receive_buffer s)\<rparr>"

definition log_received :: "u8 list \<Rightarrow> Session \<Rightarrow> Session" where
  "log_received data s =
     s\<lparr>socket := (socket s)\<lparr>received_stream := received_stream (socket s) @ data\<rparr>\<rparr>"

definition log_sent :: "u64 \<Rightarrow> u64 \<Rightarrow> Session \<Rightarrow> Session" where
  "log_sent offset n s =
     s\<lparr>socket := (socket s)\<lparr>sent_stream :=
         sent_stream (socket s) @ take (unat n) (drop (unat offset) (send_buffer s))\<rparr>\<rparr>"

text \<open>The handler that \<open>BandwidthThrottle::delay\<close> gives to its timer, around the function \<open>f\<close>.\<close>

definition on_receive_slice :: "(u64 \<Rightarrow> Session \<Rightarrow> Session) \<Rightarrow> error_code \<Rightarrow> Session \<Rightarrow> Session" where
  "on_receive_slice f failure s =
     (if is_failure failure then s
      else case begin_slice (receive_throttle s) of (t, n) \<Rightarrow> f n (s\<lparr>receive_throttle := t\<rparr>))"

definition on_send_slice :: "(u64 \<Rightarrow> Session \<Rightarrow> Session) \<Rightarrow> error_code \<Rightarrow> Session \<Rightarrow> Session" where
  "on_send_slice f failure s =
     (if is_failure failure then s
      else case begin_slice (send_throttle s) of (t, n) \<Rightarrow> f n (s\<lparr>send_throttle := t\<rparr>))"

text \<open>An event of the wrong kind for its operation does not occur, see \<open>allowed\<close>.\<close>

fun handle :: "virtuals \<Rightarrow> operation \<Rightarrow> event \<Rightarrow> Session \<Rightarrow> Session" where
  "handle v (Wait_signal p) (Signalled e n) s = on_signal_number e n s"
| "handle v (Wait_timeout p) (Done e) s = on_timeout e s"
| "handle v (Wait_receive_slice p) (Done e) s = on_receive_slice (async_receive v) e s"
| "handle v (Wait_send_slice p) (Done e) s = on_send_slice (async_send v) e s"
| "handle v (Receive p left n) (Got e data) s =
     on_receive (async_receive v) (finish_receive v) e (word_of_nat (length data)) left
       (log_received data (store_received data s))"
| "handle v (Receive_eof p) (Got e data) s = on_eof v e (word_of_nat (length data)) (store_received data s)"
| "handle v (Send p left offset n) (Wrote e k) s =
     on_send (async_send v) (finish_send v) e k left (log_sent offset k s)"
| "handle v (Connect p) (Done e) s = connected v s"
| "handle v (Posted p) (Done e) s = posted v s"
| "handle v _ _ s = s"

section \<open>What the operating system may report\<close>

fun progress_of :: "operation \<Rightarrow> progress" where
  "progress_of (Wait_signal p) = p"
| "progress_of (Wait_timeout p) = p"
| "progress_of (Wait_receive_slice p) = p"
| "progress_of (Wait_send_slice p) = p"
| "progress_of (Receive p left n) = p"
| "progress_of (Receive_eof p) = p"
| "progress_of (Send p left offset n) = p"
| "progress_of (Connect p) = p"
| "progress_of (Posted p) = p"

fun completed :: "operation \<Rightarrow> operation" where
  "completed (Wait_signal p) = Wait_signal Completed"
| "completed (Wait_timeout p) = Wait_timeout Completed"
| "completed (Wait_receive_slice p) = Wait_receive_slice Completed"
| "completed (Wait_send_slice p) = Wait_send_slice Completed"
| "completed (Receive p left n) = Receive Completed left n"
| "completed (Receive_eof p) = Receive_eof Completed"
| "completed (Send p left offset n) = Send Completed left offset n"
| "completed (Connect p) = Connect Completed"
| "completed (Posted p) = Posted Completed"

text \<open>A timer does not end before its expiry time.\<close>

fun may_complete :: "Session \<Rightarrow> operation \<Rightarrow> bool" where
  "may_complete s (Wait_timeout p) \<longleftrightarrow> timeout_expiry s \<le> universal_time s"
| "may_complete s (Wait_receive_slice p) \<longleftrightarrow> expiry (receive_throttle s) \<le> steady_time s"
| "may_complete s (Wait_send_slice p) \<longleftrightarrow> expiry (send_throttle s) \<le> steady_time s"
| "may_complete s op \<longleftrightarrow> True"

text \<open>
  Asio's contract: a cancelled operation reports \<open>operation_aborted\<close> and moves no bytes, no
  other one reports that code; timers and posted functions that were not cancelled report
  success; no transfer goes beyond its buffer, a failed one moves nothing, a stream moves
  at least one byte if asked for any, and a datagram is sent as a whole.
\<close>

fun event_error :: "event \<Rightarrow> error_code" where
  "event_error (Done e) = e"
| "event_error (Signalled e n) = e"
| "event_error (Got e data) = e"
| "event_error (Wrote e k) = e"

fun event_moved :: "event \<Rightarrow> nat" where
  "event_moved (Got e data) = length data"
| "event_moved (Wrote e k) = unat k"
| "event_moved _ = 0"

fun event_fits :: "Protocol \<Rightarrow> operation \<Rightarrow> event \<Rightarrow> bool" where
  "event_fits pr (Wait_signal p) (Signalled e n) \<longleftrightarrow> p = Completed \<longrightarrow> \<not> is_failure e"
| "event_fits pr (Wait_timeout p) (Done e) \<longleftrightarrow> p = Completed \<longrightarrow> \<not> is_failure e"
| "event_fits pr (Wait_receive_slice p) (Done e) \<longleftrightarrow> p = Completed \<longrightarrow> \<not> is_failure e"
| "event_fits pr (Wait_send_slice p) (Done e) \<longleftrightarrow> p = Completed \<longrightarrow> \<not> is_failure e"
| "event_fits pr (Receive p left n) (Got e data) \<longleftrightarrow>
     length data \<le> unat n \<and> (\<not> is_failure e \<and> pr = TCP \<longrightarrow> data \<noteq> [])"
| "event_fits pr (Receive_eof p) (Got e data) \<longleftrightarrow>
     length data \<le> 1 \<and> (\<not> is_failure e \<longrightarrow> data \<noteq> [])"
| "event_fits pr (Send p left offset n) (Wrote e k) \<longleftrightarrow>
     k \<le> n \<and> (\<not> is_failure e \<longrightarrow> (if pr = TCP then n \<noteq> 0 \<longrightarrow> k \<noteq> 0 else k = n))"
| "event_fits pr (Connect p) (Done e) \<longleftrightarrow> True"
| "event_fits pr (Posted p) (Done e) \<longleftrightarrow> \<not> is_failure e"
| "event_fits pr _ _ \<longleftrightarrow> False"

definition allowed :: "Protocol \<Rightarrow> operation \<Rightarrow> event \<Rightarrow> bool" where
  "allowed pr op ev \<longleftrightarrow>
     event_fits pr op ev \<and> progress_of op \<noteq> Waiting \<and>
     (progress_of op = Cancelled \<longleftrightarrow> event_error ev = Operation_aborted) \<and>
     (is_failure (event_error ev) \<longrightarrow> event_moved ev = 0)"

section \<open>Steps\<close>

definition remove_nth :: "nat \<Rightarrow> 'a list \<Rightarrow> 'a list" where
  "remove_nth i xs = take i xs @ drop (Suc i) xs"

definition run_handler :: "nat \<Rightarrow> event \<Rightarrow> Session \<Rightarrow> Session" where
  "run_handler i ev s =
     handle (virtuals_of (protocol (configuration s))) (pending s ! i) ev
       (s\<lparr>pending := remove_nth i (pending s)\<rparr>)"

definition end_wait :: "nat \<Rightarrow> Session \<Rightarrow> Session" where
  "end_wait i s = s\<lparr>pending := (pending s)[i := completed (pending s ! i)]\<rparr>"

text \<open>
  The universal clock may be set at any time, the steady clock does not go back: with the
  ends of waits and the handlers these are a session's own steps. Other sessions and the
  signal handler may ask the process to exit at any time. The handlers of operations that
  were ready when it was asked can still run, so the relation lets them.
\<close>

inductive own_step :: "Session \<Rightarrow> Session \<Rightarrow> bool" where
  clock: "steady_time s \<le> t \<Longrightarrow> own_step s (s\<lparr>universal_time := u, steady_time := t\<rparr>)"
| wait_ends: "crashed s = None \<Longrightarrow> i < length (pending s) \<Longrightarrow> progress_of (pending s ! i) = Waiting \<Longrightarrow>
    may_complete s (pending s ! i) \<Longrightarrow> own_step s (end_wait i s)"
| handler: "crashed s = None \<Longrightarrow> i < length (pending s) \<Longrightarrow>
    allowed (protocol (configuration s)) (pending s ! i) ev \<Longrightarrow> own_step s (run_handler i ev s)"

inductive step :: "Session \<Rightarrow> Session \<Rightarrow> bool" where
  own: "own_step s s' \<Longrightarrow> step s s'"
| exit_asked: "step s (s\<lparr>process := request_exit (process s)\<rparr>)"

abbreviation steps :: "Session \<Rightarrow> Session \<Rightarrow> bool" where
  "steps \<equiv> step\<^sup>*\<^sup>*"

text \<open>The documented contract of \<open>std::uniform_int_distribution\<close>: draws lie between its bounds.\<close>

definition draws_ok :: "SessionConfiguration \<Rightarrow> (nat \<Rightarrow> u64) \<Rightarrow> bool" where
  "draws_ok c random \<longleftrightarrow>
     (\<forall>i. size_value (range_low (packet_size c)) \<le> random i \<and>
          random i \<le> size_value (range_high (packet_size c)))"

text \<open>The sessions that the application can come to.\<close>

definition reachable :: "SessionConfiguration \<Rightarrow> Session \<Rightarrow> bool" where
  "reachable c s \<longleftrightarrow>
     (\<exists>random tps universal steady s0. draws_ok c random \<and>
        create_session random tps universal steady c = Inr s0 \<and> steps s0 s)"

text \<open>
  The run loop \<open>Thread::run\<close> goes on until exit is requested or no work is left.
\<close>

definition loop_ended :: "Session \<Rightarrow> bool" where
  "loop_ended s \<longleftrightarrow> is_exit_requested (process s) \<or> pending s = []"

section \<open>Running a schedule\<close>

text \<open>
  The step relation as a function: what happens is chosen by a list of actions, and an
  action that is not possible ends in \<open>None\<close>.
\<close>

datatype action =
    Clock int int        \<comment> \<open>the new readings of the universal and the steady clock\<close>
  | Ask_exit
  | End nat              \<comment> \<open>the operation at this position completes\<close>
  | Run nat event        \<comment> \<open>the handler of the operation at this position runs\<close>

fun perform :: "action \<Rightarrow> Session \<Rightarrow> Session option" where
  "perform (Clock u t) s =
     (if steady_time s \<le> t then Some (s\<lparr>universal_time := u, steady_time := t\<rparr>) else None)"
| "perform Ask_exit s = Some (s\<lparr>process := request_exit (process s)\<rparr>)"
| "perform (End i) s =
     (if crashed s = None \<and> i < length (pending s) \<and> progress_of (pending s ! i) = Waiting \<and>
         may_complete s (pending s ! i)
      then Some (end_wait i s) else None)"
| "perform (Run i ev) s =
     (if crashed s = None \<and> i < length (pending s) \<and>
         allowed (protocol (configuration s)) (pending s ! i) ev
      then Some (run_handler i ev s) else None)"

fun performs :: "action list \<Rightarrow> Session \<Rightarrow> Session option" where
  "performs [] s = Some s"
| "performs (a # as) s = (case perform a s of None \<Rightarrow> None | Some s' \<Rightarrow> performs as s')"

lemma step_iff_perform: "step s s' \<longleftrightarrow> (\<exists>a. perform a s = Some s')"
proof
  assume "step s s'"
  then show "\<exists>a. perform a s = Some s'"
  proof cases
    case own
    then show ?thesis
    proof cases
      case (clock t u)
      then show ?thesis by (auto intro: exI [of _ "Clock u t"])
    next
      case (wait_ends i)
      then show ?thesis by (auto intro: exI [of _ "End i"])
    next
      case (handler i ev)
      then show ?thesis by (auto intro: exI [of _ "Run i ev"])
    qed
  next
    case exit_asked
    then show ?thesis by (auto intro: exI [of _ Ask_exit])
  qed
next
  assume "\<exists>a. perform a s = Some s'"
  then obtain a where "perform a s = Some s'" ..
  then show "step s s'" by (cases a) (auto split: if_splits intro: step.intros own_step.intros)
qed

lemma performs_steps: "performs as s = Some s' \<Longrightarrow> steps s s'"
proof (induction as s rule: performs.induct)
  case (2 a as s)
  then obtain t where t: "perform a s = Some t" "performs as t = Some s'"
    by (auto split: option.splits)
  then have "step s t" using step_iff_perform by blast
  moreover have "steps t s'" using 2(1) t by simp
  ultimately show ?case by (rule converse_rtranclp_into_rtranclp)
qed simp

end
