(* ===== verification/Stream_Content.thy ===== *)
theory Stream_Content
  imports Session_Steps
begin

text \<open>
  What the bytes of a transfer must be: the byte at position \<open>p\<close> of a stream is \<open>p\<close>
  modulo 256. The loops of \<open>src/Session.cpp\<close> that write and check such bytes are related
  to this specification here: the filled send buffer, the part of it that a send takes, and
  the list of positions at which received bytes differ.
\<close>

section \<open>The specification\<close>

definition ramp :: "nat \<Rightarrow> nat \<Rightarrow> u8 list" where
  "ramp p n = map word_of_nat [p..<p + n]"

lemma ramp_0 [simp]: "ramp p 0 = []"
  by (simp add: ramp_def)

lemma length_ramp [simp]: "length (ramp p n) = n"
  by (simp add: ramp_def)

lemma ramp_append: "ramp p m @ ramp (p + m) n = ramp p (m + n)"
  using upt_add_eq_append [of p "p + m" n] by (simp add: ramp_def add.assoc)

lemma nth_ramp [simp]: "i < n \<Longrightarrow> ramp p n ! i = word_of_nat (p + i)"
  by (simp add: ramp_def)

lemma take_drop_ramp: "i + n \<le> m \<Longrightarrow> take n (drop i (ramp p m)) = ramp (p + i) n"
  by (simp add: ramp_def drop_map take_map)

text \<open>The bytes repeat after 256 positions.\<close>

lemma ramp_mod: "ramp (p mod 256) n = ramp p n"
proof (rule nth_equalityI)
  fix i assume "i < length (ramp (p mod 256) n)"
  moreover have "(word_of_nat (p mod 256 + i) :: u8) = word_of_nat (p + i)"
    by (simp add: word_of_nat_eq_iff take_bit_eq_mod mod_simps)
  ultimately show "ramp (p mod 256) n ! i = ramp p n ! i" by simp
qed simp

fun mismatches_from :: "u64 \<Rightarrow> u8 list \<Rightarrow> (u64 \<times> u8 \<times> u8) list" where
  "mismatches_from p [] = []"
| "mismatches_from p (b # bs) =
     (if b \<noteq> ucast p then [(p, ucast p, b)] else []) @ mismatches_from (p + 1) bs"

lemma mismatches_from_append:
  "mismatches_from p (xs @ ys) = mismatches_from p xs @ mismatches_from (p + word_of_nat (length xs)) ys"
  by (induction xs arbitrary: p) (simp_all add: algebra_simps)

lemma mismatches_from_snoc:
  "mismatches_from p (xs @ [b]) = mismatches_from p xs @
     (if b \<noteq> ucast (p + word_of_nat (length xs))
      then [(p + word_of_nat (length xs), ucast (p + word_of_nat (length xs)), b)] else [])"
  by (simp add: mismatches_from_append)

lemma set_mismatches_take: "set (mismatches_from p (take n bs)) \<subseteq> set (mismatches_from p bs)"
  using mismatches_from_append [of p "take n bs" "drop n bs"] by simp

text \<open>The log holds exactly the positions that differ.\<close>

lemma mismatches_from_iff:
  "(q, x, y) \<in> set (mismatches_from p bs) \<longleftrightarrow>
   (\<exists>i < length bs. q = p + word_of_nat i \<and> x = ucast q \<and> y = bs ! i \<and> x \<noteq> y)"
proof (induction bs arbitrary: p)
  case (Cons b bs)
  have "(q, x, y) \<in> set (mismatches_from (p + 1) bs) \<longleftrightarrow>
    (\<exists>i < length bs. q = p + word_of_nat (Suc i) \<and> x = ucast q \<and> y = bs ! i \<and> x \<noteq> y)"
    unfolding Cons by (simp add: add.assoc)
  then show ?case by (auto simp: Ex_less_Suc2)
qed simp

lemma ucast_word_of_nat_u8: "(ucast (word_of_nat n :: u64) :: u8) = word_of_nat n"
  by transfer simp

lemma ucast_plus_u8: "(ucast (x + y :: u64) :: u8) = ucast x + ucast y"
  by transfer (auto simp: take_bit_eq_mod mod_mod_cancel intro!: mod_add_cong)

lemma mismatches_from_Nil_iff:
  "mismatches_from (word_of_nat p) bs = [] \<longleftrightarrow> bs = ramp p (length bs)"
proof (induction bs arbitrary: p)
  case (Cons b bs)
  have "mismatches_from (word_of_nat p + 1) bs = mismatches_from (word_of_nat (Suc p)) bs"
    by (simp add: add.commute)
  moreover have "ramp p (Suc n) = word_of_nat p # ramp (Suc p) n" for n
    using ramp_append [of p 1 n] by (simp add: ramp_def)
  ultimately show ?case
    using Cons [of "Suc p"] by (auto simp: ucast_word_of_nat_u8)
qed simp

section \<open>The filled send buffer\<close>

lemma fill_loop_spec:
  "unat e \<le> length buffer \<Longrightarrow> i \<le> e \<Longrightarrow> take (unat i) buffer = ramp 0 (unat i) \<Longrightarrow>
   take (unat e) (fill_loop i e buffer) = ramp 0 (unat e) \<and>
   length (fill_loop i e buffer) = length buffer"
proof (induction i e buffer rule: fill_loop.induct)
  case (1 i e buffer)
  show ?case
  proof (cases "i = e")
    case True
    with 1 show ?thesis by (simp add: fill_loop.simps [of e e])
  next
    case False
    with 1 have lt: "i < e" by simp
    then have nat_lt: "unat i < unat e" by (simp add: word_less_nat_alt)
    then have next_i: "unat (i + 1) = Suc (unat i)" by (rule unat_next_below)
    with nat_lt have le: "i + 1 \<le> e" by (simp add: word_le_nat_alt)
    let ?b = "buffer[unat i := ucast i]"
    have "take (unat (i + 1)) ?b = take (unat i) buffer @ [ucast i]"
      using nat_lt 1 by (simp add: next_i take_Suc_conv_app_nth)
    also have "\<dots> = ramp 0 (unat (i + 1))"
      using 1 ucast_word_of_nat_u8 [of "unat i"] ramp_append [of 0 "unat i" 1]
      by (simp add: next_i ramp_def)
    finally have "take (unat (i + 1)) ?b = ramp 0 (unat (i + 1))" .
    with 1 False le show ?thesis by (simp add: fill_loop.simps [of i e])
  qed
qed

lemma fill_loop_ramp:
  assumes "unat e = length buffer"
  shows "fill_loop 0 e buffer = ramp 0 (length buffer)"
  using fill_loop_spec [of e buffer 0] assms
  by (metis (no_types) length_ramp order_refl ramp_0 take_0 take_all unsigned_0 word_zero_le)

section \<open>The verification loop\<close>

text \<open>What a list of mismatches does to a session: it is logged, and the session is aborted.\<close>

definition report :: "(u64 \<times> u8 \<times> u8) list \<Rightarrow> Session \<Rightarrow> Session" where
  "report ms s =
     (if ms = [] then s
      else abort_with (make_error_code data_mismatch) (s\<lparr>mismatches := mismatches s @ ms\<rparr>))"

lemma report_Nil [simp]: "report [] s = s"
  by (simp add: report_def)

lemma report_report: "report ms' (report ms s) = report (ms @ ms') s"
  by (cases "ms = []"; cases "ms' = []")
    (simp_all add: report_def abort_with_def request_exit_def)

lemma report_simps [simp]:
  "configuration (report ms s) = configuration s"
  "statistics (report ms s) = statistics s"
  "receive_buffer (report ms s) = receive_buffer s"
  "send_buffer (report ms s) = send_buffer s"
  "pending (report ms s) = pending s"
  "crashed (report ms s) = crashed s"
  "socket (report ms s) = socket s"
  "mismatches (report ms s) = mismatches s @ ms"
  "draws (report ms s) = draws s"
  "is_receive_complete (report ms s) = is_receive_complete s"
  "is_send_complete (report ms s) = is_send_complete s"
  "receive_throttle (report ms s) = receive_throttle s"
  "send_throttle (report ms s) = send_throttle s"
  "steady_time (report ms s) = steady_time s"
  "universal_time (report ms s) = universal_time s"
  by (simp_all add: report_def abort_with_def)

lemma report_failure [simp]:
  "session_failure (report ms s) =
     (if ms = [] then session_failure s else Tester_error data_mismatch)"
  "process (report ms s) = (if ms = [] then process s else request_exit (process s))"
  by (simp_all add: report_def abort_with_def make_error_code_def)

lemma verify_byte_report:
  assumes "unat offset < length (receive_buffer s)"
    and "expected = ucast (received s + offset)"
  shows "verify_byte offset expected s =
    report (mismatches_from (received s + offset) [receive_buffer s ! unat offset]) s"
  using assms by (auto simp: verify_byte_def report_def Let_def)

lemma verify_loop_report:
  "i \<le> n \<Longrightarrow> unat n \<le> length (receive_buffer s) \<Longrightarrow> expected = ucast (received s + i) \<Longrightarrow>
   verify_loop i n expected s =
   report (mismatches_from (received s + i) (drop (unat i) (take (unat n) (receive_buffer s)))) s"
proof (induction i n expected s rule: verify_loop.induct)
  case (1 i n expected s)
  show ?case
  proof (cases "i = n")
    case True
    then show ?thesis using 1 by (simp add: verify_loop.simps [of n n])
  next
    case False
    let ?bytes = "take (unat n) (receive_buffer s)"
    from 1 False have nat_lt: "unat i < unat n" by (simp add: word_le_nat_alt order_le_less word_unat_eq_iff)
    then have next_i: "unat (i + 1) = Suc (unat i)" by (rule unat_next_below)
    with nat_lt have le: "i + 1 \<le> n" by (simp add: word_le_nat_alt)
    define s' where "s' = verify_byte i expected s"
    have s': "s' = report (mismatches_from (received s + i) [receive_buffer s ! unat i]) s"
      unfolding s'_def using 1 nat_lt by (intro verify_byte_report) simp_all
    have expected: "expected + 1 = ucast (received s' + (i + 1))"
      using 1 ucast_plus_u8 [of "received s + i" 1] by (simp add: s' add.assoc)
    have "verify_loop i n expected s = verify_loop (i + 1) n (expected + 1) s'"
      using False by (simp add: verify_loop.simps [of i n] s'_def)
    also have "\<dots> = report (mismatches_from (received s' + (i + 1))
        (drop (unat (i + 1)) (take (unat n) (receive_buffer s')))) s'"
      using 1(1) [OF False le] 1(3) expected unfolding s'_def [symmetric] by (simp add: s')
    also have "\<dots> = report (mismatches_from (received s + i) (receive_buffer s ! unat i # drop (Suc (unat i)) ?bytes)) s"
      by (simp add: s' report_report next_i add.assoc)
    also have "receive_buffer s ! unat i # drop (Suc (unat i)) ?bytes = drop (unat i) ?bytes"
      using nat_lt 1 by (subst Cons_nth_drop_Suc [symmetric]) simp_all
    finally show ?thesis .
  qed
qed

lemma verify_bytes_report:
  assumes "unat n \<le> length (receive_buffer s)" and "0 < length (receive_buffer s)"
  shows "verify_bytes n s =
    report (case verify (configuration s) of
        NONE \<Rightarrow> []
      | FIRST \<Rightarrow> mismatches_from (received s) (take 1 (receive_buffer s))
      | ALL' \<Rightarrow> mismatches_from (received s) (take (unat n) (receive_buffer s))) s"
  using assms verify_loop_report [of 0 n s] verify_byte_report [of 0 s]
  by (cases "verify (configuration s)"; cases "receive_buffer s") (simp_all add: verify_bytes_def)

end
