(* ===== verification/Session_Invariants.thy ===== *)
theory Session_Invariants
  imports Stream_Content
begin

text \<open>
  The invariant of a session and what it asks of the virtual functions. A session has two
  lanes, receiving and sending; each has at most one operation under way, or is complete,
  or has stopped because the session failed. The contract of the virtual functions is the
  locale \<open>session_class\<close>, with the two subclasses as its interpretations. Inside the
  locale, the handlers of the base class are shown to keep the invariant.
\<close>

section \<open>Configurations that the theorems are about\<close>

definition valid_configuration :: "SessionConfiguration \<Rightarrow> bool" where
  "valid_configuration c \<longleftrightarrow>
     size_value (total_size c) \<noteq> 0 \<and> unat (size_value (total_size c)) + 131072 \<le> 2 ^ 64 \<and>
     bandwidth_sampling_frequency c \<noteq> 0 \<and>
     size_value (send_bandwidth c) \<noteq> 0 \<and> size_value (receive_bandwidth c) \<noteq> 0 \<and>
     \<not> (direction c = TX \<and> shutdown_policy c = RECEIVE_COMPLETE) \<and>
     \<not> (direction c = RX \<and> shutdown_policy c = SEND_COMPLETE) \<and>
     (protocol c = UDP \<longrightarrow>
        0 < size_value (range_low (packet_size c)) \<and>
        size_value (range_low (packet_size c)) \<le> size_value (range_high (packet_size c)) \<and>
        unat (size_value (range_high (packet_size c))) \<le> 131072 - 255)"

section \<open>Lanes\<close>

fun is_rx :: "operation \<Rightarrow> bool" where
  "is_rx (Wait_receive_slice p) \<longleftrightarrow> True"
| "is_rx (Receive p left n) \<longleftrightarrow> True"
| "is_rx (Receive_eof p) \<longleftrightarrow> True"
| "is_rx _ \<longleftrightarrow> False"

fun is_tx :: "operation \<Rightarrow> bool" where
  "is_tx (Wait_send_slice p) \<longleftrightarrow> True"
| "is_tx (Send p left offset n) \<longleftrightarrow> True"
| "is_tx _ \<longleftrightarrow> False"

text \<open>The operation whose handler starts the transfer.\<close>

fun starts :: "Protocol \<Rightarrow> operation \<Rightarrow> bool" where
  "starts TCP (Connect p) \<longleftrightarrow> True"
| "starts UDP (Posted p) \<longleftrightarrow> True"
| "starts _ _ \<longleftrightarrow> False"

definition rx_ops :: "Session \<Rightarrow> operation list" where
  "rx_ops s = filter is_rx (pending s)"

definition tx_ops :: "Session \<Rightarrow> operation list" where
  "tx_ops s = filter is_tx (pending s)"

definition start_ops :: "Session \<Rightarrow> operation list" where
  "start_ops s = filter (starts (protocol (configuration s))) (pending s)"

lemmas lanes = rx_ops_def tx_ops_def start_ops_def

lemma is_rx_iff: "is_rx op \<longleftrightarrow> (\<exists>p. op = Wait_receive_slice p \<or> (\<exists>l n. op = Receive p l n) \<or> op = Receive_eof p)"
  by (cases op) auto

lemma is_tx_iff: "is_tx op \<longleftrightarrow> (\<exists>p. op = Wait_send_slice p \<or> (\<exists>l off n. op = Send p l off n))"
  by (cases op) auto

lemma starts_iff: "starts pr op \<longleftrightarrow> (\<exists>p. pr = TCP \<and> op = Connect p \<or> pr = UDP \<and> op = Posted p)"
  by (cases pr; cases op) auto

lemma lanes_disjoint:
  "is_rx op \<Longrightarrow> \<not> is_tx op" "is_rx op \<Longrightarrow> \<not> starts pr op"
  "is_tx op \<Longrightarrow> \<not> is_rx op" "is_tx op \<Longrightarrow> \<not> starts pr op"
  "starts pr op \<Longrightarrow> \<not> is_rx op" "starts pr op \<Longrightarrow> \<not> is_tx op"
  by (auto simp: is_rx_iff is_tx_iff starts_iff)

text \<open>Cancelling keeps every operation in its lane, and leaves the other lanes alone.\<close>

lemma filter_map_lane: "(\<And>op. P (f op) = P op) \<Longrightarrow> filter P (map f ops) = map f (filter P ops)"
  by (simp add: filter_map comp_def)

lemma filter_map_other_lane:
  "(\<And>op. P (f op) = P op) \<Longrightarrow> (\<And>op. P op \<Longrightarrow> f op = op) \<Longrightarrow> filter P (map f ops) = filter P ops"
  by (induction ops) auto

lemma cancel_signal_lanes [simp]:
  "filter is_rx (map cancel_signal ops) = filter is_rx ops"
  "filter is_tx (map cancel_signal ops) = filter is_tx ops"
  "filter (starts pr) (map cancel_signal ops) = filter (starts pr) ops"
  by (rule filter_map_other_lane; case_tac op rule: cancel_signal.cases; simp add: starts_iff)+

lemma cancel_timeout_lanes [simp]:
  "filter is_rx (map cancel_timeout ops) = filter is_rx ops"
  "filter is_tx (map cancel_timeout ops) = filter is_tx ops"
  "filter (starts pr) (map cancel_timeout ops) = filter (starts pr) ops"
  by (rule filter_map_other_lane; case_tac op rule: cancel_timeout.cases; simp add: starts_iff)+

lemma cancel_receive_slice_lanes [simp]:
  "filter is_tx (map cancel_receive_slice ops) = filter is_tx ops"
  "filter (starts pr) (map cancel_receive_slice ops) = filter (starts pr) ops"
  "filter is_rx (map cancel_receive_slice ops) = map cancel_receive_slice (filter is_rx ops)"
  by (rule filter_map_other_lane filter_map_lane;
      case_tac op rule: cancel_receive_slice.cases; simp add: starts_iff)+

lemma cancel_send_slice_lanes [simp]:
  "filter is_rx (map cancel_send_slice ops) = filter is_rx ops"
  "filter (starts pr) (map cancel_send_slice ops) = filter (starts pr) ops"
  "filter is_tx (map cancel_send_slice ops) = map cancel_send_slice (filter is_tx ops)"
  by (rule filter_map_other_lane filter_map_lane;
      case_tac op rule: cancel_send_slice.cases; simp add: starts_iff)+

lemma cancel_io_lanes [simp]:
  "filter is_rx (map cancel_io ops) = map cancel_io (filter is_rx ops)"
  "filter is_tx (map cancel_io ops) = map cancel_io (filter is_tx ops)"
  "filter (starts pr) (map cancel_io ops) = map cancel_io (filter (starts pr) ops)"
  by (rule filter_map_lane; case_tac op rule: cancel_io.cases; simp add: starts_iff)+

section \<open>The invariant\<close>

definition receive_goal :: "Session \<Rightarrow> bool" where
  "receive_goal s \<longleftrightarrow> direction (configuration s) = TX \<or> goal s \<le> received s"

definition send_goal :: "Session \<Rightarrow> bool" where
  "send_goal s \<longleftrightarrow> direction (configuration s) = RX \<or> sent s = goal s"

text \<open>The streams: what was sent is the ramp, what was received is counted and, if asked, checked.\<close>

definition streams_ok :: "Session \<Rightarrow> bool" where
  "streams_ok s \<longleftrightarrow>
     sent_stream (socket s) = ramp 0 (unat (sent s)) \<and> sent s \<le> goal s \<and>
     length (received_stream (socket s)) = unat (received s) \<and>
     unat (received s) < unat (goal s) + 131072 \<and>
     (verify (configuration s) = ALL' \<longrightarrow> mismatches s = mismatches_from 0 (received_stream (socket s))) \<and>
     (verify (configuration s) = NONE \<longrightarrow> mismatches s = []) \<and>
     (protocol (configuration s) = TCP \<longrightarrow>
        set (mismatches s) \<subseteq> set (mismatches_from 0 (received_stream (socket s))))"

text \<open>A failure that was recorded stays one, and it has stopped the process.\<close>

definition failure_ok :: "Session \<Rightarrow> bool" where
  "failure_ok s \<longleftrightarrow>
     (session_failure s = No_error \<or> is_failure (session_failure s)) \<and>
     session_failure s \<noteq> Operation_aborted \<and>
     (is_failure (session_failure s) \<longrightarrow> exit_requested (process s)) \<and>
     (mismatches s \<noteq> [] \<longrightarrow> is_failure (session_failure s))"

text \<open>The socket is closed when both lanes are complete; sending is shut down when the policy says so.\<close>

definition closing_ok :: "Session \<Rightarrow> bool" where
  "closing_ok s \<longleftrightarrow>
     (closed (socket s) \<longleftrightarrow> is_receive_complete s \<and> is_send_complete s) \<and>
     (send_shut_down (socket s) \<longrightarrow>
        (shutdown_policy (configuration s) = SEND_COMPLETE \<longrightarrow> is_send_complete s) \<and>
        (shutdown_policy (configuration s) \<noteq> SEND_COMPLETE \<longrightarrow> receive_goal s))"

definition base_ok :: "Session \<Rightarrow> bool" where
  "base_ok s \<longleftrightarrow>
     valid_configuration (configuration s) \<and> draws_ok (configuration s) (draws s) \<and>
     crashed s = None \<and> send_buffer s = ramp 0 131072 \<and> length (receive_buffer s) = 131072 \<and>
     streams_ok s \<and> failure_ok s \<and> closing_ok s"

definition rx_op_ok :: "Session \<Rightarrow> operation \<Rightarrow> bool" where
  "rx_op_ok s op \<longleftrightarrow>
     (case op of
        Wait_receive_slice p \<Rightarrow>
          p \<noteq> Cancelled \<and> received s < goal s \<and> direction (configuration s) \<noteq> TX
      | Receive p left n \<Rightarrow>
          p \<noteq> Cancelled \<and> received s < goal s \<and> direction (configuration s) \<noteq> TX \<and>
          left \<noteq> 0 \<and> n = min BUFFER_SIZE left
      | Receive_eof p \<Rightarrow> p \<noteq> Cancelled \<and> receive_goal s \<and> protocol (configuration s) = TCP
      | _ \<Rightarrow> False)"

definition tx_op_ok :: "Session \<Rightarrow> operation \<Rightarrow> bool" where
  "tx_op_ok s op \<longleftrightarrow>
     sent s < goal s \<and> direction (configuration s) \<noteq> RX \<and>
     (case op of
        Wait_send_slice p \<Rightarrow> p \<noteq> Cancelled
      | Send p left offset n \<Rightarrow>
          p \<noteq> Cancelled \<and> offset = ucast (ucast (sent s) :: u8) \<and> n \<noteq> 0 \<and> n \<le> left \<and>
          left \<le> goal s - sent s \<and> n \<le> BUFFER_SIZE - offset
      | _ \<Rightarrow> False)"

definition rx_lane_ok :: "Session \<Rightarrow> bool" where
  "rx_lane_ok s \<longleftrightarrow>
     (case rx_ops s of
        [] \<Rightarrow> if is_receive_complete s then receive_goal s else is_failure (session_failure s)
      | op # ops \<Rightarrow> ops = [] \<and> \<not> is_receive_complete s \<and> rx_op_ok s op)"

definition tx_lane_ok :: "Session \<Rightarrow> bool" where
  "tx_lane_ok s \<longleftrightarrow>
     (case tx_ops s of
        [] \<Rightarrow> if is_send_complete s then send_goal s else is_failure (session_failure s)
      | op # ops \<Rightarrow> ops = [] \<and> \<not> is_send_complete s \<and> tx_op_ok s op)"

text \<open>Before the transfer starts, nothing has moved.\<close>

definition fresh :: "Session \<Rightarrow> bool" where
  "fresh s \<longleftrightarrow> rx_ops s = [] \<and> tx_ops s = [] \<and> length (start_ops s) = 1 \<and>
     received s = 0 \<and> sent s = 0 \<and> \<not> is_receive_complete s \<and> \<not> is_send_complete s"

definition session_inv :: "Session \<Rightarrow> bool" where
  "session_inv s \<longleftrightarrow> base_ok s \<and> (if start_ops s = [] then rx_lane_ok s \<and> tx_lane_ok s else fresh s)"

section \<open>Turns of a lane\<close>

text \<open>
  \<open>own_exit\<close>: a session asks the process to exit only when it has failed itself, and stays failed.
  \<open>rx_turn\<close>: a handler of the receive lane runs, its operation has left the lane. \<open>rx_done\<close>
  relates the state before and after: the lane is in order again, the other one untouched.
\<close>

definition rx_turn :: "Protocol \<Rightarrow> Session \<Rightarrow> bool" where
  "rx_turn pr s \<longleftrightarrow> base_ok s \<and> protocol (configuration s) = pr \<and> start_ops s = [] \<and> rx_ops s = [] \<and>
     \<not> is_receive_complete s \<and> (is_send_complete s \<longrightarrow> tx_ops s = [])"

definition tx_turn :: "Protocol \<Rightarrow> Session \<Rightarrow> bool" where
  "tx_turn pr s \<longleftrightarrow> base_ok s \<and> protocol (configuration s) = pr \<and> start_ops s = [] \<and> tx_ops s = [] \<and>
     \<not> is_send_complete s \<and> (is_receive_complete s \<longrightarrow> rx_ops s = [])"

definition own_exit :: "Session \<Rightarrow> Session \<Rightarrow> bool" where
  "own_exit s s' \<longleftrightarrow>
     (exit_requested (process s') \<longrightarrow> exit_requested (process s) \<or> is_failure (session_failure s')) \<and>
     (is_failure (session_failure s) \<longrightarrow> is_failure (session_failure s'))"

definition rx_frame :: "Session \<Rightarrow> Session \<Rightarrow> bool" where
  "rx_frame s s' \<longleftrightarrow>
     tx_ops s' = tx_ops s \<and> sent s' = sent s \<and> is_send_complete s' = is_send_complete s \<and>
     send_throttle s' = send_throttle s \<and> steady_time s' = steady_time s \<and>
     configuration s' = configuration s \<and> own_exit s s'"

definition tx_frame :: "Session \<Rightarrow> Session \<Rightarrow> bool" where
  "tx_frame s s' \<longleftrightarrow>
     rx_ops s' = rx_ops s \<and> received s' = received s \<and> is_receive_complete s' = is_receive_complete s \<and>
     receive_throttle s' = receive_throttle s \<and> steady_time s' = steady_time s \<and>
     configuration s' = configuration s \<and> own_exit s s'"

definition rx_done :: "Session \<Rightarrow> Session \<Rightarrow> bool" where
  "rx_done s s' \<longleftrightarrow> base_ok s' \<and> rx_lane_ok s' \<and> start_ops s' = [] \<and> rx_frame s s'"

definition tx_done :: "Session \<Rightarrow> Session \<Rightarrow> bool" where
  "tx_done s s' \<longleftrightarrow> base_ok s' \<and> tx_lane_ok s' \<and> start_ops s' = [] \<and> tx_frame s s'"

lemmas done_defs = rx_done_def tx_done_def rx_frame_def tx_frame_def own_exit_def

lemma rx_done_after: "rx_frame s s' \<Longrightarrow> rx_done s' s'' \<Longrightarrow> rx_done s s''"
  by (auto simp: done_defs)

lemma tx_done_after: "tx_frame s s' \<Longrightarrow> tx_done s' s'' \<Longrightarrow> tx_done s s''"
  by (auto simp: done_defs)

lemma rx_op_ok_cong:
  "received s' = received s \<Longrightarrow> configuration s' = configuration s \<Longrightarrow> rx_op_ok s' op = rx_op_ok s op"
  by (cases op) (simp_all add: rx_op_ok_def receive_goal_def)

lemma tx_op_ok_cong:
  "sent s' = sent s \<Longrightarrow> configuration s' = configuration s \<Longrightarrow> tx_op_ok s' op = tx_op_ok s op"
  by (cases op) (simp_all add: tx_op_ok_def)

lemma rx_done_tx_lane: "rx_done s s' \<Longrightarrow> tx_lane_ok s \<Longrightarrow> tx_lane_ok s'"
  by (auto simp: done_defs tx_lane_ok_def send_goal_def tx_op_ok_cong [of s' s] split: list.splits)

lemma tx_done_rx_lane: "tx_done s s' \<Longrightarrow> rx_lane_ok s \<Longrightarrow> rx_lane_ok s'"
  by (auto simp: done_defs rx_lane_ok_def receive_goal_def rx_op_ok_cong [of s' s] split: list.splits)

lemmas base_unfolds = base_ok_def streams_ok_def failure_ok_def closing_ok_def receive_goal_def

lemma delay_receive_done:
  assumes "rx_turn pr s" and "received s < goal s" and "direction (configuration s) \<noteq> TX"
  shows "rx_done s (delay_receive s)"
  using assms
  by (auto simp: rx_turn_def done_defs delay_receive_def start_op_def base_unfolds lanes
      rx_lane_ok_def rx_op_ok_def)

lemma start_receive_done:
  assumes "rx_turn pr s" and "received s < goal s" and "direction (configuration s) \<noteq> TX" and "left \<noteq> 0"
  shows "rx_done s (start_op (Receive Waiting left (min BUFFER_SIZE left)) s)"
  using assms
  by (auto simp: rx_turn_def done_defs start_op_def base_unfolds lanes rx_lane_ok_def rx_op_ok_def)

lemma delay_send_done:
  assumes "tx_turn pr s" and "sent s < goal s" and "direction (configuration s) \<noteq> RX"
  shows "tx_done s (delay_send s)"
  using assms
  by (auto simp: tx_turn_def done_defs delay_send_def start_op_def base_unfolds lanes
      tx_lane_ok_def tx_op_ok_def)

lemma abort_rx_done:
  "rx_turn pr s \<Longrightarrow> is_failure f \<Longrightarrow> f \<noteq> Operation_aborted \<Longrightarrow> rx_done s (abort_with f s)"
  by (auto simp: rx_turn_def done_defs abort_with_def request_exit_def base_unfolds lanes rx_lane_ok_def)

lemma abort_tx_done:
  "tx_turn pr s \<Longrightarrow> is_failure f \<Longrightarrow> f \<noteq> Operation_aborted \<Longrightarrow> tx_done s (abort_with f s)"
  by (auto simp: tx_turn_def done_defs abort_with_def request_exit_def base_unfolds lanes tx_lane_ok_def)

text \<open>Both lanes complete: the socket is closed.\<close>

lemma on_receive_complete_done:
  "rx_turn pr s \<Longrightarrow> receive_goal s \<Longrightarrow> rx_done s (on_receive_complete close_socket s)"
  by (cases "is_send_complete s")
    (clarsimp simp: rx_turn_def done_defs on_receive_complete_def on_finish_def close_socket_def Let_def
      base_unfolds lanes rx_lane_ok_def simp del: map_map)+

lemma on_send_complete_done:
  "tx_turn pr s \<Longrightarrow> send_goal s \<Longrightarrow> tx_done s (on_send_complete close_socket s)"
  by (cases "is_receive_complete s")
    (clarsimp simp: tx_turn_def done_defs on_send_complete_def on_finish_def close_socket_def Let_def
      base_unfolds lanes tx_lane_ok_def send_goal_def simp del: map_map)+

text \<open>Arithmetic of a received chunk.\<close>

lemma received_no_wrap:
  assumes "base_ok s" and "received s < goal s" and "k \<le> 131072"
  shows "unat (received s + word_of_nat k) = unat (received s) + k"
proof -
  have "unat (goal s) + 131072 \<le> 2 ^ 64" using assms by (simp add: base_ok_def valid_configuration_def)
  moreover have "unat (received s) < unat (goal s)" using assms by (simp add: word_less_nat_alt)
  moreover have "unat (word_of_nat k :: u64) = k" using assms by (simp add: unat_of_nat)
  ultimately show ?thesis using assms unat_plus_no_wrap [of "received s" "word_of_nat k"] by simp
qed

lemma received_simps [simp]:
  "configuration (log_received data (store_received data s)) = configuration s"
  "statistics (log_received data (store_received data s)) = statistics s"
  "receive_buffer (log_received data (store_received data s)) =
     data @ drop (length data) (receive_buffer s)"
  by (simp_all add: log_received_def store_received_def)

definition chunk_received :: "u8 list \<Rightarrow> Session \<Rightarrow> Session" where
  "chunk_received data s =
     count_received (word_of_nat (length data))
       (verify_bytes (word_of_nat (length data)) (log_received data (store_received data s)))"

lemma chunk_received_turn:
  assumes turn: "rx_turn pr s" and lt: "received s < goal s" and dir: "direction (configuration s) \<noteq> TX"
    and len: "length data \<le> 131072" and tcp: "pr = TCP \<Longrightarrow> data \<noteq> []"
  shows "rx_turn pr (chunk_received data s)" and "rx_frame s (chunk_received data s)"
proof -
  let ?n = "word_of_nat (length data) :: u64"
  let ?s1 = "log_received data (store_received data s)"
  have base: "base_ok s" using turn by (simp add: rx_turn_def)
  have n: "unat ?n = length data" using len by (simp add: unat_of_nat)
  have long: "length (receive_buffer ?s1) = 131072"
    using base len by (simp add: base_ok_def)
  obtain ms where checked: "verify_bytes ?n ?s1 = report ms ?s1"
    and none: "verify (configuration s) = NONE \<Longrightarrow> ms = []"
    and all: "verify (configuration s) = ALL' \<Longrightarrow> ms = mismatches_from (received s) data"
    and some: "data \<noteq> [] \<Longrightarrow> set ms \<subseteq> set (mismatches_from (received s) data)"
    using verify_bytes_report [of ?n ?s1, unfolded long, simplified] n len
      set_mismatches_take [of "received s" 1 data]
    by (cases "verify (configuration s)"; cases data) auto
  have eq: "chunk_received data s = count_received ?n (report ms ?s1)"
    by (simp add: chunk_received_def checked)
  note wrap = received_no_wrap [OF base lt len]
  have received: "unat (received s) < unat (goal s)" using lt by (simp add: word_less_nat_alt)
  show "rx_frame s (chunk_received data s)"
    by (auto simp: eq rx_frame_def own_exit_def lanes count_received_def log_received_def
        store_received_def)
  have "streams_ok (chunk_received data s)"
    using base none all wrap received len some tcp turn
    by (auto simp: eq rx_turn_def base_ok_def streams_ok_def count_received_def
        log_received_def store_received_def mismatches_from_append)
  then show "rx_turn pr (chunk_received data s)"
    using turn long dir lt
    by (auto simp: eq rx_turn_def base_ok_def lanes count_received_def
        log_received_def store_received_def failure_ok_def closing_ok_def receive_goal_def request_exit_def)
qed

text \<open>Arithmetic of a sent chunk, which starts in the buffer where the count stands modulo 256.\<close>

definition chunk_sent :: "u64 \<Rightarrow> u64 \<Rightarrow> Session \<Rightarrow> Session" where
  "chunk_sent offset k s = count_sent k (log_sent offset k s)"

lemma low_byte_offset: "unat (ucast (ucast n :: u8) :: u64) = unat (n :: u64) mod 256"
  by (simp add: unsigned_ucast_eq take_bit_eq_mod mod_mod_cancel unat_mod)

lemma sent_chunk_content:
  assumes "unat offset = unat n mod 256" and "unat offset + unat k \<le> 131072"
  shows "ramp 0 (unat n) @ take (unat k) (drop (unat offset) (ramp 0 131072)) =
    ramp 0 (unat n + unat k)"
proof -
  have "take (unat k) (drop (unat offset) (ramp 0 131072)) = ramp (unat n) (unat k)"
    using assms take_drop_ramp [of "unat offset" "unat k" 131072 0] ramp_mod [of "unat n" "unat k"]
    by simp
  then show ?thesis using ramp_append [of 0 "unat n" "unat k"] by simp
qed

lemma offset_room:
  assumes "offset = (ucast (ucast (n :: u64) :: u8) :: u64)"
  shows "unat offset = unat n mod 256" and "unat offset \<le> 255"
    and "unat (BUFFER_SIZE - offset) = 131072 - unat offset"
proof -
  show 1: "unat offset = unat n mod 256" using assms by (simp only: low_byte_offset)
  then show 2: "unat offset \<le> 255" by simp
  then have "offset \<le> BUFFER_SIZE" by (simp add: word_le_nat_alt BUFFER_SIZE_value)
  then show "unat (BUFFER_SIZE - offset) = 131072 - unat offset"
    by (simp add: unat_minus_le BUFFER_SIZE_value)
qed

lemma chunk_sent_turn:
  assumes turn: "tx_turn pr s" and op: "tx_op_ok s (Send p left offset n)" and k: "k \<le> n"
  shows "tx_turn pr (chunk_sent offset k s)" and "tx_frame s (chunk_sent offset k s)"
    and "k \<le> left"
    and "unat (sent (chunk_sent offset k s)) = unat (sent s) + unat k"
proof -
  have base: "base_ok s" using turn by (simp add: tx_turn_def)
  have offset: "offset = ucast (ucast (sent s) :: u8)" and room: "n \<le> BUFFER_SIZE - offset"
    and left: "n \<le> left" "left \<le> goal s - sent s" and lt: "sent s < goal s"
    using op by (auto simp: tx_op_ok_def)
  note off = offset_room [OF offset]
  from k left show "k \<le> left" by simp
  with left have "k \<le> goal s - sent s" by simp
  then have k_goal: "unat (sent s) + unat k \<le> unat (goal s)"
    using lt by (simp add: word_le_nat_alt word_less_nat_alt unat_minus_le)
  moreover have "unat (goal s) < 2 ^ 64" using unsigned_less [of "goal s"] by simp
  ultimately have sum: "unat (sent s + k) = unat (sent s) + unat k"
    using unat_plus_no_wrap [of "sent s" k] by simp
  have "unat k \<le> 131072 - unat offset" using k room off by (simp add: word_le_nat_alt)
  then have fits: "unat offset + unat k \<le> 131072" using off by linarith
  note content = sent_chunk_content [OF off(1) fits]
  show "unat (sent (chunk_sent offset k s)) = unat (sent s) + unat k"
    using sum by (simp add: chunk_sent_def count_sent_def log_sent_def)
  show "tx_frame s (chunk_sent offset k s)"
    by (auto simp: chunk_sent_def count_sent_def log_sent_def tx_frame_def own_exit_def lanes)
  have "streams_ok (chunk_sent offset k s)"
    using base sum content k_goal
    by (auto simp: chunk_sent_def base_ok_def streams_ok_def count_sent_def log_sent_def word_le_nat_alt)
  then show "tx_turn pr (chunk_sent offset k s)"
    using turn
    by (auto simp: tx_turn_def base_ok_def chunk_sent_def lanes count_sent_def log_sent_def
        failure_ok_def closing_ok_def receive_goal_def)
qed

section \<open>The contract of the virtual functions\<close>

locale session_class =
  fixes v :: virtuals and pr :: Protocol
  assumes async_receive_done:
    "rx_turn pr s \<Longrightarrow> received s < goal s \<Longrightarrow> direction (configuration s) \<noteq> TX \<Longrightarrow>
     rx_done s (async_receive v n s)"
  and finish_receive_done: "rx_turn pr s \<Longrightarrow> receive_goal s \<Longrightarrow> rx_done s (finish_receive v s)"
  and async_send_done:
    "tx_turn pr s \<Longrightarrow> sent s < goal s \<Longrightarrow> direction (configuration s) \<noteq> RX \<Longrightarrow>
     tx_done s (async_send v n s)"
  and finish_send_done: "tx_turn pr s \<Longrightarrow> send_goal s \<Longrightarrow> tx_done s (finish_send v s)"
  and on_eof_done:
    "pr = TCP \<Longrightarrow> rx_turn pr s \<Longrightarrow> receive_goal s \<Longrightarrow> e \<noteq> Operation_aborted \<Longrightarrow> rx_done s (on_eof v e n s)"
begin

lemma on_receive_done:
  assumes turn: "rx_turn pr s" and op: "rx_op_ok s (Receive p left n)"
    and len: "length data \<le> unat n" and e: "e \<noteq> Operation_aborted" "is_failure e \<Longrightarrow> data = []"
    and tcp: "pr = TCP \<Longrightarrow> \<not> is_failure e \<Longrightarrow> data \<noteq> []"
  shows "rx_done s (on_receive (async_receive v) (finish_receive v) e (word_of_nat (length data)) left
    (log_received data (store_received data s)))"
proof (cases "is_failure e")
  case True
  then have "log_received data (store_received data s) = s"
    using e by (simp add: log_received_def store_received_def)
  with True e turn show ?thesis
    by (auto simp: on_receive_def make_error_code_def intro!: abort_rx_done)
next
  case False
  let ?s = "chunk_received data s" and ?left = "left - word_of_nat (length data)"
  have chunk: "rx_turn pr ?s" "rx_frame s ?s"
    using op len chunk_received_turn [OF turn, of data] tcp False
    by (auto simp: rx_op_ok_def word_nat BUFFER_SIZE_value)
  have e': "e \<noteq> Eof" "e \<noteq> Operation_aborted" using False e by auto
  have "configuration ?s = configuration s" using chunk by (simp add: rx_frame_def)
  then have "rx_done ?s (if received ?s < goal ?s then async_receive v ?left ?s else finish_receive v ?s)"
    using async_receive_done [OF chunk(1)] finish_receive_done [OF chunk(1)] op
    by (auto simp: rx_op_ok_def receive_goal_def)
  with False e' show ?thesis
    unfolding on_receive_def Let_def chunk_received_def [symmetric]
    using rx_done_after [OF chunk(2)] by simp
qed

lemma on_send_done:
  assumes turn: "tx_turn pr s" and op: "tx_op_ok s (Send p left offset n)"
    and k: "k \<le> n" and e: "e \<noteq> Operation_aborted" "is_failure e \<Longrightarrow> k = 0"
  shows "tx_done s (on_send (async_send v) (finish_send v) e k left (log_sent offset k s))"
proof (cases "is_failure e")
  case True
  then have "log_sent offset k s = s" using e by (simp add: log_sent_def)
  with True e turn show ?thesis by (auto simp: on_send_def intro!: abort_tx_done)
next
  case False
  let ?s = "chunk_sent offset k s"
  note chunk = chunk_sent_turn [OF turn op k]
  have conf: "configuration ?s = configuration s" using chunk by (simp add: tx_frame_def)
  have "sent ?s \<le> goal ?s" using chunk(1) by (simp add: tx_turn_def base_ok_def streams_ok_def)
  then have "tx_done ?s (if sent ?s < goal ?s then async_send v (left - k) ?s else finish_send v ?s)"
    using async_send_done [OF chunk(1)] finish_send_done [OF chunk(1)] op conf
    by (auto simp: tx_op_ok_def send_goal_def)
  with False e show ?thesis
    unfolding on_send_def Let_def chunk_sent_def [symmetric]
    using tx_done_after [OF chunk(2)] by simp
qed

end

end
