(* ===== verification/Transports.thy ===== *)
theory Transports
  imports Session_Invariants
begin

text \<open>
  The two subclasses satisfy the contract of the virtual functions, and with it every step
  keeps the invariant of a session.
\<close>

section \<open>TCP\<close>

lemma tcp_finish_close [simp]: "tcp_finish = close_socket" "udp_finish = close_socket"
  by (auto simp: tcp_finish_def udp_finish_def)

lemma buffer_length_word:
  "base_ok s \<Longrightarrow> word_of_nat (length (receive_buffer s)) = BUFFER_SIZE"
  by (simp add: base_ok_def BUFFER_SIZE_value)

lemma tcp_async_receive_done:
  assumes "rx_turn pr s" and "received s < goal s" and "direction (configuration s) \<noteq> TX"
  shows "rx_done s (tcp_async_receive n s)"
  using assms delay_receive_done [OF assms] start_receive_done [OF assms]
  by (simp add: tcp_async_receive_def buffer_length_word rx_turn_def)

lemma udp_async_receive_eq: "udp_async_receive = tcp_async_receive"
  by (simp add: fun_eq_iff udp_async_receive_def tcp_async_receive_def)

lemma base_finish_receive_turn:
  "rx_turn pr s \<Longrightarrow> rx_turn pr (base_finish_receive s)" "rx_frame s (base_finish_receive s)"
  by (auto simp: rx_turn_def rx_frame_def own_exit_def base_finish_receive_def base_unfolds lanes)

lemma base_finish_send_turn:
  "tx_turn pr s \<Longrightarrow> tx_turn pr (base_finish_send s)" "tx_frame s (base_finish_send s)"
  by (auto simp: tx_turn_def tx_frame_def own_exit_def base_finish_send_def base_unfolds lanes)

lemma shutdown_rx_turn:
  "rx_turn pr s \<Longrightarrow> receive_goal s \<Longrightarrow> shutdown_policy (configuration s) \<noteq> SEND_COMPLETE \<Longrightarrow>
   rx_turn pr (shutdown_send s)"
  "rx_frame s (shutdown_send s)"
  by (auto simp: rx_turn_def rx_frame_def own_exit_def shutdown_send_def base_unfolds lanes)

lemma goal_shutdown [simp]:
  "receive_goal (shutdown_send s) = receive_goal s" "send_goal (shutdown_send s) = send_goal s"
  "receive_goal (base_finish_receive s) = receive_goal s"
  "send_goal (base_finish_send s) = send_goal s"
  "configuration (shutdown_send s) = configuration s"
  "configuration (base_finish_receive s) = configuration s"
  "configuration (base_finish_send s) = configuration s"
  by (auto simp: receive_goal_def send_goal_def shutdown_send_def base_finish_receive_def
      base_finish_send_def)

lemma rx_frame_refl [simp]: "rx_frame s s" and tx_frame_refl [simp]: "tx_frame s s"
  by (simp_all add: rx_frame_def tx_frame_def own_exit_def)

lemma rx_frame_trans: "rx_frame s s' \<Longrightarrow> rx_frame s' s'' \<Longrightarrow> rx_frame s s''"
  by (auto simp: rx_frame_def own_exit_def)

lemma start_eof_done:
  "rx_turn TCP s \<Longrightarrow> receive_goal s \<Longrightarrow> rx_done s (start_op (Receive_eof Waiting) s)"
  by (auto simp: rx_turn_def done_defs start_op_def base_unfolds lanes rx_lane_ok_def rx_op_ok_def)

lemma tcp_finish_receive_done:
  assumes "rx_turn TCP s" and "receive_goal s"
  shows "rx_done s (tcp_finish_receive s)"
proof -
  let ?s1 = "base_finish_receive s"
  let ?s2 = "if shutdown_policy (configuration ?s1) = RECEIVE_COMPLETE then shutdown_send ?s1 else ?s1"
  have "rx_turn TCP ?s2" "receive_goal ?s2"
    using assms base_finish_receive_turn(1) [of TCP s] shutdown_rx_turn(1) [of TCP ?s1] by auto
  then have "rx_done ?s2 (tcp_finish_receive s)"
    unfolding tcp_finish_receive_def Let_def tcp_socket_async_receive_def by (rule start_eof_done)
  moreover have "rx_frame s ?s2"
    using base_finish_receive_turn(2) shutdown_rx_turn(2) by (auto intro: rx_frame_trans)
  ultimately show ?thesis by (rule rx_done_after [rotated])
qed

lemma tcp_on_eof_done:
  assumes "rx_turn TCP s" and "receive_goal s" and "e \<noteq> Operation_aborted"
  shows "rx_done s (tcp_on_eof e n s)"
proof -
  let ?s = "if shutdown_policy (configuration s) = WAIT_FOR_PEER then shutdown_send s else s"
  have s: "rx_turn TCP ?s" "receive_goal ?s" "rx_frame s ?s"
    using assms shutdown_rx_turn(1) [of TCP s] shutdown_rx_turn(2) [of s] by auto
  have "rx_done ?s (tcp_on_eof e n s)"
    using on_receive_complete_done [OF s(1,2)] abort_rx_done [OF s(1)] assms
    by (simp add: tcp_on_eof_def Let_def make_error_code_def)
  with s(3) show ?thesis by (rule rx_done_after)
qed

text \<open>A send that fits its slice, what is left to send, and the buffer.\<close>

lemma start_send_done:
  assumes "tx_turn pr s" and "sent s < goal s" and "direction (configuration s) \<noteq> RX"
    and "m \<noteq> 0" and "m \<le> left" and "left \<le> goal s - sent s"
    and "m \<le> BUFFER_SIZE - ucast (ucast (sent s) :: u8)"
  shows "tx_done s (start_op (Send Waiting left (ucast (ucast (sent s) :: u8)) m) s)"
  using assms
  by (auto simp: tx_turn_def done_defs start_op_def base_unfolds lanes tx_lane_ok_def tx_op_ok_def)

lemma positive_room:
  fixes n :: u64
  shows "BUFFER_SIZE - ucast (ucast n :: u8) \<noteq> 0"
proof
  assume "BUFFER_SIZE - ucast (ucast n :: u8) = 0"
  then have "unat (BUFFER_SIZE - ucast (ucast n :: u8)) = 0" by simp
  with offset_room [of "ucast (ucast n :: u8)" n] show False by simp
qed

lemma tcp_async_send_done:
  assumes "tx_turn pr s" and "sent s < goal s" and "direction (configuration s) \<noteq> RX"
  shows "tx_done s (tcp_async_send n s)"
proof (cases "n = 0")
  case True
  then show ?thesis using delay_send_done [OF assms] by (simp add: tcp_async_send_def)
next
  case False
  have "goal s - sent s \<noteq> 0" using assms(2) by simp
  then show ?thesis
    using False positive_room [of "sent s"] start_send_done [OF assms]
    by (simp add: tcp_async_send_def Let_def min_def)
qed

lemma tcp_finish_send_done:
  assumes "tx_turn TCP s" and "send_goal s"
  shows "tx_done s (tcp_finish_send s)"
proof -
  let ?s1 = "base_finish_send s"
  have 1: "tx_turn TCP ?s1" "send_goal ?s1" "tx_frame s ?s1"
    using assms base_finish_send_turn by auto
  have "tx_done ?s1 (tcp_finish_send s)"
  proof (cases "shutdown_policy (configuration ?s1) = SEND_COMPLETE")
    case False
    then show ?thesis
      using on_send_complete_done [OF 1(1,2)] by (simp add: tcp_finish_send_def Let_def)
  next
    case True
    then show ?thesis
      using 1 by (cases "is_receive_complete ?s1")
        (clarsimp simp: tx_turn_def done_defs tcp_finish_send_def on_send_complete_def on_finish_def
          close_socket_def shutdown_send_def Let_def base_unfolds lanes tx_lane_ok_def send_goal_def
          simp del: map_map)+
  qed
  with 1(3) show ?thesis by (rule tx_done_after)
qed

interpretation tcp: session_class tcp_virtuals TCP
  by unfold_locales
    (simp_all add: tcp_virtuals_def tcp_async_receive_done tcp_finish_receive_done
      tcp_async_send_done tcp_finish_send_done tcp_on_eof_done)

section \<open>UDP\<close>

lemma udp_finish_receive_done:
  assumes "rx_turn UDP s" and "receive_goal s"
  shows "rx_done s (udp_finish_receive s)"
  using on_receive_complete_done [of UDP "base_finish_receive s"] assms
    base_finish_receive_turn(1) [of UDP s] rx_done_after [OF base_finish_receive_turn(2)]
  by (simp add: udp_finish_receive_def)

lemma udp_finish_send_done:
  assumes "tx_turn UDP s" and "send_goal s"
  shows "tx_done s (udp_finish_send s)"
  using on_send_complete_done [of UDP "base_finish_send s"] assms
    base_finish_send_turn(1) [of UDP s] tx_done_after [OF base_finish_send_turn(2)]
  by (simp add: udp_finish_send_def)

lemma next_draw_turn:
  "tx_turn pr s \<Longrightarrow> tx_turn pr (s\<lparr>draws := \<lambda>i. draws s (Suc i)\<rparr>)"
  "tx_frame s (s\<lparr>draws := \<lambda>i. draws s (Suc i)\<rparr>)"
  by (clarsimp simp: tx_turn_def tx_frame_def own_exit_def base_unfolds lanes draws_ok_def)+

lemma get_max_datagram_size_bounds:
  assumes "tx_turn UDP s" and "get_max_datagram_size s = (m, s')"
  shows "m \<noteq> 0" and "unat m \<le> 131072 - 255" and "tx_turn UDP s'" and "tx_frame s s'"
    and "sent s' = sent s"
proof -
  let ?low = "size_value (range_low (packet_size (configuration s)))"
  let ?high = "size_value (range_high (packet_size (configuration s)))"
  have c: "0 < ?low" "?low \<le> ?high" "unat ?high \<le> 131072 - 255" "?low \<le> draws s i" "draws s i \<le> ?high" for i
    using assms(1) by (auto simp: tx_turn_def base_ok_def valid_configuration_def draws_ok_def)
  have "?low \<le> m" "m \<le> ?high"
    using assms(2) c by (auto simp: get_max_datagram_size_def Let_def split: if_splits)
  then show "m \<noteq> 0" "unat m \<le> 131072 - 255"
    using c by (auto simp: word_le_nat_alt word_less_nat_alt)
  have "s' = s \<or> s' = s\<lparr>draws := \<lambda>i. draws s (Suc i)\<rparr>"
    using assms(2) by (simp add: get_max_datagram_size_def Let_def split: if_splits)
  then show "tx_turn UDP s'" "tx_frame s s'" "sent s' = sent s"
    using assms(1) next_draw_turn by auto
qed

lemma udp_async_send_done:
  assumes turn: "tx_turn UDP s" and lt: "sent s < goal s" and dir: "direction (configuration s) \<noteq> RX"
  shows "tx_done s (udp_async_send n s)"
proof (cases "n = 0")
  case True
  then show ?thesis using delay_send_done [OF assms] by (simp add: udp_async_send_def)
next
  case False
  obtain m s' where draw: "get_max_datagram_size s = (m, s')" by fastforce
  note s' = get_max_datagram_size_bounds [OF turn draw]
  let ?left = "min n (goal s - sent s)" and ?offset = "ucast (ucast (sent s) :: u8) :: u64"
  let ?size = "min ?left m"
  have conf: "configuration s' = configuration s" using s'(4) by (simp add: tx_frame_def)
  have "goal s - sent s \<noteq> 0" using lt by simp
  with False s'(1) have size: "?size \<noteq> 0" "?size \<le> ?left" by (auto simp: min_def)
  have "m \<le> BUFFER_SIZE - ?offset"
    using offset_room [of ?offset "sent s"] s'(2) by (simp add: word_le_nat_alt)
  then have room: "?size \<le> BUFFER_SIZE - ?offset" by (simp add: min.coboundedI2)
  have "tx_done s' (start_op (Send Waiting ?left ?offset ?size) s')"
    using start_send_done [OF s'(3), of ?size ?left] size room lt dir by (simp add: conf s'(5))
  with room False show ?thesis
    using tx_done_after [OF s'(4)] by (simp add: udp_async_send_def Let_def draw)
qed

interpretation udp: session_class udp_virtuals UDP
  by unfold_locales
    (simp_all add: udp_virtuals_def udp_async_receive_eq tcp_async_receive_done
      udp_finish_receive_done udp_async_send_done udp_finish_send_done)

section \<open>Starting a transfer\<close>

section \<open>Starting a transfer\<close>

text \<open>The state in which the handler that starts the transfer runs: both lanes are idle.\<close>

definition ready :: "Protocol \<Rightarrow> Session \<Rightarrow> bool" where
  "ready pr s \<longleftrightarrow> rx_turn pr s \<and> tx_turn pr s \<and> received s = 0 \<and> sent s = 0"

lemma ready_start_date:
  "ready pr s \<Longrightarrow> ready pr (s\<lparr>statistics := (statistics s)\<lparr>start_date := d\<rparr>\<rparr>)"
  by (clarsimp simp: ready_def rx_turn_def tx_turn_def base_unfolds lanes)

lemma reset_turns:
  "rx_turn pr s \<Longrightarrow> rx_turn pr (s\<lparr>receive_throttle := t\<rparr>)"
  "tx_turn pr s \<Longrightarrow> tx_turn pr (s\<lparr>send_throttle := t\<rparr>)"
  "rx_frame s (s\<lparr>receive_throttle := t\<rparr>)"
  "tx_frame s (s\<lparr>send_throttle := t\<rparr>)"
  by (clarsimp simp: rx_turn_def tx_turn_def rx_frame_def tx_frame_def own_exit_def base_unfolds lanes)+

text \<open>After the receive lane has been started, it is the send lane's turn.\<close>

lemma rx_done_tx_turn:
  "rx_done s s' \<Longrightarrow> tx_turn pr s \<Longrightarrow> tx_turn pr s'"
  by (auto simp: done_defs tx_turn_def rx_lane_ok_def split: list.splits)

context session_class
begin

text \<open>
  The receive lane is started first; the state in between is ready for the send lane.
\<close>

lemma start_transfer_split:
  assumes "ready pr s"
  obtains s1 s2 where "s1 = s\<lparr>statistics := (statistics s)\<lparr>start_date := Some (universal_time s)\<rparr>\<rparr>"
    and "rx_done s1 s2" and "tx_turn pr s2" and "sent s2 = 0" and "goal s2 \<noteq> 0"
    and "start_transfer (async_receive v) (finish_receive v) (async_send v) (finish_send v) s =
      (if direction (configuration s2) = RX then finish_send v s2
       else async_send v 0 (s2\<lparr>send_throttle := reset (steady_time s2) (send_throttle s2)\<rparr>))"
proof -
  define s1 where "s1 = s\<lparr>statistics := (statistics s)\<lparr>start_date := Some (universal_time s)\<rparr>\<rparr>"
  have ready: "ready pr s1" unfolding s1_def using assms by (rule ready_start_date)
  then have turns: "rx_turn pr s1" "tx_turn pr s1" and zero: "received s1 = 0" "sent s1 = 0"
    by (auto simp: ready_def)
  have goal: "goal s1 \<noteq> 0" using turns by (auto simp: rx_turn_def base_ok_def valid_configuration_def)
  define s2 where "s2 = (if direction (configuration s1) = TX then finish_receive v s1
    else async_receive v 0 (s1\<lparr>receive_throttle := reset (steady_time s1) (receive_throttle s1)\<rparr>))"
  have rx: "rx_done s1 s2"
  proof (cases "direction (configuration s1) = TX")
    case True
    then show ?thesis using finish_receive_done [OF turns(1)] by (simp add: s2_def receive_goal_def)
  next
    case False
    let ?s = "s1\<lparr>receive_throttle := reset (steady_time s1) (receive_throttle s1)\<rparr>"
    have "rx_done ?s (async_receive v 0 ?s)"
      using False zero goal reset_turns(1) [OF turns(1)]
      by (intro async_receive_done) (auto simp: word_gt_0)
    with False show ?thesis using rx_done_after [OF reset_turns(3)] by (simp add: s2_def)
  qed
  show thesis
  proof (rule that [OF s1_def rx])
    show "tx_turn pr s2" using rx turns(2) by (rule rx_done_tx_turn)
    show "sent s2 = 0" "goal s2 \<noteq> 0" using rx zero goal by (auto simp: done_defs)
  qed (unfold start_transfer_def Let_def s1_def s2_def, rule refl)
qed

lemma start_transfer_inv:
  assumes "ready pr s"
  shows "session_inv (start_transfer (async_receive v) (finish_receive v) (async_send v) (finish_send v) s)"
    and "configuration (start_transfer (async_receive v) (finish_receive v) (async_send v) (finish_send v) s) =
      configuration s"
    and "own_exit s (start_transfer (async_receive v) (finish_receive v) (async_send v) (finish_send v) s)"
    (is "own_exit _ ?s3")
proof -
  obtain s1 s2 where s1: "s1 = s\<lparr>statistics := (statistics s)\<lparr>start_date := Some (universal_time s)\<rparr>\<rparr>"
    and rx: "rx_done s1 s2" and turn2: "tx_turn pr s2" and zero: "sent s2 = 0" "goal s2 \<noteq> 0"
    and eq: "?s3 = (if direction (configuration s2) = RX then finish_send v s2
      else async_send v 0 (s2\<lparr>send_throttle := reset (steady_time s2) (send_throttle s2)\<rparr>))"
    by (rule start_transfer_split [OF assms])
  have tx: "tx_done s2 ?s3"
  proof (cases "direction (configuration s2) = RX")
    case True
    then show ?thesis
      using finish_send_done [OF turn2] by (simp add: eq send_goal_def)
  next
    case False
    let ?s = "s2\<lparr>send_throttle := reset (steady_time s2) (send_throttle s2)\<rparr>"
    have "tx_done ?s (async_send v 0 ?s)"
      using False zero reset_turns(2) [OF turn2]
      by (intro async_send_done) (auto simp: word_gt_0)
    with False show ?thesis
      using tx_done_after [OF reset_turns(4)] by (simp add: eq)
  qed
  moreover have "rx_lane_ok s2" using rx by (simp add: done_defs)
  ultimately show "session_inv ?s3"
    using tx_done_rx_lane [of s2 ?s3] by (simp add: session_inv_def tx_done_def)
  show "configuration ?s3 = configuration s" "own_exit s ?s3"
    using rx tx by (auto simp: done_defs s1)
qed

end

end
