(* ===== verification/Session_Safety.thy ===== *)
theory Session_Safety
  imports Transports
begin

text \<open>
  Every step of a session keeps its invariant, so every reachable session has it.
\<close>

section \<open>Taking one operation out of the list\<close>

lemma lane_split:
  "i < length ops \<Longrightarrow> filter P ops =
     filter P (take i ops) @ (if P (ops ! i) then [ops ! i] else []) @ filter P (drop (Suc i) ops)"
  by (subst (1) id_take_nth_drop [of i ops]) auto

lemma filter_remove_nth:
  "filter P (remove_nth i ops) = filter P (take i ops) @ filter P (drop (Suc i) ops)"
  by (simp add: remove_nth_def)

lemma filter_remove_other:
  "i < length ops \<Longrightarrow> \<not> P (ops ! i) \<Longrightarrow> filter P (remove_nth i ops) = filter P ops"
  by (simp add: filter_remove_nth lane_split [of i ops P])

lemma filter_remove_only:
  "i < length ops \<Longrightarrow> P (ops ! i) \<Longrightarrow> filter P ops = [op] \<Longrightarrow>
   ops ! i = op \<and> filter P (remove_nth i ops) = []"
  by (auto simp: filter_remove_nth lane_split [of i ops P] append_eq_Cons_conv)

lemma filter_update_nth:
  assumes "i < length ops" and "P (g (ops ! i)) = P (ops ! i)"
  shows "filter P (ops[i := g (ops ! i)]) =
     filter P (take i ops) @ (if P (ops ! i) then [g (ops ! i)] else []) @ filter P (drop (Suc i) ops)"
  using assms by (simp add: upd_conv_take_nth_drop)

lemma completed_lane [simp]:
  "is_rx (completed op) = is_rx op" "is_tx (completed op) = is_tx op"
  "starts pr (completed op) = starts pr op"
  by (cases op; simp add: starts_iff)+

text \<open>What a session's own step promises: the invariant, for the same configuration.\<close>

definition keeps :: "Session \<Rightarrow> Session \<Rightarrow> bool" where
  "keeps s s' \<longleftrightarrow> session_inv s' \<and> configuration s' = configuration s \<and> own_exit s s'"

section \<open>Steps that leave the lanes alone\<close>

text \<open>What the invariant depends on besides the lanes.\<close>

definition same_base :: "Session \<Rightarrow> Session \<Rightarrow> bool" where
  "same_base s s' \<longleftrightarrow>
     configuration s' = configuration s \<and> draws s' = draws s \<and> crashed s' = crashed s \<and>
     send_buffer s' = send_buffer s \<and> receive_buffer s' = receive_buffer s \<and>
     socket s' = socket s \<and> received s' = received s \<and> sent s' = sent s \<and>
     mismatches s' = mismatches s \<and>
     is_receive_complete s' = is_receive_complete s \<and> is_send_complete s' = is_send_complete s \<and>
     (is_failure (session_failure s) \<longrightarrow> is_failure (session_failure s')) \<and>
     (failure_ok s \<longrightarrow> failure_ok s')"

lemma same_base_ok: "same_base s s' \<Longrightarrow> base_ok s \<Longrightarrow> base_ok s'"
  by (clarsimp simp: same_base_def base_ok_def streams_ok_def closing_ok_def receive_goal_def)

lemma same_lanes_inv:
  assumes "same_base s s'" and "rx_ops s' = rx_ops s" and "tx_ops s' = tx_ops s"
    and "start_ops s' = start_ops s" and "session_inv s"
  shows "session_inv s'"
proof -
  have "rx_lane_ok s \<Longrightarrow> rx_lane_ok s'"
    using assms by (auto simp: same_base_def rx_lane_ok_def receive_goal_def rx_op_ok_cong [of s' s]
        split: list.splits)
  moreover have "tx_lane_ok s \<Longrightarrow> tx_lane_ok s'"
    using assms by (auto simp: same_base_def tx_lane_ok_def send_goal_def tx_op_ok_cong [of s' s]
        split: list.splits)
  moreover have "fresh s \<Longrightarrow> fresh s'" using assms by (simp add: same_base_def fresh_def)
  ultimately show ?thesis
    using assms same_base_ok [OF assms(1)] by (simp add: session_inv_def split: if_splits)
qed

definition without :: "nat \<Rightarrow> Session \<Rightarrow> Session" where
  "without i s = s\<lparr>pending := remove_nth i (pending s)\<rparr>"

lemma without_base: "same_base s (without i s)"
  by (simp add: same_base_def without_def failure_ok_def)

lemma without_inv:
  assumes "session_inv s" and "i < length (pending s)"
    and "\<not> is_rx (pending s ! i)" "\<not> is_tx (pending s ! i)"
    and "\<not> starts (protocol (configuration s)) (pending s ! i)"
  shows "session_inv (without i s)"
  using without_base _ _ _ assms(1)
  by (rule same_lanes_inv) (simp_all add: lanes without_def filter_remove_other assms)

lemma abort_inv:
  assumes "session_inv s" and "e \<noteq> success"
  shows "session_inv (abort_with (Tester_error e) s)"
  using _ _ _ _ assms(1)
  by (rule same_lanes_inv)
    (use assms in \<open>auto simp: same_base_def abort_with_def lanes failure_ok_def request_exit_def\<close>)

lemma on_signal_number_inv: "session_inv s \<Longrightarrow> session_inv (on_signal_number e n s)"
  by (simp add: on_signal_number_def make_error_code_def abort_inv)

lemma on_timeout_inv: "session_inv s \<Longrightarrow> session_inv (on_timeout e s)"
  by (simp add: on_timeout_def make_error_code_def abort_inv)

lemma estimate_defined:
  "valid_configuration c \<Longrightarrow> \<exists>ticks. estimate_test_duration tps c = Inr ticks"
  by (auto simp: estimate_test_duration_def valid_configuration_def Let_def min_def)

lemma start_timer_same:
  assumes "base_ok s"
  shows "same_base s (start_timer s)" and "rx_ops (start_timer s) = rx_ops s"
    and "tx_ops (start_timer s) = tx_ops s" and "start_ops (start_timer s) = start_ops s"
proof -
  obtain ticks where
    "estimate_test_duration (ticks_per_second s) (configuration s) = Inr ticks"
    using estimate_defined assms by (auto simp: base_ok_def)
  then show "same_base s (start_timer s)" "rx_ops (start_timer s) = rx_ops s"
    "tx_ops (start_timer s) = tx_ops s" "start_ops (start_timer s) = start_ops s"
    by (auto simp: start_timer_def start_op_def same_base_def failure_ok_def lanes starts_iff)
qed

section \<open>The end of a wait\<close>

lemma end_wait_base: "same_base s (end_wait i s)"
  by (simp add: same_base_def end_wait_def failure_ok_def)

lemma end_wait_lane:
  assumes "i < length ops" and "P (completed (ops ! i)) = P (ops ! i)" and "filter P ops = [] \<or> filter P ops = [op]"
  shows "filter P (ops[i := completed (ops ! i)]) = filter P ops \<or>
    filter P ops = [op] \<and> filter P (ops[i := completed (ops ! i)]) = [completed op]"
proof -
  note new = filter_update_nth [of i ops P completed, OF assms(1,2)]
  note old = lane_split [of i ops P, OF assms(1)]
  show ?thesis
    using assms(3) unfolding new old by (cases "P (ops ! i)") (auto simp: append_eq_Cons_conv)
qed

lemma rx_op_ok_completed: "rx_op_ok s op \<Longrightarrow> rx_op_ok s (completed op)"
  by (cases op) (auto simp: rx_op_ok_def)

lemma tx_op_ok_completed: "tx_op_ok s op \<Longrightarrow> tx_op_ok s (completed op)"
  by (cases op) (auto simp: tx_op_ok_def)

lemma rx_lane_cases:
  "rx_lane_ok s \<longleftrightarrow>
   (rx_ops s = [] \<and> (if is_receive_complete s then receive_goal s else is_failure (session_failure s))) \<or>
   (\<exists>op. rx_ops s = [op] \<and> \<not> is_receive_complete s \<and> rx_op_ok s op)"
  by (auto simp: rx_lane_ok_def split: list.splits)

lemma tx_lane_cases:
  "tx_lane_ok s \<longleftrightarrow>
   (tx_ops s = [] \<and> (if is_send_complete s then send_goal s else is_failure (session_failure s))) \<or>
   (\<exists>op. tx_ops s = [op] \<and> \<not> is_send_complete s \<and> tx_op_ok s op)"
  by (auto simp: tx_lane_ok_def split: list.splits)

lemma end_wait_simps [simp]:
  "configuration (end_wait i s) = configuration s" "statistics (end_wait i s) = statistics s"
  "is_receive_complete (end_wait i s) = is_receive_complete s"
  "is_send_complete (end_wait i s) = is_send_complete s"
  "session_failure (end_wait i s) = session_failure s"
  "pending (end_wait i s) = (pending s)[i := completed (pending s ! i)]"
  "process (end_wait i s) = process s"
  by (simp_all add: end_wait_def)

lemma end_wait_rx:
  assumes "i < length (pending s)" and "rx_lane_ok s"
  shows "rx_lane_ok (end_wait i s)"
proof -
  have ok: "rx_op_ok (end_wait i s) op = rx_op_ok s op" for op by (rule rx_op_ok_cong) simp_all
  show ?thesis
    using assms end_wait_lane [of i "pending s" is_rx] rx_op_ok_completed
    unfolding rx_lane_cases ok by (auto simp: rx_ops_def receive_goal_def)
qed

lemma end_wait_tx:
  assumes "i < length (pending s)" and "tx_lane_ok s"
  shows "tx_lane_ok (end_wait i s)"
proof -
  have ok: "tx_op_ok (end_wait i s) op = tx_op_ok s op" for op by (rule tx_op_ok_cong) simp_all
  show ?thesis
    using assms end_wait_lane [of i "pending s" is_tx] tx_op_ok_completed
    unfolding tx_lane_cases ok by (auto simp: tx_ops_def send_goal_def)
qed

lemma end_wait_inv:
  assumes inv: "session_inv s" and i: "i < length (pending s)"
  shows "session_inv (end_wait i s)"
proof -
  have base: "base_ok (end_wait i s)"
    using same_base_ok [OF end_wait_base] inv by (simp add: session_inv_def)
  let ?P = "starts (protocol (configuration s))"
  have split: "length (filter ?P ((pending s)[i := completed (pending s ! i)])) = length (filter ?P (pending s))"
    using i by (simp add: filter_update_nth lane_split [of i "pending s" ?P])
  show ?thesis
  proof (cases "start_ops s = []")
    case True
    then have "start_ops (end_wait i s) = []" using split by (simp add: start_ops_def)
    with True inv base i show ?thesis by (simp add: session_inv_def end_wait_rx end_wait_tx)
  next
    case False
    with inv have "fresh s" by (simp add: session_inv_def)
    then have "fresh (end_wait i s)"
      using split end_wait_lane [OF i, of is_rx] end_wait_lane [OF i, of is_tx]
      by (simp add: fresh_def lanes)
    then show ?thesis using base by (auto simp: session_inv_def fresh_def)
  qed
qed

section \<open>Handlers\<close>

text \<open>The turn that the handler of a lane's operation begins with.\<close>

lemma without_rx_turn:
  assumes inv: "session_inv s" and i: "i < length (pending s)" and rx: "is_rx (pending s ! i)"
  shows "rx_turn (protocol (configuration s)) (without i s)" and "rx_op_ok s (pending s ! i)"
    and "tx_lane_ok (without i s)"
proof -
  have "pending s ! i \<in> set (rx_ops s)" using i rx by (simp add: rx_ops_def)
  then have started: "start_ops s = []" and lanes_ok: "rx_lane_ok s" "tx_lane_ok s" and base: "base_ok s"
    using inv by (auto simp: session_inv_def fresh_def split: if_splits)
  with \<open>pending s ! i \<in> set (rx_ops s)\<close> obtain op where
    op: "rx_ops s = [op]" "\<not> is_receive_complete s" "rx_op_ok s op"
    by (auto simp: rx_lane_cases)
  have only: "pending s ! i = op" "filter is_rx (remove_nth i (pending s)) = []"
    using filter_remove_only [OF i, of is_rx op] rx op(1) by (auto simp: rx_ops_def)
  have others: "tx_ops (without i s) = tx_ops s" "start_ops (without i s) = start_ops s"
    using i rx lanes_disjoint(1,2) by (auto simp: lanes without_def filter_remove_other)
  show "rx_op_ok s (pending s ! i)" using only op by simp
  show "rx_turn (protocol (configuration s)) (without i s)"
    using same_base_ok [OF without_base base] others started op only lanes_ok
    by (auto simp: rx_turn_def without_def rx_ops_def tx_lane_cases)
  have "tx_op_ok (without i s) op' = tx_op_ok s op'" for op'
    by (rule tx_op_ok_cong) (simp_all add: without_def)
  then show "tx_lane_ok (without i s)"
    using lanes_ok(2) others unfolding tx_lane_cases by (auto simp: without_def send_goal_def)
qed

lemma without_tx_turn:
  assumes inv: "session_inv s" and i: "i < length (pending s)" and tx: "is_tx (pending s ! i)"
  shows "tx_turn (protocol (configuration s)) (without i s)" and "tx_op_ok s (pending s ! i)"
    and "rx_lane_ok (without i s)"
proof -
  have "pending s ! i \<in> set (tx_ops s)" using i tx by (simp add: tx_ops_def)
  then have started: "start_ops s = []" and lanes_ok: "rx_lane_ok s" "tx_lane_ok s" and base: "base_ok s"
    using inv by (auto simp: session_inv_def fresh_def split: if_splits)
  with \<open>pending s ! i \<in> set (tx_ops s)\<close> obtain op where
    op: "tx_ops s = [op]" "\<not> is_send_complete s" "tx_op_ok s op"
    by (auto simp: tx_lane_cases)
  have only: "pending s ! i = op" "filter is_tx (remove_nth i (pending s)) = []"
    using filter_remove_only [OF i, of is_tx op] tx op(1) by (auto simp: tx_ops_def)
  have others: "rx_ops (without i s) = rx_ops s" "start_ops (without i s) = start_ops s"
    using i tx lanes_disjoint(3,4) by (auto simp: lanes without_def filter_remove_other)
  show "tx_op_ok s (pending s ! i)" using only op by simp
  show "tx_turn (protocol (configuration s)) (without i s)"
    using same_base_ok [OF without_base base] others started op only lanes_ok
    by (auto simp: tx_turn_def without_def tx_ops_def rx_lane_cases)
  have "rx_op_ok (without i s) op' = rx_op_ok s op'" for op'
    by (rule rx_op_ok_cong) (simp_all add: without_def)
  then show "rx_lane_ok (without i s)"
    using lanes_ok(1) others unfolding rx_lane_cases by (auto simp: without_def receive_goal_def)
qed

text \<open>The handler that starts the transfer finds both lanes ready.\<close>

lemma without_ready:
  assumes inv: "session_inv s" and i: "i < length (pending s)"
    and start: "starts (protocol (configuration s)) (pending s ! i)"
  shows "ready (protocol (configuration s)) (without i s)"
proof -
  have "start_ops s \<noteq> []" using i start by (auto simp: start_ops_def filter_empty_conv)
  then have fresh: "fresh s" and base: "base_ok s" using inv by (auto simp: session_inv_def)
  then obtain op where "start_ops s = [op]" by (auto simp: fresh_def length_Suc_conv)
  then have "start_ops (without i s) = []"
    using filter_remove_only [where P = "starts (protocol (configuration s))", OF i start]
    by (simp add: start_ops_def without_def)
  moreover have "rx_ops (without i s) = []" "tx_ops (without i s) = []"
    using fresh i lanes_disjoint(5,6) [OF start]
    by (auto simp: fresh_def lanes without_def filter_remove_other)
  ultimately show ?thesis
    using fresh same_base_ok [OF without_base base]
    by (auto simp: ready_def rx_turn_def tx_turn_def fresh_def without_def)
qed

lemma rx_done_inv: "rx_done s s' \<Longrightarrow> tx_lane_ok s \<Longrightarrow> keeps s s'"
  using rx_done_tx_lane [of s s'] by (simp add: keeps_def session_inv_def rx_done_def rx_frame_def)

lemma tx_done_inv: "tx_done s s' \<Longrightarrow> rx_lane_ok s \<Longrightarrow> keeps s s'"
  using tx_done_rx_lane [of s s'] by (simp add: keeps_def session_inv_def tx_done_def tx_frame_def)

lemma rx_op_ok_progress: "rx_op_ok s op \<Longrightarrow> progress_of op \<noteq> Cancelled"
  by (cases op) (auto simp: rx_op_ok_def)

lemma tx_op_ok_progress: "tx_op_ok s op \<Longrightarrow> progress_of op \<noteq> Cancelled"
  by (cases op) (auto simp: tx_op_ok_def)

lemma rx_op_ok_without: "rx_op_ok (without i s) op = rx_op_ok s op"
  by (rule rx_op_ok_cong) (simp_all add: without_def)

lemma tx_op_ok_without: "tx_op_ok (without i s) op = tx_op_ok s op"
  by (rule tx_op_ok_cong) (simp_all add: without_def)

context session_class
begin

lemma receive_slice_done:
  assumes turn: "rx_turn pr s" and op: "rx_op_ok s (Wait_receive_slice p)" and e: "\<not> is_failure e"
  shows "rx_done s (on_receive_slice (async_receive v) e s)"
proof -
  obtain t n where slice: "begin_slice (receive_throttle s) = (t, n)" by fastforce
  have "rx_done (s\<lparr>receive_throttle := t\<rparr>) (async_receive v n (s\<lparr>receive_throttle := t\<rparr>))"
    using reset_turns(1) [OF turn] op by (intro async_receive_done) (auto simp: rx_op_ok_def)
  with e show ?thesis
    using rx_done_after [OF reset_turns(3)] by (simp add: on_receive_slice_def slice)
qed

lemma send_slice_done:
  assumes turn: "tx_turn pr s" and op: "tx_op_ok s (Wait_send_slice p)" and e: "\<not> is_failure e"
  shows "tx_done s (on_send_slice (async_send v) e s)"
proof -
  obtain t n where slice: "begin_slice (send_throttle s) = (t, n)" by fastforce
  have "tx_done (s\<lparr>send_throttle := t\<rparr>) (async_send v n (s\<lparr>send_throttle := t\<rparr>))"
    using reset_turns(2) [OF turn] op by (intro async_send_done) (auto simp: tx_op_ok_def)
  with e show ?thesis
    using tx_done_after [OF reset_turns(4)] by (simp add: on_send_slice_def slice)
qed

lemma rx_handler_done:
  assumes turn: "rx_turn pr s" and op: "rx_op_ok s op" and ok: "allowed pr op ev" and rx: "is_rx op"
  shows "rx_done s (handle v op ev s)"
proof -
  have e: "event_error ev \<noteq> Operation_aborted"
    using rx_op_ok_progress [OF op] ok by (auto simp: allowed_def)
  show ?thesis
  proof (cases op)
    case (Wait_receive_slice p)
    then show ?thesis
      using ok rx_op_ok_progress [OF op] receive_slice_done [OF turn, of p] op
      by (cases ev; cases p) (auto simp: allowed_def)
  next
    case (Receive p left n)
    then show ?thesis
      using ok e on_receive_done [OF turn op [unfolded Receive]]
      by (cases ev) (auto simp: allowed_def)
  next
    case (Receive_eof p)
    then have goal: "receive_goal s" and pr: "pr = TCP"
      using op turn by (auto simp: rx_op_ok_def rx_turn_def)
    obtain e' data where ev: "ev = Got e' data"
      using ok Receive_eof by (cases ev) (auto simp: allowed_def)
    have "rx_turn pr (store_received data s)" "rx_frame s (store_received data s)"
      "receive_goal (store_received data s)"
      using turn goal ok Receive_eof ev
      by (clarsimp simp: rx_turn_def rx_frame_def own_exit_def store_received_def base_unfolds lanes allowed_def)+
    with e ev show ?thesis
      using on_eof_done [OF pr, of "store_received data s" e'] rx_done_after Receive_eof
      by auto
  qed (use rx in auto)
qed

lemma tx_handler_done:
  assumes turn: "tx_turn pr s" and op: "tx_op_ok s op" and ok: "allowed pr op ev" and tx: "is_tx op"
  shows "tx_done s (handle v op ev s)"
proof -
  have e: "event_error ev \<noteq> Operation_aborted"
    using tx_op_ok_progress [OF op] ok by (auto simp: allowed_def)
  show ?thesis
  proof (cases op)
    case (Wait_send_slice p)
    then show ?thesis
      using ok tx_op_ok_progress [OF op] send_slice_done [OF turn, of p] op
      by (cases ev; cases p) (auto simp: allowed_def)
  next
    case (Send p left offset n)
    then show ?thesis
      using ok e on_send_done [OF turn op [unfolded Send]]
      by (cases ev) (auto simp: allowed_def unat_eq_zero)
  qed (use tx in auto)
qed

text \<open>A handler of either lane restores the invariant.\<close>

lemma lane_handler_inv:
  assumes inv: "session_inv s" and i: "i < length (pending s)" and pr: "protocol (configuration s) = pr"
    and ok: "allowed pr (pending s ! i) ev" and lane: "is_rx (pending s ! i) \<or> is_tx (pending s ! i)"
  shows "keeps s (handle v (pending s ! i) ev (without i s))"
proof (cases "is_rx (pending s ! i)")
  case True
  note turn = without_rx_turn [OF inv i True]
  have "rx_done (without i s) (handle v (pending s ! i) ev (without i s))"
    using turn ok True pr by (intro rx_handler_done) (simp_all add: rx_op_ok_without)
  from rx_done_inv [OF this turn(3)] show ?thesis by (simp add: keeps_def without_def own_exit_def)
next
  case False
  with lane have tx: "is_tx (pending s ! i)" by simp
  note turn = without_tx_turn [OF inv i tx]
  have "tx_done (without i s) (handle v (pending s ! i) ev (without i s))"
    using turn ok tx pr by (intro tx_handler_done) (simp_all add: tx_op_ok_without)
  from tx_done_inv [OF this turn(3)] show ?thesis by (simp add: keeps_def without_def own_exit_def)
qed

end

section \<open>Every step keeps the invariant\<close>

lemma virtuals_lane_inv:
  assumes "session_inv s" and "i < length (pending s)"
    and "allowed (protocol (configuration s)) (pending s ! i) ev"
    and "is_rx (pending s ! i) \<or> is_tx (pending s ! i)"
  shows "keeps s (run_handler i ev s)"
  using assms tcp.lane_handler_inv [of s i ev] udp.lane_handler_inv [of s i ev]
  by (cases "protocol (configuration s)")
    (simp_all add: run_handler_def virtuals_of_def without_def)

lemma ready_start_timer: "ready pr s \<Longrightarrow> ready pr (start_timer s)"
  using start_timer_same [of s] same_base_ok [of s "start_timer s"]
  by (auto simp: ready_def rx_turn_def tx_turn_def same_base_def)

lemma start_timer_configuration: "configuration (start_timer s) = configuration s"
  by (auto simp: start_timer_def start_op_def crash_def split: sum.splits)

lemma start_timer_process:
  "process (start_timer s) = process s" "session_failure (start_timer s) = session_failure s"
  by (auto simp: start_timer_def start_op_def crash_def split: sum.splits)

lemma simple_own_exit:
  "own_exit s (without i s)"
  "own_exit s (on_signal_number e n (without i s))"
  "own_exit s (on_timeout e (without i s))"
  "own_exit s (start_timer (without i s))"
  by (simp_all add: own_exit_def without_def on_signal_number_def on_timeout_def abort_with_def
      start_timer_process make_error_code_def)

lemma simple_configuration:
  "configuration (without i s) = configuration s"
  "configuration (on_signal_number e n s) = configuration s"
  "configuration (on_timeout e s) = configuration s"
  "configuration (start_timer s) = configuration s"
  by (simp_all add: without_def on_signal_number_def on_timeout_def abort_with_def start_timer_configuration)

lemma start_handler_inv:
  assumes inv: "session_inv s" and i: "i < length (pending s)"
    and ok: "allowed (protocol (configuration s)) (pending s ! i) ev"
    and start: "starts (protocol (configuration s)) (pending s ! i)"
  shows "keeps s (run_handler i ev s)"
proof (cases "protocol (configuration s)")
  case TCP
  then obtain p e where "pending s ! i = Connect p" "ev = Done e"
    using start ok by (cases ev) (auto simp: starts_iff allowed_def)
  then show ?thesis
    using tcp.start_transfer_inv [of "without i s"] without_ready [OF inv i start] TCP
    by (simp add: keeps_def own_exit_def run_handler_def virtuals_of_def without_def tcp_virtuals_def tcp_start_transfer_def)
next
  case UDP
  then obtain p e where "pending s ! i = Posted p" "ev = Done e"
    using start ok by (cases ev) (auto simp: starts_iff allowed_def)
  then show ?thesis
    using udp.start_transfer_inv [of "start_timer (without i s)"]
      ready_start_timer [OF without_ready [OF inv i start]] UDP
      start_timer_configuration [of "without i s"] start_timer_process(1) [of "without i s"]
      start_timer_process(2) [of "without i s"]
    by (simp add: keeps_def own_exit_def run_handler_def virtuals_of_def without_def udp_virtuals_def udp_start_transfer_def)
qed

lemma start_timer_inv:
  assumes "session_inv s"
  shows "session_inv (start_timer s)"
proof -
  have "base_ok s" using assms by (simp add: session_inv_def)
  note same = start_timer_same [OF this]
  show ?thesis using same assms by (rule same_lanes_inv)
qed

lemma other_handler_inv:
  assumes inv: "session_inv s" and i: "i < length (pending s)"
    and ok: "allowed (protocol (configuration s)) (pending s ! i) ev"
    and other: "\<not> is_rx (pending s ! i)" "\<not> is_tx (pending s ! i)"
      "\<not> starts (protocol (configuration s)) (pending s ! i)"
  shows "keeps s (run_handler i ev s)"
proof -
  note inv' = without_inv [OF inv i other]
  have run: "run_handler i ev s = handle (virtuals_of (protocol (configuration s))) (pending s ! i) ev (without i s)"
    by (simp add: run_handler_def without_def)
  show ?thesis
  proof (cases "pending s ! i")
    case (Wait_signal p)
    then show ?thesis
      unfolding run using ok inv' on_signal_number_inv by (cases ev) (auto simp: keeps_def simple_configuration simple_own_exit allowed_def)
  next
    case (Wait_timeout p)
    then show ?thesis
      unfolding run using ok inv' on_timeout_inv by (cases ev) (auto simp: keeps_def simple_configuration simple_own_exit allowed_def)
  next
    case (Connect p)
    then show ?thesis
      unfolding run using ok inv' other by (cases ev; cases "protocol (configuration s)")
        (auto simp: keeps_def simple_configuration simple_own_exit allowed_def virtuals_of_def udp_virtuals_def)
  next
    case (Posted p)
    then show ?thesis
      unfolding run using ok start_timer_inv [OF inv'] other
      by (cases ev; cases "protocol (configuration s)")
        (auto simp: keeps_def simple_configuration simple_own_exit allowed_def virtuals_of_def tcp_virtuals_def)
  qed (use other in auto)
qed

lemma run_handler_inv:
  assumes "session_inv s" and "i < length (pending s)"
    and "allowed (protocol (configuration s)) (pending s ! i) ev"
  shows "keeps s (run_handler i ev s)"
  using virtuals_lane_inv [OF assms] start_handler_inv [OF assms] other_handler_inv [OF assms]
  by blast

lemma own_step_inv: "own_step s s' \<Longrightarrow> session_inv s \<Longrightarrow> keeps s s'"
proof (induction rule: own_step.induct)
  case (clock s t u)
  have "session_inv (s\<lparr>universal_time := u, steady_time := t\<rparr>)"
    by (rule same_lanes_inv [OF _ _ _ _ clock.prems])
      (auto simp: same_base_def failure_ok_def lanes)
  then show ?case by (simp add: keeps_def own_exit_def)
next
  case (wait_ends s i)
  then show ?case by (simp add: end_wait_inv keeps_def own_exit_def)
next
  case (handler s i ev)
  then show ?case by (simp add: run_handler_inv)
qed

lemma exit_asked_inv: "session_inv s \<Longrightarrow> session_inv (s\<lparr>process := request_exit (process s)\<rparr>)"
  by (rule same_lanes_inv) (auto simp: same_base_def failure_ok_def lanes request_exit_def)

lemma step_inv: "step s s' \<Longrightarrow> session_inv s \<Longrightarrow> session_inv s' \<and> configuration s' = configuration s"
  by (cases rule: step.cases) (auto simp: exit_asked_inv dest: own_step_inv simp: keeps_def)

lemma steps_inv: "steps s s' \<Longrightarrow> session_inv s \<Longrightarrow> session_inv s' \<and> configuration s' = configuration s"
proof (induction rule: rtranclp_induct)
  case (step t u)
  then show ?case using step_inv [of t u] by simp
qed simp

section \<open>A created session has the invariant\<close>

lemma create_session_inv:
  assumes c: "valid_configuration c" and draws: "draws_ok c random"
    and new: "create_session random tps universal steady c = Inr s"
  shows "session_inv s" and "configuration s = c"
proof -
  obtain s0 where s0: "make_Session random tps universal steady c = Inr s0"
    and s: "s = initialize (protocol c) s0"
    using new by (auto simp: create_session_unfold and_then_Inr_iff split: if_splits)
  have ramp: "fill_loop 0 BUFFER_SIZE (replicate (unat BUFFER_SIZE) 0) = ramp 0 131072"
    using fill_loop_ramp [of BUFFER_SIZE "replicate 131072 0"] by (simp add: BUFFER_SIZE_value)
  have fields: "configuration s0 = c" "draws s0 = random" "crashed s0 = None"
    "send_buffer s0 = replicate (unat BUFFER_SIZE) 0" "receive_buffer s0 = replicate (unat BUFFER_SIZE) 0"
    "socket s0 = new_socket" "statistics s0 = default_Statistics" "pending s0 = []"
    "mismatches s0 = []" "session_failure s0 = No_error"
    "\<not> is_receive_complete s0" "\<not> is_send_complete s0"
    using s0 by (auto simp: make_Session_def and_then_Inr_iff)
  have zero: "received s0 = 0" "sent s0 = 0"
    by (simp_all add: fields default_Statistics_def default_Size_def)
  show conf: "configuration s = c"
    using s fields by (cases "protocol c")
      (auto simp: initialize_def tcp_initialize_def udp_initialize_def base_initialize_def start_op_def Let_def)
  have "base_ok s"
    using c draws fields zero ramp
    by (cases "protocol c")
      (auto simp: s initialize_def tcp_initialize_def udp_initialize_def base_initialize_def start_op_def
        Let_def base_ok_def streams_ok_def failure_ok_def closing_ok_def new_socket_def BUFFER_SIZE_value)
  moreover have "fresh s" "start_ops s \<noteq> []"
    using fields zero
    by (cases "protocol c";
        auto simp: s initialize_def tcp_initialize_def udp_initialize_def base_initialize_def start_op_def
          Let_def fresh_def lanes)+
  ultimately show "session_inv s" by (simp add: session_inv_def)
qed

end
