(* ===== verification/Pacing.thy ===== *)
theory Pacing
  imports Session_Safety
begin

text \<open>
  How the send lane moves: what a call of \<open>async_send\<close> starts, given what is left of the
  slice. The contract of the virtual functions is extended by this, and yields the rate of
  a whole session and a bound on the number of handlers that a transfer needs.
\<close>

section \<open>The extended contract\<close>

definition send_paced :: "u64 \<Rightarrow> Session \<Rightarrow> Session \<Rightarrow> bool" where
  "send_paced n s s' \<longleftrightarrow>
     sent s' = sent s \<and>
     (if n = 0
      then tx_ops s' = [Wait_send_slice Waiting] \<and> send_throttle s' = delay (send_throttle s)
      else send_throttle s' = send_throttle s \<and>
           (\<exists>left offset m. tx_ops s' = [Send Waiting left offset m] \<and> left \<le> n))"

definition send_finished :: "Session \<Rightarrow> Session \<Rightarrow> bool" where
  "send_finished s s' \<longleftrightarrow> tx_ops s' = [] \<and> send_throttle s' = send_throttle s \<and> sent s' = sent s"

locale paced_class = session_class +
  assumes async_send_paced:
    "tx_turn pr s \<Longrightarrow> sent s < goal s \<Longrightarrow> direction (configuration s) \<noteq> RX \<Longrightarrow>
     send_paced n s (async_send v n s)"
  and finish_send_finished: "tx_turn pr s \<Longrightarrow> send_goal s \<Longrightarrow> send_finished s (finish_send v s)"

lemma delay_send_paced: "tx_ops s = [] \<Longrightarrow> send_paced 0 s (delay_send s)"
  by (simp add: send_paced_def delay_send_def start_op_def tx_ops_def)

lemma start_send_paced:
  "tx_ops s = [] \<Longrightarrow> n \<noteq> 0 \<Longrightarrow> left \<le> n \<Longrightarrow> send_paced n s (start_op (Send Waiting left offset m) s)"
  by (simp add: send_paced_def start_op_def tx_ops_def)

lemma on_send_complete_finished:
  "tx_ops s = [] \<Longrightarrow> send_finished s (on_send_complete close_socket s)"
  by (simp add: send_finished_def on_send_complete_def on_finish_def close_socket_def Let_def tx_ops_def
      del: map_map)

lemma base_finish_send_tx [simp]:
  "tx_ops (base_finish_send s) = tx_ops s" "send_throttle (base_finish_send s) = send_throttle s"
  "sent (base_finish_send s) = sent s"
  "tx_ops (shutdown_send s) = tx_ops s" "send_throttle (shutdown_send s) = send_throttle s"
  "sent (shutdown_send s) = sent s"
  by (simp_all add: base_finish_send_def shutdown_send_def tx_ops_def)

lemma tcp_async_send_paced:
  assumes "tx_ops s = []"
  shows "send_paced n s (tcp_async_send n s)"
  using assms delay_send_paced start_send_paced [OF assms]
  by (simp add: tcp_async_send_def Let_def)

interpretation tcp_paced: paced_class tcp_virtuals TCP
proof
  fix s n assume "tx_turn TCP s"
  then have idle: "tx_ops s = []" by (simp add: tx_turn_def)
  then show "send_paced n s (async_send tcp_virtuals n s)"
    by (simp add: tcp_virtuals_def tcp_async_send_paced)
  show "send_finished s (finish_send tcp_virtuals s)"
    using idle on_send_complete_finished [of "base_finish_send s"]
      on_send_complete_finished [of "shutdown_send (base_finish_send s)"]
    by (simp add: tcp_virtuals_def tcp_finish_send_def Let_def send_finished_def)
qed

lemma udp_async_send_paced:
  assumes "tx_turn UDP s"
  shows "send_paced n s (udp_async_send n s)"
proof (cases "n = 0")
  case True
  then show ?thesis using assms delay_send_paced by (simp add: udp_async_send_def tx_turn_def)
next
  case False
  obtain m s' where draw: "get_max_datagram_size s = (m, s')" by fastforce
  note s' = get_max_datagram_size_bounds [OF assms draw]
  have "s' = s \<or> s' = s\<lparr>draws := \<lambda>i. draws s (Suc i)\<rparr>"
    using draw by (simp add: get_max_datagram_size_def Let_def split: if_splits)
  then have same: "send_throttle s' = send_throttle s" "tx_ops s' = []"
    using assms by (auto simp: tx_turn_def tx_ops_def)
  let ?left = "min n (goal s - sent s)" and ?offset = "ucast (ucast (sent s) :: u8) :: u64"
  have "m \<le> BUFFER_SIZE - ?offset"
    using offset_room [of ?offset "sent s"] s'(2) by (simp add: word_le_nat_alt)
  then have room: "min ?left m \<le> BUFFER_SIZE - ?offset" by (simp add: min.coboundedI2)
  have "send_paced n s' (start_op (Send Waiting ?left ?offset (min ?left m)) s')"
    using same False by (intro start_send_paced) simp_all
  then show ?thesis
    using False room same s'(5) by (simp add: udp_async_send_def Let_def draw send_paced_def)
qed

interpretation udp_paced: paced_class udp_virtuals UDP
proof
  fix s n assume turn: "tx_turn UDP s"
  then have idle: "tx_ops s = []" by (simp add: tx_turn_def)
  from turn show "send_paced n s (async_send udp_virtuals n s)"
    by (simp add: udp_virtuals_def udp_async_send_paced)
  show "send_finished s (finish_send udp_virtuals s)"
    using idle on_send_complete_finished [of "base_finish_send s"]
    by (simp add: udp_virtuals_def udp_finish_send_def send_finished_def)
qed

section \<open>The moves of the send lane\<close>

inductive tx_move :: "operation \<Rightarrow> Session \<Rightarrow> Session \<Rightarrow> bool" where
  slice: "send_throttle t = fst (begin_slice (send_throttle s)) \<Longrightarrow> sent t = sent s \<Longrightarrow>
    send_paced (slice_bytes_count (send_throttle s)) t s' \<Longrightarrow> tx_move (Wait_send_slice Completed) s s'"
| chunk: "k \<noteq> 0 \<Longrightarrow> k \<le> left \<Longrightarrow> unat (sent t) = unat (sent s) + unat k \<Longrightarrow>
    send_throttle t = send_throttle s \<Longrightarrow>
    (if sent t < goal s then send_paced (left - k) t s' else sent t = goal s \<and> send_finished t s') \<Longrightarrow>
    tx_move (Send Completed left offset n) s s'"
| failed: "send_finished s s' \<Longrightarrow> tx_move (Send Completed left offset n) s s'"

lemma abort_send_finished: "tx_ops s = [] \<Longrightarrow> send_finished s (abort_with e s)"
  by (simp add: send_finished_def abort_with_def tx_ops_def)

lemma chunk_sent_throttle: "send_throttle (chunk_sent offset k s) = send_throttle s"
  by (simp add: chunk_sent_def count_sent_def log_sent_def)

context paced_class
begin

lemma send_slice_move:
  assumes turn: "tx_turn pr s" and op: "tx_op_ok s (Wait_send_slice p)" and e: "\<not> is_failure e"
  shows "tx_move (Wait_send_slice Completed) s (on_send_slice (async_send v) e s)"
proof -
  let ?t = "s\<lparr>send_throttle := fst (begin_slice (send_throttle s))\<rparr>"
  have "send_paced (slice_bytes_count (send_throttle s)) ?t (async_send v (slice_bytes_count (send_throttle s)) ?t)"
    using reset_turns(2) [OF turn] op by (intro async_send_paced) (auto simp: tx_op_ok_def)
  then show ?thesis
    using e by (intro tx_move.slice [of ?t]) (simp_all add: on_send_slice_def begin_slice_def)
qed

lemma send_chunk_move:
  assumes turn: "tx_turn pr s" and op: "tx_op_ok s (Send Completed left offset n)"
    and k: "k \<le> n" and e: "\<not> is_failure e" "e \<noteq> Operation_aborted" and pos: "k \<noteq> 0"
  shows "tx_move (Send Completed left offset n) s
    (on_send (async_send v) (finish_send v) e k left (log_sent offset k s))"
proof -
  let ?t = "chunk_sent offset k s"
  note chunk = chunk_sent_turn [OF turn op k]
  have conf: "configuration ?t = configuration s" using chunk by (simp add: tx_frame_def)
  have le: "sent ?t \<le> goal ?t" using chunk(1) by (simp add: tx_turn_def base_ok_def streams_ok_def)
  let ?s' = "if sent ?t < goal ?t then async_send v (left - k) ?t else finish_send v ?t"
  have "if sent ?t < goal s then send_paced (left - k) ?t ?s' else sent ?t = goal s \<and> send_finished ?t ?s'"
    using async_send_paced [OF chunk(1)] finish_send_finished [OF chunk(1)] op conf le
    by (auto simp: tx_op_ok_def send_goal_def)
  then have "tx_move (Send Completed left offset n) s ?s'"
    using pos chunk(3,4) chunk_sent_throttle by (intro tx_move.chunk [of k left ?t])
  then show ?thesis
    using e unfolding on_send_def Let_def chunk_sent_def [symmetric] by simp
qed

lemma tx_handler_move:
  assumes turn: "tx_turn pr s" and op: "tx_op_ok s op" and ok: "allowed pr op ev" and tx: "is_tx op"
  shows "tx_move op s (handle v op ev s)"
proof (cases op)
  case (Wait_send_slice p)
  then have p: "p = Completed"
    using tx_op_ok_progress [OF op] ok by (cases p) (auto simp: allowed_def)
  then obtain e where "ev = Done e" "\<not> is_failure e"
    using ok Wait_send_slice by (cases ev) (auto simp: allowed_def)
  then show ?thesis using send_slice_move [OF turn op [unfolded Wait_send_slice]] Wait_send_slice p by simp
next
  case (Send p left offset n)
  then have p: "p = Completed"
    using tx_op_ok_progress [OF op] ok by (cases p) (auto simp: allowed_def)
  obtain e k where ev: "ev = Wrote e k" "k \<le> n" "e \<noteq> Operation_aborted"
    using ok Send p by (cases ev) (auto simp: allowed_def)
  have n: "n \<noteq> 0" using op Send by (simp add: tx_op_ok_def)
  show ?thesis
  proof (cases "is_failure e")
    case True
    then have "log_sent offset k s = s" using ok Send ev by (simp add: allowed_def log_sent_def unat_eq_zero)
    moreover have "tx_ops s = []" using turn by (simp add: tx_turn_def)
    ultimately show ?thesis
      using True ev Send p abort_send_finished by (auto simp: on_send_def intro!: tx_move.failed)
  next
    case False
    then have "k \<noteq> 0" using ok Send ev n p by (auto simp: allowed_def split: if_splits)
    then show ?thesis
      using send_chunk_move [OF turn op [unfolded Send p] ev(2) False ev(3)] Send p ev(1) by simp
  qed
qed (use tx in auto)

end

text \<open>The same for the handlers that the steps of a session run.\<close>

lemma run_tx_move:
  assumes inv: "session_inv s" and i: "i < length (pending s)"
    and ok: "allowed (protocol (configuration s)) (pending s ! i) ev" and tx: "is_tx (pending s ! i)"
  shows "tx_move (pending s ! i) (without i s) (run_handler i ev s)"
    and "tx_done (without i s) (run_handler i ev s)" and "tx_ops s = [pending s ! i]"
proof -
  note turn = without_tx_turn [OF inv i tx]
  have op: "tx_op_ok (without i s) (pending s ! i)" using turn(2) by (simp add: tx_op_ok_without)
  have run: "run_handler i ev s = handle (virtuals_of (protocol (configuration s))) (pending s ! i) ev (without i s)"
    by (simp add: run_handler_def without_def)
  show "tx_move (pending s ! i) (without i s) (run_handler i ev s)"
    "tx_done (without i s) (run_handler i ev s)"
    using turn(1) op ok tx tcp_paced.tx_handler_move udp_paced.tx_handler_move
      tcp.tx_handler_done udp.tx_handler_done
    unfolding run by (cases "protocol (configuration s)"; simp add: virtuals_of_def)+
  have "pending s ! i \<in> set (tx_ops s)" using i tx by (simp add: tx_ops_def)
  moreover from this have "tx_lane_ok s"
    using inv by (auto simp: session_inv_def fresh_def split: if_splits)
  ultimately show "tx_ops s = [pending s ! i]" by (auto simp: tx_lane_cases)
qed

text \<open>Every other handler leaves the send lane alone, unless it starts the transfer.\<close>

definition tx_same :: "Session \<Rightarrow> Session \<Rightarrow> bool" where
  "tx_same s s' \<longleftrightarrow> tx_ops s' = tx_ops s \<and> sent s' = sent s \<and> send_throttle s' = send_throttle s \<and>
     configuration s' = configuration s \<and> steady_time s' = steady_time s \<and> start_ops s' = start_ops s"

lemma tx_same_refl [simp]: "tx_same s s"
  by (simp add: tx_same_def)

lemma start_timer_simps [simp]:
  "send_throttle (start_timer s) = send_throttle s" "steady_time (start_timer s) = steady_time s"
  by (auto simp: start_timer_def start_op_def crash_def split: sum.splits)

lemma without_tx_same:
  "i < length (pending s) \<Longrightarrow> \<not> is_tx (pending s ! i) \<Longrightarrow>
   \<not> starts (protocol (configuration s)) (pending s ! i) \<Longrightarrow> tx_same s (without i s)"
  by (simp add: tx_same_def without_def lanes filter_remove_other)

lemma other_tx_same:
  assumes "base_ok s"
  shows "tx_same s (on_signal_number e n s)" and "tx_same s (on_timeout e s)" and "tx_same s (start_timer s)"
  using start_timer_same [OF assms]
  by (auto simp: tx_same_def on_signal_number_def on_timeout_def abort_with_def lanes same_base_def
      start_timer_configuration)

lemma run_other_tx_same:
  assumes inv: "session_inv s" and i: "i < length (pending s)"
    and ok: "allowed (protocol (configuration s)) (pending s ! i) ev"
    and other: "\<not> is_tx (pending s ! i)"
    and start: "\<not> starts (protocol (configuration s)) (pending s ! i)"
  shows "tx_same s (run_handler i ev s)"
proof -
  note same = without_tx_same [OF i other start]
  have run: "run_handler i ev s = handle (virtuals_of (protocol (configuration s))) (pending s ! i) ev (without i s)"
    by (simp add: run_handler_def without_def)
  show ?thesis
  proof (cases "is_rx (pending s ! i)")
    case True
    note turn = without_rx_turn [OF inv i True]
    have op: "rx_op_ok (without i s) (pending s ! i)" using turn(2) by (simp add: rx_op_ok_without)
    have "rx_done (without i s) (run_handler i ev s)"
      using turn(1) op ok True tcp.rx_handler_done udp.rx_handler_done
      unfolding run by (cases "protocol (configuration s)"; simp add: virtuals_of_def)
    with same turn(1) show ?thesis by (simp add: tx_same_def rx_done_def rx_frame_def rx_turn_def)
  next
    case False
    have base: "base_ok (without i s)"
      using same_base_ok [OF without_base] inv by (simp add: session_inv_def)
    note others = other_tx_same [OF base]
    have "tx_same (without i s) (run_handler i ev s)"
      unfolding run using others False other start ok
      by (cases "pending s ! i"; cases ev; cases "protocol (configuration s)")
        (auto simp: allowed_def virtuals_of_def tcp_virtuals_def udp_virtuals_def)
    with same show ?thesis by (simp add: tx_same_def)
  qed
qed

text \<open>The start of the transfer.\<close>

definition tx_started :: "Session \<Rightarrow> Session \<Rightarrow> bool" where
  "tx_started s s' \<longleftrightarrow>
     start_ops s' = [] \<and> sent s' = 0 \<and> steady_time s' = steady_time s \<and> configuration s' = configuration s \<and>
     (if direction (configuration s) = RX then tx_ops s' = [] \<and> send_throttle s' = send_throttle s
      else tx_ops s' = [Wait_send_slice Waiting] \<and>
        send_throttle s' = delay (reset (steady_time s) (send_throttle s)))"

context paced_class
begin

lemma start_transfer_started:
  assumes "ready pr s"
  shows "tx_started s (start_transfer (async_receive v) (finish_receive v) (async_send v) (finish_send v) s)"
    (is "tx_started s ?s3")
proof -
  obtain s1 s2 where s1: "s1 = s\<lparr>statistics := (statistics s)\<lparr>start_date := Some (universal_time s)\<rparr>\<rparr>"
    and rx: "rx_done s1 s2" and turn2: "tx_turn pr s2" and zero: "sent s2 = 0" "goal s2 \<noteq> 0"
    and eq: "?s3 = (if direction (configuration s2) = RX then finish_send v s2
      else async_send v 0 (s2\<lparr>send_throttle := reset (steady_time s2) (send_throttle s2)\<rparr>))"
    by (rule start_transfer_split [OF assms])
  have same: "configuration s2 = configuration s" "steady_time s2 = steady_time s"
    "send_throttle s2 = send_throttle s"
    using rx by (auto simp: done_defs s1)
  show ?thesis
  proof (cases "direction (configuration s2) = RX")
    case True
    then show ?thesis
      using finish_send_finished [OF turn2] finish_send_done [OF turn2] same zero
      by (simp add: eq tx_started_def send_goal_def send_finished_def done_defs)
  next
    case False
    let ?s = "s2\<lparr>send_throttle := reset (steady_time s2) (send_throttle s2)\<rparr>"
    have "tx_turn pr ?s" using turn2 by (rule reset_turns(2))
    moreover have "sent ?s < goal ?s" using zero by (simp add: word_gt_0)
    ultimately have "tx_done ?s (async_send v 0 ?s)" "send_paced 0 ?s (async_send v 0 ?s)"
      using False async_send_done async_send_paced by auto
    then show ?thesis
      using False same zero by (simp add: eq tx_started_def send_paced_def done_defs)
  qed
qed

end

lemma run_start_started:
  assumes inv: "session_inv s" and i: "i < length (pending s)"
    and ok: "allowed (protocol (configuration s)) (pending s ! i) ev"
    and start: "starts (protocol (configuration s)) (pending s ! i)"
  shows "tx_started s (run_handler i ev s)"
proof (cases "protocol (configuration s)")
  case TCP
  then obtain p e where "pending s ! i = Connect p" "ev = Done e"
    using start ok by (cases ev) (auto simp: starts_iff allowed_def)
  then show ?thesis
    using tcp_paced.start_transfer_started [of "without i s"] without_ready [OF inv i start] TCP
    by (simp add: tx_started_def run_handler_def virtuals_of_def without_def tcp_virtuals_def
        tcp_start_transfer_def)
next
  case UDP
  then obtain p e where "pending s ! i = Posted p" "ev = Done e"
    using start ok by (cases ev) (auto simp: starts_iff allowed_def)
  then show ?thesis
    using udp_paced.start_transfer_started [of "start_timer (without i s)"]
      ready_start_timer [OF without_ready [OF inv i start]] UDP
      start_timer_configuration [of "without i s"]
    by (simp add: tx_started_def run_handler_def virtuals_of_def without_def udp_virtuals_def
        udp_start_transfer_def)
qed

section \<open>Every action, seen from the send lane\<close>

text \<open>Whether an action runs a handler of the send lane.\<close>

fun sends :: "action \<Rightarrow> Session \<Rightarrow> bool" where
  "sends (Run i ev) s \<longleftrightarrow> is_tx (pending s ! i)"
| "sends _ s \<longleftrightarrow> False"

text \<open>What does not change in an action that does not move the lane.\<close>

definition tx_kept :: "Session \<Rightarrow> Session \<Rightarrow> bool" where
  "tx_kept s s' \<longleftrightarrow> sent s' = sent s \<and> send_throttle s' = send_throttle s \<and>
     configuration s' = configuration s \<and> steady_time s \<le> steady_time s' \<and>
     (start_ops s' = [] \<longleftrightarrow> start_ops s = [])"

inductive tx_view :: "bool \<Rightarrow> Session \<Rightarrow> Session \<Rightarrow> bool" where
  idle: "tx_ops s' = tx_ops s \<Longrightarrow> tx_kept s s' \<Longrightarrow> tx_view False s s'"
| ended: "tx_ops s = [op] \<Longrightarrow> tx_ops s' = [completed op] \<Longrightarrow> may_complete s op \<Longrightarrow> tx_kept s s' \<Longrightarrow>
    tx_view False s s'"
| moved: "tx_ops s = [op] \<Longrightarrow> tx_op_ok s op \<Longrightarrow> start_ops s = [] \<Longrightarrow> start_ops s' = [] \<Longrightarrow>
    sent t = sent s \<Longrightarrow> send_throttle t = send_throttle s \<Longrightarrow> configuration t = configuration s \<Longrightarrow>
    tx_move op t s' \<Longrightarrow> configuration s' = configuration s \<Longrightarrow> steady_time s' = steady_time s \<Longrightarrow> tx_view True s s'"
| started: "start_ops s \<noteq> [] \<Longrightarrow> tx_started s s' \<Longrightarrow> tx_view False s s'"

lemma tx_same_view: "tx_same s s' \<Longrightarrow> tx_view False s s'"
  by (auto simp: tx_same_def tx_kept_def intro: tx_view.idle)

lemma end_wait_kept:
  assumes i: "i < length (pending s)"
  shows "tx_kept s (end_wait i s)"
proof -
  have "length (filter (starts (protocol (configuration s))) ((pending s)[i := completed (pending s ! i)])) =
      length (filter (starts (protocol (configuration s))) (pending s))"
    using i by (simp add: filter_update_nth lane_split [of i "pending s" "starts (protocol (configuration s))"])
  then show ?thesis by (simp add: tx_kept_def start_ops_def end_wait_def flip: length_0_conv)
qed

lemma end_wait_view:
  assumes inv: "session_inv s" and i: "i < length (pending s)" and may: "may_complete s (pending s ! i)"
  shows "tx_view False s (end_wait i s)"
proof -
  note kept = end_wait_kept [OF i]
  show ?thesis
  proof (cases "is_tx (pending s ! i)")
    case False
    then have "tx_ops (end_wait i s) = tx_ops s"
      using i by (simp add: tx_ops_def filter_update_nth lane_split [of i "pending s" is_tx])
    with kept show ?thesis by (rule tx_view.idle [rotated])
  next
    case True
    have "pending s ! i \<in> set (tx_ops s)" using i True by (simp add: tx_ops_def)
    moreover from this have "tx_lane_ok s" using inv by (auto simp: session_inv_def fresh_def split: if_splits)
    ultimately have only: "tx_ops s = [pending s ! i]" by (auto simp: tx_lane_cases)
    then have "filter is_tx (take i (pending s)) = []" "filter is_tx (drop (Suc i) (pending s)) = []"
      using lane_split [of i "pending s" is_tx] i True by (simp_all add: tx_ops_def append_eq_Cons_conv)
    then have "tx_ops (end_wait i s) = [completed (pending s ! i)]"
      using i True by (simp add: tx_ops_def filter_update_nth)
    with only may kept show ?thesis by (intro tx_view.ended) simp_all
  qed
qed

lemma perform_view:
  assumes inv: "session_inv s" and act: "perform a s = Some s'"
  shows "tx_view (sends a s) s s'"
proof (cases a)
  case (Clock u t)
  then show ?thesis using act by (auto simp: tx_kept_def lanes split: if_splits intro!: tx_view.idle)
next
  case Ask_exit
  then show ?thesis using act by (auto simp: tx_kept_def lanes intro!: tx_view.idle)
next
  case (End i)
  then show ?thesis using act inv by (auto simp: end_wait_view split: if_splits)
next
  case (Run i ev)
  then have i: "i < length (pending s)" and ok: "allowed (protocol (configuration s)) (pending s ! i) ev"
    and s': "s' = run_handler i ev s"
    using act by (auto split: if_splits)
  show ?thesis
  proof (cases "is_tx (pending s ! i)")
    case True
    note move = run_tx_move [OF inv i ok True]
    have "start_ops s = []" "tx_op_ok s (pending s ! i)"
      using without_tx_turn [OF inv i True] i lanes_disjoint(4) [OF True]
      by (auto simp: tx_turn_def start_ops_def without_def filter_remove_other)
    moreover have "start_ops s' = []" "configuration s' = configuration s" "steady_time s' = steady_time s"
      using move(2) by (simp_all add: s' tx_done_def tx_frame_def without_def)
    moreover have "sent (without i s) = sent s" "send_throttle (without i s) = send_throttle s"
      "configuration (without i s) = configuration s"
      by (simp_all add: without_def)
    ultimately have "tx_view True s s'"
      using move(1,3) unfolding s' by (intro tx_view.moved)
    then show ?thesis using Run True by simp
  next
    case False
    show ?thesis
    proof (cases "starts (protocol (configuration s)) (pending s ! i)")
      case True
      then have "start_ops s \<noteq> []" using i by (auto simp: start_ops_def filter_empty_conv)
      then show ?thesis
        using run_start_started [OF inv i ok True] Run s' False by (simp add: tx_view.started)
    next
      case other: False
      then show ?thesis
        using tx_same_view [OF run_other_tx_same [OF inv i ok False other]] Run s' False by simp
    qed
  qed
qed

end
