(* ===== verification/Receive_Pacing.thy ===== *)
theory Receive_Pacing
  imports Pacing
begin

text \<open>
  How the receive lane moves: the counterpart of \<open>Pacing\<close>. The lane of a TCP session has one
  operation more, the wait for the end of the stream.
\<close>

section \<open>The extended contract\<close>

definition receive_paced :: "u64 \<Rightarrow> Session \<Rightarrow> Session \<Rightarrow> bool" where
  "receive_paced n s s' \<longleftrightarrow>
     received s' = received s \<and>
     (if n = 0
      then rx_ops s' = [Wait_receive_slice Waiting] \<and> receive_throttle s' = delay (receive_throttle s)
      else receive_throttle s' = receive_throttle s \<and> (\<exists>m. rx_ops s' = [Receive Waiting n m]))"

definition receive_finished :: "Session \<Rightarrow> Session \<Rightarrow> bool" where
  "receive_finished s s' \<longleftrightarrow> rx_ops s' \<in> {[], [Receive_eof Waiting]} \<and>
     receive_throttle s' = receive_throttle s \<and> received s' = received s"

definition receive_over :: "Session \<Rightarrow> Session \<Rightarrow> bool" where
  "receive_over s s' \<longleftrightarrow> rx_ops s' = [] \<and> receive_throttle s' = receive_throttle s \<and> received s' = received s"

locale receiving_class = session_class +
  assumes async_receive_paced: "rx_turn pr s \<Longrightarrow> receive_paced n s (async_receive v n s)"
  and finish_receive_finished: "rx_turn pr s \<Longrightarrow> receive_finished s (finish_receive v s)"
  and on_eof_over: "pr = TCP \<Longrightarrow> rx_turn pr s \<Longrightarrow> receive_over s (on_eof v e n s)"

lemma rx_idle: "rx_turn pr s \<Longrightarrow> rx_ops s = []"
  by (simp add: rx_turn_def)

lemma delay_receive_paced: "rx_ops s = [] \<Longrightarrow> receive_paced 0 s (delay_receive s)"
  by (simp add: receive_paced_def delay_receive_def start_op_def rx_ops_def)

lemma start_receive_paced:
  "rx_ops s = [] \<Longrightarrow> n \<noteq> 0 \<Longrightarrow> receive_paced n s (start_op (Receive Waiting n m) s)"
  by (simp add: receive_paced_def start_op_def rx_ops_def)

lemma on_receive_complete_over:
  "rx_ops s = [] \<Longrightarrow> receive_over s (on_receive_complete close_socket s)"
  by (simp add: receive_over_def on_receive_complete_def on_finish_def close_socket_def Let_def rx_ops_def
      del: map_map)

lemma base_finish_receive_rx [simp]:
  "rx_ops (base_finish_receive s) = rx_ops s" "receive_throttle (base_finish_receive s) = receive_throttle s"
  "received (base_finish_receive s) = received s"
  "rx_ops (shutdown_send s) = rx_ops s" "receive_throttle (shutdown_send s) = receive_throttle s"
  "received (shutdown_send s) = received s"
  by (simp_all add: base_finish_receive_def shutdown_send_def rx_ops_def)

lemma abort_over: "rx_ops s = [] \<Longrightarrow> receive_over s (abort_with e s)"
  by (simp add: receive_over_def abort_with_def rx_ops_def)

interpretation tcp_receiving: receiving_class tcp_virtuals TCP
proof
  fix s n e assume turn: "rx_turn TCP s"
  note idle = rx_idle [OF turn]
  show "receive_paced n s (async_receive tcp_virtuals n s)"
    using delay_receive_paced [OF idle] start_receive_paced [OF idle]
    by (simp add: tcp_virtuals_def tcp_async_receive_def)
  show "receive_finished s (finish_receive tcp_virtuals s)"
    using idle by (simp add: tcp_virtuals_def tcp_finish_receive_def Let_def receive_finished_def start_op_def rx_ops_def
        base_finish_receive_def shutdown_send_def)
  show "receive_over s (on_eof tcp_virtuals e n s)"
    using on_receive_complete_over [of s] on_receive_complete_over [of "shutdown_send s"]
      abort_over [of s] abort_over [of "shutdown_send s"] idle
    by (simp add: tcp_virtuals_def tcp_on_eof_def tcp_finish_def [abs_def] Let_def receive_over_def)
qed

interpretation udp_receiving: receiving_class udp_virtuals UDP
proof
  fix s n assume turn: "rx_turn UDP s"
  note idle = rx_idle [OF turn]
  show "receive_paced n s (async_receive udp_virtuals n s)"
    using delay_receive_paced [OF idle] start_receive_paced [OF idle]
    by (simp add: udp_virtuals_def udp_async_receive_def)
  show "receive_finished s (finish_receive udp_virtuals s)"
    using idle on_receive_complete_over [of "base_finish_receive s"]
    by (simp add: udp_virtuals_def udp_finish_receive_def udp_finish_def [abs_def] receive_finished_def
        receive_over_def)
qed simp

section \<open>The moves of the receive lane\<close>

inductive rx_move :: "Protocol \<Rightarrow> operation \<Rightarrow> Session \<Rightarrow> Session \<Rightarrow> bool" for pr where
  slice: "receive_throttle t = fst (begin_slice (receive_throttle s)) \<Longrightarrow> received t = received s \<Longrightarrow>
    receive_paced (slice_bytes_count (receive_throttle s)) t s' \<Longrightarrow>
    rx_move pr (Wait_receive_slice Completed) s s'"
| chunk: "(pr = TCP \<longrightarrow> k \<noteq> 0) \<Longrightarrow> k \<le> left \<Longrightarrow> unat (received t) = unat (received s) + unat k \<Longrightarrow>
    receive_throttle t = receive_throttle s \<Longrightarrow>
    (if received t < goal s then receive_paced (left - k) t s' else receive_finished t s') \<Longrightarrow>
    rx_move pr (Receive Completed left n) s s'"
| failed: "receive_over s s' \<Longrightarrow> rx_move pr (Receive Completed left n) s s'"
| eof: "receive_over s s' \<Longrightarrow> rx_move pr (Receive_eof Completed) s s'"

lemma verify_byte_fields:
  "receive_throttle (verify_byte i b s) = receive_throttle s" "statistics (verify_byte i b s) = statistics s"
  "configuration (verify_byte i b s) = configuration s" "pending (verify_byte i b s) = pending s"
  "socket (verify_byte i b s) = socket s" "is_send_complete (verify_byte i b s) = is_send_complete s"
  "is_receive_complete (verify_byte i b s) = is_receive_complete s"
  by (simp_all add: verify_byte_def crash_def abort_with_def Let_def)

lemma verify_loop_fields:
  "receive_throttle (verify_loop i n b s) = receive_throttle s \<and> statistics (verify_loop i n b s) = statistics s \<and>
   configuration (verify_loop i n b s) = configuration s \<and> pending (verify_loop i n b s) = pending s \<and>
   socket (verify_loop i n b s) = socket s \<and> is_send_complete (verify_loop i n b s) = is_send_complete s \<and>
   is_receive_complete (verify_loop i n b s) = is_receive_complete s"
proof (induction i n b s rule: verify_loop.induct)
  case (1 i n b s)
  then show ?case by (subst (1 2 3 4 5 6 7) verify_loop.simps) (simp add: verify_byte_fields)
qed

lemma verify_bytes_fields:
  "receive_throttle (verify_bytes n s) = receive_throttle s" "statistics (verify_bytes n s) = statistics s"
  "configuration (verify_bytes n s) = configuration s" "pending (verify_bytes n s) = pending s"
  "socket (verify_bytes n s) = socket s" "is_send_complete (verify_bytes n s) = is_send_complete s"
  "is_receive_complete (verify_bytes n s) = is_receive_complete s"
  by (simp_all add: verify_bytes_def Let_def verify_byte_fields verify_loop_fields split: Verify.splits)

lemma chunk_received_fields:
  "configuration (chunk_received data s) = configuration s"
  "receive_throttle (chunk_received data s) = receive_throttle s"
  "received (chunk_received data s) = received s + word_of_nat (length data)"
  by (simp_all add: chunk_received_def count_received_def log_received_def store_received_def
      verify_bytes_fields)

context receiving_class
begin

lemma receive_slice_move:
  assumes turn: "rx_turn pr s" and e: "\<not> is_failure e"
  shows "rx_move pr (Wait_receive_slice Completed) s (on_receive_slice (async_receive v) e s)"
proof -
  let ?t = "s\<lparr>receive_throttle := fst (begin_slice (receive_throttle s))\<rparr>"
  have "receive_paced (slice_bytes_count (receive_throttle s)) ?t
      (async_receive v (slice_bytes_count (receive_throttle s)) ?t)"
    using reset_turns(1) [OF turn] by (rule async_receive_paced)
  then show ?thesis
    using e by (intro rx_move.slice [of ?t]) (simp_all add: on_receive_slice_def begin_slice_def)
qed

lemma receive_chunk_move:
  assumes turn: "rx_turn pr s" and op: "rx_op_ok s (Receive Completed left n)"
    and len: "length data \<le> unat n" and e: "\<not> is_failure e" "e \<noteq> Operation_aborted" and tcp: "pr = TCP \<Longrightarrow> data \<noteq> []"
  shows "rx_move pr (Receive Completed left n) s
    (on_receive (async_receive v) (finish_receive v) e (word_of_nat (length data)) left
      (log_received data (store_received data s)))"
proof -
  let ?t = "chunk_received data s" and ?k = "word_of_nat (length data) :: u64"
  have n: "n = min BUFFER_SIZE left" and lt: "received s < goal s" and dir: "direction (configuration s) \<noteq> TX"
    using op by (auto simp: rx_op_ok_def)
  have fits: "length data \<le> 131072" "length data \<le> unat left"
    using len n by (simp_all add: unat_min_word BUFFER_SIZE_value)
  then have k: "unat ?k = length data" by (simp add: unat_of_nat)
  note turn' = chunk_received_turn(1) [OF turn lt dir fits(1) tcp]
  have "unat (received ?t) = unat (received s) + unat ?k"
    using received_no_wrap [of s "length data"] turn lt fits(1) k
    by (simp add: chunk_received_fields rx_turn_def)
  moreover have "pr = TCP \<longrightarrow> ?k \<noteq> 0" using k tcp by (auto simp: unat_eq_0 [symmetric])
  moreover have "?k \<le> left" using fits(2) k by (simp add: word_le_nat_alt)
  moreover have "if received ?t < goal s then receive_paced (left - ?k) ?t (async_receive v (left - ?k) ?t)
      else receive_finished ?t (finish_receive v ?t)"
    using async_receive_paced [OF turn'] finish_receive_finished [OF turn'] by simp
  ultimately have "rx_move pr (Receive Completed left n) s
      (if received ?t < goal ?t then async_receive v (left - ?k) ?t else finish_receive v ?t)"
    by (intro rx_move.chunk [of pr ?k left ?t]) (simp_all add: chunk_received_fields)
  moreover have "e \<noteq> Eof" using e by auto
  ultimately show ?thesis
    using e unfolding on_receive_def Let_def chunk_received_def [symmetric] by simp
qed

lemma rx_handler_move:
  assumes turn: "rx_turn pr s" and op: "rx_op_ok s op" and ok: "allowed pr op ev" and rx: "is_rx op"
  shows "rx_move pr op s (handle v op ev s)"
proof (cases op)
  case (Wait_receive_slice p)
  then have p: "p = Completed"
    using rx_op_ok_progress [OF op] ok by (cases p) (auto simp: allowed_def)
  then obtain e where "ev = Done e" "\<not> is_failure e"
    using ok Wait_receive_slice by (cases ev) (auto simp: allowed_def)
  then show ?thesis using receive_slice_move [OF turn] Wait_receive_slice p by simp
next
  case (Receive p left n)
  then have p: "p = Completed"
    using rx_op_ok_progress [OF op] ok by (cases p) (auto simp: allowed_def)
  obtain e data where ev: "ev = Got e data" "length data \<le> unat n" "e \<noteq> Operation_aborted"
    using ok Receive p by (cases ev) (auto simp: allowed_def)
  show ?thesis
  proof (cases "is_failure e")
    case True
    then have "log_received data (store_received data s) = s"
      using ok Receive ev by (simp add: allowed_def log_received_def store_received_def)
    then show ?thesis
      using True ev Receive p abort_over [OF rx_idle [OF turn]]
      by (auto simp: on_receive_def intro!: rx_move.failed)
  next
    case False
    then have "pr = TCP \<Longrightarrow> data \<noteq> []" using ok Receive ev by (auto simp: allowed_def)
    then show ?thesis
      using receive_chunk_move [OF turn op [unfolded Receive p] ev(2) False ev(3)] Receive p ev(1) by simp
  qed
next
  case (Receive_eof p)
  then have p: "p = Completed" and pr: "pr = TCP"
    using rx_op_ok_progress [OF op] ok op turn by (cases p; auto simp: allowed_def rx_op_ok_def rx_turn_def)+
  obtain e data where ev: "ev = Got e data" "length data \<le> 1"
    using ok Receive_eof by (cases ev) (auto simp: allowed_def)
  have "rx_turn pr (store_received data s)"
    using turn ev(2) by (clarsimp simp: rx_turn_def store_received_def base_unfolds lanes)
  from on_eof_over [OF pr this] have "receive_over s (handle v op ev s)"
    using ev Receive_eof by (simp add: receive_over_def store_received_def rx_ops_def)
  then show ?thesis using Receive_eof p by (simp add: rx_move.eof)
qed (use rx in auto)

end

lemma rx_only:
  assumes inv: "session_inv s" and i: "i < length (pending s)" and rx: "is_rx (pending s ! i)"
  shows "rx_ops s = [pending s ! i]"
proof -
  have "pending s ! i \<in> set (rx_ops s)" using i rx by (simp add: rx_ops_def)
  moreover from this have "rx_lane_ok s"
    using inv by (auto simp: session_inv_def fresh_def split: if_splits)
  ultimately show ?thesis by (auto simp: rx_lane_cases)
qed

lemma run_rx_move:
  assumes inv: "session_inv s" and i: "i < length (pending s)"
    and ok: "allowed (protocol (configuration s)) (pending s ! i) ev" and rx: "is_rx (pending s ! i)"
  shows "rx_move (protocol (configuration s)) (pending s ! i) (without i s) (run_handler i ev s)"
    and "rx_done (without i s) (run_handler i ev s)"
proof -
  note turn = without_rx_turn [OF inv i rx]
  have op: "rx_op_ok (without i s) (pending s ! i)" using turn(2) by (simp add: rx_op_ok_without)
  have run: "run_handler i ev s = handle (virtuals_of (protocol (configuration s))) (pending s ! i) ev (without i s)"
    by (simp add: run_handler_def without_def)
  show "rx_move (protocol (configuration s)) (pending s ! i) (without i s) (run_handler i ev s)"
    "rx_done (without i s) (run_handler i ev s)"
    using turn(1) op ok rx tcp_receiving.rx_handler_move udp_receiving.rx_handler_move
      tcp.rx_handler_done udp.rx_handler_done
    unfolding run by (cases "protocol (configuration s)"; simp add: virtuals_of_def)+
qed

text \<open>Every other handler leaves the receive lane alone, unless it starts the transfer.\<close>

definition rx_same :: "Session \<Rightarrow> Session \<Rightarrow> bool" where
  "rx_same s s' \<longleftrightarrow> rx_ops s' = rx_ops s \<and> received s' = received s \<and> receive_throttle s' = receive_throttle s \<and>
     configuration s' = configuration s \<and> steady_time s' = steady_time s \<and> start_ops s' = start_ops s"

lemma rx_same_refl [simp]: "rx_same s s"
  by (simp add: rx_same_def)

lemma start_timer_receive [simp]: "receive_throttle (start_timer s) = receive_throttle s"
  by (auto simp: start_timer_def start_op_def crash_def split: sum.splits)

lemma without_rx_same:
  "i < length (pending s) \<Longrightarrow> \<not> is_rx (pending s ! i) \<Longrightarrow>
   \<not> starts (protocol (configuration s)) (pending s ! i) \<Longrightarrow> rx_same s (without i s)"
  by (simp add: rx_same_def without_def lanes filter_remove_other)

lemma other_rx_same:
  assumes "base_ok s"
  shows "rx_same s (on_signal_number e n s)" and "rx_same s (on_timeout e s)" and "rx_same s (start_timer s)"
  using start_timer_same [OF assms]
  by (auto simp: rx_same_def on_signal_number_def on_timeout_def abort_with_def lanes same_base_def
      start_timer_configuration)

lemma run_other_rx_same:
  assumes inv: "session_inv s" and i: "i < length (pending s)"
    and ok: "allowed (protocol (configuration s)) (pending s ! i) ev"
    and other: "\<not> is_rx (pending s ! i)"
    and start: "\<not> starts (protocol (configuration s)) (pending s ! i)"
  shows "rx_same s (run_handler i ev s)"
proof -
  note same = without_rx_same [OF i other start]
  have run: "run_handler i ev s = handle (virtuals_of (protocol (configuration s))) (pending s ! i) ev (without i s)"
    by (simp add: run_handler_def without_def)
  have "rx_same (without i s) (run_handler i ev s)"
  proof (cases "is_tx (pending s ! i)")
    case True
    note turn = without_tx_turn [OF inv i True]
    have "tx_done (without i s) (run_handler i ev s)"
      by (rule run_tx_move(2) [OF inv i ok True])
    with turn(1) show ?thesis by (simp add: rx_same_def tx_done_def tx_frame_def tx_turn_def)
  next
    case False
    have base: "base_ok (without i s)"
      using same_base_ok [OF without_base] inv by (simp add: session_inv_def)
    note others = other_rx_same [OF base]
    show ?thesis
      unfolding run using others False other start ok
      by (cases "pending s ! i"; cases ev; cases "protocol (configuration s)")
        (auto simp: allowed_def virtuals_of_def tcp_virtuals_def udp_virtuals_def)
  qed
  with same show ?thesis by (simp add: rx_same_def)
qed

text \<open>The start of the transfer.\<close>

definition rx_started :: "Session \<Rightarrow> Session \<Rightarrow> bool" where
  "rx_started s s' \<longleftrightarrow>
     start_ops s' = [] \<and> received s' = 0 \<and> steady_time s' = steady_time s \<and> configuration s' = configuration s \<and>
     (if direction (configuration s) = TX
      then rx_ops s' \<in> {[], [Receive_eof Waiting]} \<and> receive_throttle s' = receive_throttle s
      else rx_ops s' = [Wait_receive_slice Waiting] \<and>
        receive_throttle s' = delay (reset (steady_time s) (receive_throttle s)))"

context receiving_class
begin

lemma start_transfer_rx_started:
  assumes "ready pr s"
  shows "rx_started s (start_transfer (async_receive v) (finish_receive v) (async_send v) (finish_send v) s)"
proof -
  define s1 where "s1 = s\<lparr>statistics := (statistics s)\<lparr>start_date := Some (universal_time s)\<rparr>\<rparr>"
  have ready: "ready pr s1" unfolding s1_def using assms by (rule ready_start_date)
  then have turns: "rx_turn pr s1" "tx_turn pr s1" and zero: "received s1 = 0" "sent s1 = 0"
    by (auto simp: ready_def)
  have goal: "goal s1 \<noteq> 0" using turns by (auto simp: rx_turn_def base_ok_def valid_configuration_def)
  define s2 where "s2 = (if direction (configuration s1) = TX then finish_receive v s1
    else async_receive v 0 (s1\<lparr>receive_throttle := reset (steady_time s1) (receive_throttle s1)\<rparr>))"
  have rx: "rx_done s1 s2 \<and> (if direction (configuration s1) = TX then receive_finished s1 s2
      else receive_paced 0 (s1\<lparr>receive_throttle := reset (steady_time s1) (receive_throttle s1)\<rparr>) s2)"
  proof (cases "direction (configuration s1) = TX")
    case True
    then show ?thesis
      using finish_receive_done [OF turns(1)] finish_receive_finished [OF turns(1)]
      by (simp add: s2_def receive_goal_def)
  next
    case False
    let ?s = "s1\<lparr>receive_throttle := reset (steady_time s1) (receive_throttle s1)\<rparr>"
    have "rx_done ?s (async_receive v 0 ?s)"
      using False zero goal reset_turns(1) [OF turns(1)]
      by (intro async_receive_done) (auto simp: word_gt_0)
    then show ?thesis
      using False rx_done_after [OF reset_turns(3)] async_receive_paced [OF reset_turns(1) [OF turns(1)]]
      by (simp add: s2_def)
  qed
  then have turn2: "tx_turn pr s2" using turns(2) rx_done_tx_turn by blast
  define s3 where "s3 = (if direction (configuration s2) = RX then finish_send v s2
       else async_send v 0 (s2\<lparr>send_throttle := reset (steady_time s2) (send_throttle s2)\<rparr>))"
  have zero2: "sent s2 = 0" "goal s2 \<noteq> 0" using rx zero goal by (auto simp: done_defs)
  have "tx_done s2 s3"
  proof (cases "direction (configuration s2) = RX")
    case True
    then show ?thesis using finish_send_done [OF turn2] by (simp add: s3_def send_goal_def)
  next
    case False
    let ?s = "s2\<lparr>send_throttle := reset (steady_time s2) (send_throttle s2)\<rparr>"
    have "tx_done ?s (async_send v 0 ?s)"
      using False zero2 reset_turns(2) [OF turn2] by (intro async_send_done) (auto simp: word_gt_0)
    then show ?thesis using False tx_done_after [OF reset_turns(4)] by (simp add: s3_def)
  qed
  moreover have "start_transfer (async_receive v) (finish_receive v) (async_send v) (finish_send v) s = s3"
    unfolding start_transfer_def Let_def s1_def s2_def s3_def by (rule refl)
  ultimately show ?thesis
    using rx zero
    by (auto simp: rx_started_def done_defs receive_finished_def receive_paced_def s1_def split: if_splits)
qed

end

lemma rx_started_cong:
  "configuration t = configuration s \<Longrightarrow> steady_time t = steady_time s \<Longrightarrow>
   receive_throttle t = receive_throttle s \<Longrightarrow> rx_started t s' = rx_started s s'"
  by (simp only: rx_started_def)

lemma run_start_rx_started:
  assumes inv: "session_inv s" and i: "i < length (pending s)"
    and ok: "allowed (protocol (configuration s)) (pending s ! i) ev"
    and start: "starts (protocol (configuration s)) (pending s ! i)"
  shows "rx_started s (run_handler i ev s)"
proof (cases "protocol (configuration s)")
  case TCP
  then obtain p e where op: "pending s ! i = Connect p" "ev = Done e"
    using start ok by (cases ev) (auto simp: starts_iff allowed_def)
  have "rx_started (without i s) (run_handler i ev s)"
    using tcp_receiving.start_transfer_rx_started [of "without i s"] without_ready [OF inv i start] TCP op
    by (simp add: run_handler_def virtuals_of_def without_def tcp_virtuals_def tcp_start_transfer_def)
  moreover have "rx_started (without i s) (run_handler i ev s) = rx_started s (run_handler i ev s)"
    by (rule rx_started_cong) (simp_all add: without_def)
  ultimately show ?thesis by simp
next
  case UDP
  then obtain p e where op: "pending s ! i = Posted p" "ev = Done e"
    using start ok by (cases ev) (auto simp: starts_iff allowed_def)
  have "rx_started (start_timer (without i s)) (run_handler i ev s)"
    using udp_receiving.start_transfer_rx_started [of "start_timer (without i s)"]
      ready_start_timer [OF without_ready [OF inv i start]] UDP op
    by (simp add: run_handler_def virtuals_of_def without_def udp_virtuals_def udp_start_transfer_def)
  moreover have "rx_started (start_timer (without i s)) (run_handler i ev s) = rx_started s (run_handler i ev s)"
    by (rule rx_started_cong) (simp_all add: start_timer_configuration without_def)
  ultimately show ?thesis by simp
qed

section \<open>Every action, seen from the receive lane\<close>

fun receives :: "action \<Rightarrow> Session \<Rightarrow> bool" where
  "receives (Run i ev) s \<longleftrightarrow> is_rx (pending s ! i)"
| "receives _ s \<longleftrightarrow> False"

definition rx_kept :: "Session \<Rightarrow> Session \<Rightarrow> bool" where
  "rx_kept s s' \<longleftrightarrow> received s' = received s \<and> receive_throttle s' = receive_throttle s \<and>
     configuration s' = configuration s \<and> steady_time s \<le> steady_time s' \<and>
     (start_ops s' = [] \<longleftrightarrow> start_ops s = [])"

inductive rx_view :: "bool \<Rightarrow> Session \<Rightarrow> Session \<Rightarrow> bool" where
  idle: "rx_ops s' = rx_ops s \<Longrightarrow> rx_kept s s' \<Longrightarrow> rx_view False s s'"
| ended: "rx_ops s = [op] \<Longrightarrow> rx_ops s' = [completed op] \<Longrightarrow> may_complete s op \<Longrightarrow> rx_kept s s' \<Longrightarrow>
    rx_view False s s'"
| moved: "rx_ops s = [op] \<Longrightarrow> rx_op_ok s op \<Longrightarrow> start_ops s = [] \<Longrightarrow> start_ops s' = [] \<Longrightarrow>
    received t = received s \<Longrightarrow> receive_throttle t = receive_throttle s \<Longrightarrow> configuration t = configuration s \<Longrightarrow>
    rx_move (protocol (configuration s)) op t s' \<Longrightarrow> configuration s' = configuration s \<Longrightarrow>
    steady_time s' = steady_time s \<Longrightarrow> rx_view True s s'"
| started: "start_ops s \<noteq> [] \<Longrightarrow> rx_started s s' \<Longrightarrow> rx_view False s s'"

lemma rx_same_view: "rx_same s s' \<Longrightarrow> rx_view False s s'"
  by (auto simp: rx_same_def rx_kept_def intro: rx_view.idle)

lemma end_wait_rx_kept: "i < length (pending s) \<Longrightarrow> rx_kept s (end_wait i s)"
  using end_wait_kept [of i s] by (simp add: tx_kept_def rx_kept_def end_wait_def)

lemma end_wait_rx_view:
  assumes inv: "session_inv s" and i: "i < length (pending s)" and may: "may_complete s (pending s ! i)"
  shows "rx_view False s (end_wait i s)"
proof (cases "is_rx (pending s ! i)")
  case False
  then have "rx_ops (end_wait i s) = rx_ops s"
    using i by (simp add: rx_ops_def filter_update_nth lane_split [of i "pending s" is_rx])
  then show ?thesis using end_wait_rx_kept [OF i] by (rule rx_view.idle)
next
  case True
  note only = rx_only [OF inv i True]
  then have "filter is_rx (take i (pending s)) = []" "filter is_rx (drop (Suc i) (pending s)) = []"
    using lane_split [of i "pending s" is_rx] i True by (simp_all add: rx_ops_def append_eq_Cons_conv)
  then have "rx_ops (end_wait i s) = [completed (pending s ! i)]"
    using i True by (simp add: rx_ops_def filter_update_nth)
  with only may end_wait_rx_kept [OF i] show ?thesis by (intro rx_view.ended) simp_all
qed

lemma run_rx_view:
  assumes inv: "session_inv s" and i: "i < length (pending s)"
    and ok: "allowed (protocol (configuration s)) (pending s ! i) ev" and rx: "is_rx (pending s ! i)"
  shows "rx_view True s (run_handler i ev s)"
proof -
  let ?s' = "run_handler i ev s"
  note move = run_rx_move [OF inv i ok rx]
  have "start_ops s = []" "rx_op_ok s (pending s ! i)"
    using without_rx_turn [OF inv i rx] i lanes_disjoint(2) [OF rx]
    by (auto simp: rx_turn_def start_ops_def without_def filter_remove_other)
  moreover have "start_ops ?s' = []" "configuration ?s' = configuration s" "steady_time ?s' = steady_time s"
    using move(2) without_rx_turn(1) [OF inv i rx]
    by (simp_all add: rx_done_def rx_frame_def rx_turn_def without_def)
  moreover have "received (without i s) = received s" "receive_throttle (without i s) = receive_throttle s"
    "configuration (without i s) = configuration s"
    by (simp_all add: without_def)
  ultimately show ?thesis
    using move(1) rx_only [OF inv i rx] by (intro rx_view.moved)
qed

lemma perform_rx_view:
  assumes inv: "session_inv s" and act: "perform a s = Some s'"
  shows "rx_view (receives a s) s s'"
proof (cases a)
  case (Clock u t)
  then show ?thesis using act by (auto simp: rx_kept_def lanes split: if_splits intro!: rx_view.idle)
next
  case Ask_exit
  then show ?thesis using act by (auto simp: rx_kept_def lanes intro!: rx_view.idle)
next
  case (End i)
  then show ?thesis using act inv by (auto simp: end_wait_rx_view split: if_splits)
next
  case (Run i ev)
  then have i: "i < length (pending s)" and ok: "allowed (protocol (configuration s)) (pending s ! i) ev"
    and s': "s' = run_handler i ev s"
    using act by (auto split: if_splits)
  consider "is_rx (pending s ! i)" | "\<not> is_rx (pending s ! i)" "starts (protocol (configuration s)) (pending s ! i)"
    | "\<not> is_rx (pending s ! i)" "\<not> starts (protocol (configuration s)) (pending s ! i)" by blast
  then show ?thesis
  proof cases
    case 1
    then show ?thesis using run_rx_view [OF inv i ok] Run s' by simp
  next
    case 2
    then have "start_ops s \<noteq> []" using i by (auto simp: start_ops_def filter_empty_conv)
    then show ?thesis
      using run_start_rx_started [OF inv i ok 2(2)] Run s' 2(1) by (simp add: rx_view.started)
  next
    case 3
    then show ?thesis using rx_same_view [OF run_other_rx_same [OF inv i ok 3]] Run s' by simp
  qed
qed

end
