(* ===== verification/Send_Progress.thy ===== *)
theory Send_Progress
  imports Pacing
begin

text \<open>
  Two consequences of the moves of the send lane. Every handler of the lane does some of a
  bounded amount of work, so sending ends after a bounded number of them; and what has been
  sent never exceeds what the slices that have begun grant.
\<close>

section \<open>The throttle of a session\<close>

definition slices_ok :: "Session \<Rightarrow> bool" where
  "slices_ok s \<longleftrightarrow>
     slice_bytes_count (send_throttle s) =
       size_value (send_bandwidth (configuration s)) div bandwidth_sampling_frequency (configuration s) \<and>
     slice_duration (send_throttle s) = uint (1000000000 div bandwidth_sampling_frequency (configuration s))"

lemma tx_move_slices:
  "tx_move op t s' \<Longrightarrow> slice_bytes_count (send_throttle s') = slice_bytes_count (send_throttle t) \<and>
     slice_duration (send_throttle s') = slice_duration (send_throttle t)"
  by (induction rule: tx_move.induct) (auto simp: send_paced_def send_finished_def split: if_splits)

lemma tx_view_slices:
  assumes "tx_view b s s'" and "slices_ok s"
  shows "slices_ok s'"
proof -
  have "configuration s' = configuration s \<and>
      slice_bytes_count (send_throttle s') = slice_bytes_count (send_throttle s) \<and>
      slice_duration (send_throttle s') = slice_duration (send_throttle s)"
    using assms(1)
  proof cases
    case (moved op t)
    then show ?thesis using tx_move_slices [OF moved(9)] by simp
  next
    case started
    then show ?thesis by (simp add: tx_started_def split: if_splits)
  qed (simp_all add: tx_kept_def)
  with assms(2) show ?thesis by (simp add: slices_ok_def)
qed

section \<open>Work\<close>

fun lane_work :: "nat \<Rightarrow> operation list \<Rightarrow> nat" where
  "lane_work n [] = 0"
| "lane_work n (Wait_send_slice p # ops) = 2 * n + 1"
| "lane_work n (op # ops) = 2 * n"

definition send_work :: "Session \<Rightarrow> nat" where
  "send_work s =
     (if start_ops s \<noteq> [] then 2 * unat (goal s) + 1
      else lane_work (unat (goal s) - unat (sent s)) (tx_ops s))"

lemma tx_move_work:
  assumes "tx_move op t s'" and "tx_op_ok s op" and "sent t = sent s" and "send_throttle t = send_throttle s"
    and "configuration s' = configuration s" and "start_ops s = []" and "start_ops s' = []"
    and "tx_ops s = [op]" and "slice_bytes_count (send_throttle s) \<noteq> 0"
  shows "send_work s' < send_work s"
  using assms(1)
proof cases
  case (slice u)
  then show ?thesis using assms by (auto simp: send_work_def send_paced_def)
next
  case (chunk k left u offset n)
  have lt: "sent s < goal s" and left: "left \<le> goal s - sent s"
    using assms(2) chunk by (auto simp: tx_op_ok_def)
  have "unat k \<le> unat (goal s) - unat (sent s)"
    using chunk left lt by (auto simp: word_le_nat_alt word_less_nat_alt unat_minus_le)
  moreover have "0 < unat k" using chunk by (simp add: unat_gt_0)
  ultimately show ?thesis
    using chunk assms lt
    by (auto simp: send_work_def send_paced_def send_finished_def word_less_nat_alt split: if_splits)
next
  case (failed left offset n)
  have "sent s < goal s" using assms(2) failed by (auto simp: tx_op_ok_def)
  then show ?thesis using failed assms by (simp add: send_work_def send_finished_def word_less_nat_alt)
qed

lemma completed_work: "lane_work n [completed op] = lane_work n [op]"
  by (cases op) simp_all

lemma lane_work_le: "lane_work n ops \<le> 2 * n + 1"
  by (cases "(n, ops)" rule: lane_work.cases) simp_all

lemma tx_view_work:
  assumes "tx_view b s s'" and "slice_bytes_count (send_throttle s) \<noteq> 0"
  shows "send_work s' + (if b then 1 else 0) \<le> send_work s"
  using assms(1)
proof cases
  case idle
  then show ?thesis by (simp add: send_work_def tx_kept_def)
next
  case (ended op)
  then show ?thesis by (simp add: send_work_def tx_kept_def completed_work)
next
  case (moved op t)
  then have "send_work s' < send_work s" using assms(2) by (intro tx_move_work [of op t]) auto
  with moved show ?thesis by simp
next
  case started
  then show ?thesis by (simp add: send_work_def tx_started_def split: if_splits)
qed

text \<open>How many handlers of the send lane a schedule runs.\<close>

fun send_handlers :: "action list \<Rightarrow> Session \<Rightarrow> nat" where
  "send_handlers [] s = 0"
| "send_handlers (a # as) s =
     (case perform a s of
        None \<Rightarrow> 0
      | Some s' \<Rightarrow> (if sends a s then 1 else 0) + send_handlers as s')"

lemma performs_append:
  "performs (as @ bs) s = (case performs as s of None \<Rightarrow> None | Some t \<Rightarrow> performs bs t)"
  by (induction as s rule: performs.induct) (simp_all split: option.split)

lemma perform_inv:
  "session_inv s \<Longrightarrow> perform a s = Some s' \<Longrightarrow> session_inv s' \<and> configuration s' = configuration s"
  using step_inv step_iff_perform by blast

lemma send_handlers_bound:
  "session_inv s \<Longrightarrow> slices_ok s \<Longrightarrow>
   bandwidth_sampling_frequency (configuration s) \<le> size_value (send_bandwidth (configuration s)) \<Longrightarrow>
   performs as s = Some s' \<Longrightarrow> send_handlers as s + send_work s' \<le> send_work s"
proof (induction as s rule: performs.induct)
  case (2 a as s)
  then obtain t where t: "perform a s = Some t" "performs as t = Some s'"
    by (auto split: option.splits)
  let ?c = "configuration s"
  have "bandwidth_sampling_frequency ?c \<noteq> 0"
    using 2(2) by (simp add: session_inv_def base_ok_def valid_configuration_def)
  then have "size_value (send_bandwidth ?c) div bandwidth_sampling_frequency ?c \<noteq> 0"
    using 2(4) by (simp add: word_unat_eq_iff unat_div word_le_nat_alt div_eq_0_iff)
  then have nonempty: "slice_bytes_count (send_throttle s) \<noteq> 0" using 2(3) by (simp add: slices_ok_def)
  note view = perform_view [OF 2(2) t(1)]
  have "send_handlers as t + send_work s' \<le> send_work t"
    using 2(1) [OF t(1)] t(2) perform_inv [OF 2(2) t(1)] tx_view_slices [OF view 2(3)] 2(4) by simp
  then show ?case using tx_view_work [OF view nonempty] t(1) by simp
qed simp

lemma send_work_le: "send_work s \<le> 2 * unat (goal s) + 1"
  using lane_work_le [of "unat (goal s) - unat (sent s)" "tx_ops s"] by (auto simp: send_work_def)

lemma created_slices:
  assumes "create_session random tps universal steady c = Inr s"
  shows "slices_ok s"
proof -
  obtain s0 where s0: "make_Session random tps universal steady c = Inr s0"
    and s: "s = initialize (protocol c) s0"
    using assms by (auto simp: create_session_unfold and_then_Inr_iff split: if_splits)
  then show ?thesis
    by (auto simp: make_Session_def and_then_Inr_iff make_throttle_Inr slices_ok_def initialize_def
        tcp_initialize_def udp_initialize_def base_initialize_def start_op_def Let_def)
qed

lemma steps_slices: "steps s s' \<Longrightarrow> session_inv s \<Longrightarrow> slices_ok s \<Longrightarrow> slices_ok s'"
proof (induction rule: rtranclp_induct)
  case (step t u)
  then have "session_inv t" "slices_ok t" using steps_inv by auto
  with step(2) show ?case using step_iff_perform perform_view tx_view_slices by blast
qed

lemma reachable_slices: "valid_configuration c \<Longrightarrow> reachable c s \<Longrightarrow> slices_ok s"
  using create_session_inv(1) created_slices steps_slices unfolding reachable_def by blast

section \<open>Rate\<close>

definition send_left :: "Session \<Rightarrow> nat" where
  "send_left s = (case tx_ops s of [Send p left offset n] \<Rightarrow> unat left | _ \<Rightarrow> 0)"

text \<open>
  \<open>k\<close> slices have begun since the start \<open>t0\<close>: they cover what was sent and what the send
  under way may still send, and the latest of them began in the past.
\<close>

definition granted :: "int \<Rightarrow> nat \<Rightarrow> nat \<Rightarrow> int \<Rightarrow> BandwidthThrottle \<Rightarrow> bool" where
  "granted t0 k bytes now t \<longleftrightarrow>
     next_slice_start t = t0 + int k * slice_duration t \<and>
     bytes \<le> k * unat (slice_bytes_count t) \<and>
     (0 < k \<longrightarrow> t0 + (int k - 1) * slice_duration t \<le> now)"

definition send_rate :: "int \<Rightarrow> Session \<Rightarrow> bool" where
  "send_rate t0 s \<longleftrightarrow>
     start_ops s = [] \<and>
     (\<exists>k. granted t0 k (unat (sent s) + send_left s) (steady_time s) (send_throttle s)) \<and>
     (\<forall>p. tx_ops s = [Wait_send_slice p] \<longrightarrow>
        expiry (send_throttle s) = next_slice_start (send_throttle s) \<and>
        (p = Completed \<longrightarrow> expiry (send_throttle s) \<le> steady_time s))"

lemma send_left_simps [simp]:
  "tx_ops s = [] \<Longrightarrow> send_left s = 0"
  "tx_ops s = [Wait_send_slice p] \<Longrightarrow> send_left s = 0"
  "tx_ops s = [Send p left offset n] \<Longrightarrow> send_left s = unat left"
  by (simp_all add: send_left_def)

lemma granted_delay [simp]: "granted t0 k bytes now (delay t) = granted t0 k bytes now t"
  by (simp add: granted_def)

lemma granted_mono: "granted t0 k bytes now t \<Longrightarrow> bytes' \<le> bytes \<Longrightarrow> now \<le> now' \<Longrightarrow> granted t0 k bytes' now' t"
  by (auto simp: granted_def)

lemma granted_slice:
  "granted t0 k bytes now t \<Longrightarrow> next_slice_start t \<le> now \<Longrightarrow>
   granted t0 (Suc k) (bytes + unat (slice_bytes_count t)) now (fst (begin_slice t))"
  by (simp add: granted_def algebra_simps)

text \<open>A grant of \<open>n\<close> more bytes covers whatever \<open>async_send\<close> starts with them.\<close>

lemma send_paced_rate:
  assumes "send_paced n t s'" and "granted t0 k (unat (sent t) + unat n) (steady_time s') (send_throttle t)"
    and "start_ops s' = []"
  shows "send_rate t0 s'"
proof (cases "n = 0")
  case True
  then show ?thesis using assms by (auto simp: send_paced_def send_rate_def)
next
  case False
  then obtain left offset m where "tx_ops s' = [Send Waiting left offset m]" "unat left \<le> unat n"
    and "sent s' = sent t" "send_throttle s' = send_throttle t"
    using assms(1) by (auto simp: send_paced_def word_le_nat_alt)
  moreover have "granted t0 k (unat (sent t) + unat left) (steady_time s') (send_throttle t)"
    using assms(2) calculation(2) by (auto elim: granted_mono)
  ultimately show ?thesis using assms(3) by (auto simp: send_rate_def)
qed

lemma send_finished_rate:
  assumes "send_finished t s'" and "granted t0 k (unat (sent t)) (steady_time s') (send_throttle t)"
    and "start_ops s' = []"
  shows "send_rate t0 s'"
  using assms by (auto simp: send_finished_def send_rate_def)

lemma tx_move_rate:
  assumes "tx_move op t s'" and rate: "send_rate t0 s" and op: "tx_ops s = [op]"
    and same: "sent t = sent s" "send_throttle t = send_throttle s"
    and start: "start_ops s' = []" and time: "steady_time s' = steady_time s"
  shows "send_rate t0 s'"
proof -
  obtain k where k: "granted t0 k (unat (sent s) + send_left s) (steady_time s') (send_throttle s)"
    using rate time by (auto simp: send_rate_def)
  show ?thesis
    using assms(1)
  proof cases
    case (slice u)
    then have "next_slice_start (send_throttle s) \<le> steady_time s'"
      using rate op time by (auto simp: send_rate_def)
    from granted_slice [OF k this] show ?thesis
      using slice same start op by (intro send_paced_rate [of _ u s' t0 "Suc k"]) simp_all
  next
    case (chunk i left u offset n)
    then have now: "granted t0 k (unat (sent s) + unat left) (steady_time s') (send_throttle u)"
      using k op same by simp
    have "unat (sent u) + unat (left - i) = unat (sent s) + unat left"
      using chunk same by (simp add: unat_minus_le word_le_nat_alt)
    with now have "granted t0 k (unat (sent u) + unat (left - i)) (steady_time s') (send_throttle u)"
      by simp
    moreover from this have "granted t0 k (unat (sent u)) (steady_time s') (send_throttle u)"
      by (rule granted_mono) simp_all
    ultimately show ?thesis
      using chunk(6) start send_paced_rate send_finished_rate by metis
  next
    case (failed left offset n)
    then show ?thesis
      using k same start by (intro send_finished_rate [of t s' t0 k]) (auto elim: granted_mono)
  qed
qed

lemma tx_view_rate:
  assumes "tx_view b s s'" and rate: "send_rate t0 s"
  shows "send_rate t0 s'"
  using assms(1)
proof cases
  case idle
  then have "send_left s' = send_left s" by (simp add: send_left_def)
  then show ?thesis using rate idle by (auto simp: send_rate_def tx_kept_def elim: granted_mono)
next
  case (ended op)
  then have "send_left s' = send_left s" by (cases op) (simp_all add: send_left_def)
  with ended rate show ?thesis
    by (cases op) (auto simp: send_rate_def tx_kept_def elim: granted_mono)
next
  case (moved op t)
  then show ?thesis using tx_move_rate rate by blast
next
  case started
  then show ?thesis using rate by (simp add: send_rate_def)
qed

lemma tx_started_rate:
  "tx_started s s' \<Longrightarrow> direction (configuration s) \<noteq> RX \<Longrightarrow> send_rate (steady_time s) s'"
  by (auto simp: tx_started_def send_rate_def granted_def intro!: exI [of _ 0])

lemma steps_rate: "steps s s' \<Longrightarrow> session_inv s \<Longrightarrow> send_rate t0 s \<Longrightarrow> send_rate t0 s'"
proof (induction rule: rtranclp_induct)
  case (step t u)
  then have "session_inv t" "send_rate t0 t" using steps_inv by auto
  with step(2) show ?case using step_iff_perform perform_view tx_view_rate by blast
qed

lemma tx_view_time: "tx_view b s s' \<Longrightarrow> steady_time s \<le> steady_time s'"
  by (induction rule: tx_view.induct) (simp_all add: tx_kept_def tx_started_def)

lemma steps_time: "steps s s' \<Longrightarrow> session_inv s \<Longrightarrow> steady_time s \<le> steady_time s'"
proof (induction rule: rtranclp_induct)
  case (step t u)
  moreover from this have "session_inv t" using steps_inv by blast
  moreover obtain a where "perform a t = Some u" using step(2) step_iff_perform by blast
  ultimately show ?case using tx_view_time [OF perform_view] by (meson order.trans)
qed simp

lemma granted_bound:
  assumes "granted t0 k bytes now t" and "0 \<le> slice_duration t" and "t0 \<le> now"
  shows "int bytes * slice_duration t \<le> uint (slice_bytes_count t) * (now - t0 + slice_duration t)"
proof -
  let ?d = "slice_duration t" and ?b = "unat (slice_bytes_count t)"
  have k: "bytes \<le> k * ?b" "0 < k \<longrightarrow> t0 + (int k - 1) * ?d \<le> now"
    using assms(1) by (simp_all add: granted_def)
  have time: "int k * ?d \<le> now - t0 + ?d"
    using k(2) assms(2,3) by (cases "k = 0") (simp_all add: algebra_simps)
  have "int bytes * ?d \<le> int (k * ?b) * ?d"
    using k(1) assms(2) by (intro mult_right_mono) (simp_all only: of_nat_le_iff)
  also have "\<dots> = int ?b * (int k * ?d)" by (simp only: of_nat_mult ac_simps)
  also have "\<dots> \<le> int ?b * (now - t0 + ?d)" using time by (simp add: mult_left_mono)
  finally show ?thesis by (simp only: uint_nat)
qed

lemma send_rate_bound:
  assumes "send_rate t0 s" and "slices_ok s" and "t0 \<le> steady_time s"
  shows "int (unat (sent s)) * slice_duration (send_throttle s) \<le>
    uint (slice_bytes_count (send_throttle s)) *
      (steady_time s - t0 + slice_duration (send_throttle s))"
proof -
  obtain k where "granted t0 k (unat (sent s) + send_left s) (steady_time s) (send_throttle s)"
    using assms(1) by (auto simp: send_rate_def)
  then have "granted t0 k (unat (sent s)) (steady_time s) (send_throttle s)"
    by (rule granted_mono) simp_all
  then show ?thesis using assms(2,3) by (intro granted_bound) (simp_all add: slices_ok_def)
qed

end
