(* ===== verification/Receive_Progress.thy ===== *)
theory Receive_Progress
  imports Receive_Pacing Send_Progress
begin

text \<open>
  The consequences of the moves of the receive lane: receiving keeps to the slices that have
  begun, and, with what \<open>Send_Progress\<close> shows of the other lane, a TCP session ends after
  a bounded number of handlers.
\<close>

section \<open>The throttle of a session\<close>

definition receive_slices_ok :: "Session \<Rightarrow> bool" where
  "receive_slices_ok s \<longleftrightarrow>
     slice_bytes_count (receive_throttle s) =
       size_value (receive_bandwidth (configuration s)) div bandwidth_sampling_frequency (configuration s) \<and>
     slice_duration (receive_throttle s) = uint (1000000000 div bandwidth_sampling_frequency (configuration s))"

lemma rx_move_slices:
  "rx_move pr op t s' \<Longrightarrow> slice_bytes_count (receive_throttle s') = slice_bytes_count (receive_throttle t) \<and>
     slice_duration (receive_throttle s') = slice_duration (receive_throttle t)"
  by (induction rule: rx_move.induct)
    (auto simp: receive_paced_def receive_finished_def receive_over_def split: if_splits)

lemma rx_view_slices:
  assumes "rx_view b s s'" and "receive_slices_ok s"
  shows "receive_slices_ok s'"
proof -
  have "configuration s' = configuration s \<and>
      slice_bytes_count (receive_throttle s') = slice_bytes_count (receive_throttle s) \<and>
      slice_duration (receive_throttle s') = slice_duration (receive_throttle s)"
    using assms(1)
  proof cases
    case (moved op t)
    then show ?thesis using rx_move_slices [OF moved(9)] by simp
  next
    case started
    then show ?thesis by (simp add: rx_started_def split: if_splits)
  qed (simp_all add: rx_kept_def)
  with assms(2) show ?thesis by (simp add: receive_slices_ok_def)
qed

lemma created_receive_slices:
  assumes "create_session random tps universal steady c = Inr s"
  shows "receive_slices_ok s"
proof -
  obtain s0 where s0: "make_Session random tps universal steady c = Inr s0"
    and s: "s = initialize (protocol c) s0"
    using assms by (auto simp: create_session_unfold and_then_Inr_iff split: if_splits)
  then show ?thesis
    by (auto simp: make_Session_def and_then_Inr_iff make_throttle_Inr receive_slices_ok_def initialize_def
        tcp_initialize_def udp_initialize_def base_initialize_def start_op_def Let_def)
qed

lemma steps_receive_slices: "steps s s' \<Longrightarrow> session_inv s \<Longrightarrow> receive_slices_ok s \<Longrightarrow> receive_slices_ok s'"
proof (induction rule: rtranclp_induct)
  case (step t u)
  then have "session_inv t" "receive_slices_ok t" using steps_inv by auto
  with step(2) show ?case using step_iff_perform perform_rx_view rx_view_slices by blast
qed

lemma reachable_receive_slices: "valid_configuration c \<Longrightarrow> reachable c s \<Longrightarrow> receive_slices_ok s"
  using create_session_inv(1) created_receive_slices steps_receive_slices unfolding reachable_def by blast

section \<open>Rate\<close>

definition receive_left :: "Session \<Rightarrow> nat" where
  "receive_left s = (case rx_ops s of [Receive p left n] \<Rightarrow> unat left | _ \<Rightarrow> 0)"

lemma receive_left_simps [simp]:
  "rx_ops s = [] \<Longrightarrow> receive_left s = 0"
  "rx_ops s = [Receive_eof p] \<Longrightarrow> receive_left s = 0"
  "rx_ops s = [Wait_receive_slice p] \<Longrightarrow> receive_left s = 0"
  "rx_ops s = [Receive p left n] \<Longrightarrow> receive_left s = unat left"
  by (simp_all add: receive_left_def)

definition receive_rate :: "int \<Rightarrow> Session \<Rightarrow> bool" where
  "receive_rate t0 s \<longleftrightarrow>
     start_ops s = [] \<and>
     (\<exists>k. granted t0 k (unat (received s) + receive_left s) (steady_time s) (receive_throttle s)) \<and>
     (\<forall>p. rx_ops s = [Wait_receive_slice p] \<longrightarrow>
        expiry (receive_throttle s) = next_slice_start (receive_throttle s) \<and>
        (p = Completed \<longrightarrow> expiry (receive_throttle s) \<le> steady_time s))"

lemma receive_paced_rate:
  assumes "receive_paced n t s'"
    and "granted t0 k (unat (received t) + unat n) (steady_time s') (receive_throttle t)"
    and "start_ops s' = []"
  shows "receive_rate t0 s'"
  using assms by (cases "n = 0") (auto simp: receive_paced_def receive_rate_def)

lemma receive_finished_rate:
  assumes "receive_finished t s'" and "granted t0 k (unat (received t)) (steady_time s') (receive_throttle t)"
    and "start_ops s' = []"
  shows "receive_rate t0 s'"
  using assms by (auto simp: receive_finished_def receive_rate_def)

lemma receive_over_rate:
  assumes "receive_over t s'" and "granted t0 k bytes (steady_time s') (receive_throttle t)"
    and "unat (received t) \<le> bytes" and "start_ops s' = []"
  shows "receive_rate t0 s'"
  using assms by (auto simp: receive_over_def receive_rate_def elim: granted_mono)

lemma rx_move_rate:
  assumes "rx_move pr op t s'" and rate: "receive_rate t0 s" and op: "rx_ops s = [op]"
    and same: "received t = received s" "receive_throttle t = receive_throttle s"
    and start: "start_ops s' = []" and time: "steady_time s' = steady_time s"
  shows "receive_rate t0 s'"
proof -
  obtain k where k: "granted t0 k (unat (received s) + receive_left s) (steady_time s') (receive_throttle s)"
    using rate time by (auto simp: receive_rate_def)
  show ?thesis
    using assms(1)
  proof cases
    case (slice u)
    then have "next_slice_start (receive_throttle s) \<le> steady_time s'"
      using rate op time by (auto simp: receive_rate_def)
    from granted_slice [OF k this] show ?thesis
      using slice same start op by (intro receive_paced_rate [of _ u s' t0 "Suc k"]) simp_all
  next
    case (chunk i left u n)
    then have now: "granted t0 k (unat (received s) + unat left) (steady_time s') (receive_throttle u)"
      using k op same by simp
    have "unat (received u) + unat (left - i) = unat (received s) + unat left"
      using chunk same by (simp add: unat_minus_le word_le_nat_alt)
    with now have "granted t0 k (unat (received u) + unat (left - i)) (steady_time s') (receive_throttle u)"
      by simp
    moreover from this have "granted t0 k (unat (received u)) (steady_time s') (receive_throttle u)"
      by (rule granted_mono) simp_all
    ultimately show ?thesis
      using chunk(6) start receive_paced_rate receive_finished_rate by metis
  qed (use k same start in \<open>auto intro: receive_over_rate\<close>)
qed

lemma rx_view_rate:
  assumes "rx_view b s s'" and rate: "receive_rate t0 s"
  shows "receive_rate t0 s'"
  using assms(1)
proof cases
  case idle
  then have "receive_left s' = receive_left s" by (simp add: receive_left_def)
  then show ?thesis using rate idle by (auto simp: receive_rate_def rx_kept_def elim: granted_mono)
next
  case (ended op)
  then have "receive_left s' = receive_left s" by (cases op) (simp_all add: receive_left_def)
  with ended rate show ?thesis
    by (cases op) (auto simp: receive_rate_def rx_kept_def elim: granted_mono)
next
  case (moved op t)
  then show ?thesis using rx_move_rate rate by blast
next
  case started
  then show ?thesis using rate by (simp add: receive_rate_def)
qed

lemma rx_started_rate:
  "rx_started s s' \<Longrightarrow> direction (configuration s) \<noteq> TX \<Longrightarrow> receive_rate (steady_time s) s'"
  by (auto simp: rx_started_def receive_rate_def granted_def intro!: exI [of _ 0])

lemma steps_receive_rate: "steps s s' \<Longrightarrow> session_inv s \<Longrightarrow> receive_rate t0 s \<Longrightarrow> receive_rate t0 s'"
proof (induction rule: rtranclp_induct)
  case (step t u)
  then have "session_inv t" "receive_rate t0 t" using steps_inv by auto
  with step(2) show ?case using step_iff_perform perform_rx_view rx_view_rate by blast
qed

lemma receive_rate_bound:
  assumes "receive_rate t0 s" and "receive_slices_ok s" and "t0 \<le> steady_time s"
  shows "int (unat (received s)) * slice_duration (receive_throttle s) \<le>
    uint (slice_bytes_count (receive_throttle s)) *
      (steady_time s - t0 + slice_duration (receive_throttle s))"
proof -
  obtain k where "granted t0 k (unat (received s) + receive_left s) (steady_time s) (receive_throttle s)"
    using assms(1) by (auto simp: receive_rate_def)
  then have "granted t0 k (unat (received s)) (steady_time s) (receive_throttle s)"
    by (rule granted_mono) simp_all
  then show ?thesis using assms(2,3) by (intro granted_bound) (simp_all add: receive_slices_ok_def)
qed

end
