(* ===== verification/Session_Correctness.thy ===== *)
theory Session_Correctness
  imports Session_Safety
begin

text \<open>
  What a session promises, in every state that the application can bring it to with a
  configuration that passes the checks: the properties of \<open>Session\<close>, \<open>TcpSession\<close> and
  \<open>UdpSession\<close>. The hypothesis \<open>reachable\<close> covers every interleaving of handlers, clocks,
  signals and failures that the operating system can produce.
\<close>

section \<open>Reachable sessions\<close>

lemma reachable_inv:
  assumes "valid_configuration c" and "reachable c s"
  shows "session_inv s" and "configuration s = c"
  using assms create_session_inv steps_inv unfolding reachable_def by blast+

lemma session_inv_base: "session_inv s \<Longrightarrow> base_ok s"
  by (simp add: session_inv_def)

lemmas reachable_base = reachable_inv(1) [THEN session_inv_base]

lemma inv_lane_op:
  "session_inv s \<Longrightarrow> op \<in> set (pending s) \<Longrightarrow> is_rx op \<Longrightarrow> rx_op_ok s op \<and> \<not> is_receive_complete s"
  "session_inv s \<Longrightarrow> op \<in> set (pending s) \<Longrightarrow> is_tx op \<Longrightarrow> tx_op_ok s op \<and> \<not> is_send_complete s"
proof -
  assume inv: "session_inv s" and op: "op \<in> set (pending s)"
  show "rx_op_ok s op \<and> \<not> is_receive_complete s" if "is_rx op"
  proof -
    have "op \<in> set (rx_ops s)" using op that by (simp add: rx_ops_def)
    then show ?thesis using inv by (auto simp: session_inv_def fresh_def rx_lane_cases split: if_splits)
  qed
  show "tx_op_ok s op \<and> \<not> is_send_complete s" if "is_tx op"
  proof -
    have "op \<in> set (tx_ops s)" using op that by (simp add: tx_ops_def)
    then show ?thesis using inv by (auto simp: session_inv_def fresh_def tx_lane_cases split: if_splits)
  qed
qed

text \<open>The position of a byte, as the number that the log shows, does not wrap.\<close>

lemma received_positions:
  assumes "base_ok s"
  shows "length (received_stream (socket s)) < 2 ^ 64"
  using assms by (simp add: base_ok_def streams_ok_def valid_configuration_def)

section \<open>What a finished session has done\<close>

definition transferred :: "Session \<Rightarrow> bool" where
  "transferred s \<longleftrightarrow>
     (let c = configuration s; n = unat (size_value (total_size c)) in
      (direction c \<noteq> RX \<longrightarrow> sent_stream (socket s) = ramp 0 n) \<and>
      (direction c \<noteq> TX \<longrightarrow>
         n \<le> unat (received s) \<and>
         length (received_stream (socket s)) = unat (received s) \<and>
         (verify c = ALL' \<longrightarrow> received_stream (socket s) = ramp 0 (unat (received s)))))"

lemma goals_transferred:
  assumes base: "base_ok s" and ok: "\<not> is_failure (session_failure s)"
    and goals: "receive_goal s" "send_goal s"
  shows "transferred s"
proof -
  have "mismatches s = []" using base ok by (auto simp: base_ok_def failure_ok_def)
  then show ?thesis
    using goals base mismatches_from_Nil_iff [of 0 "received_stream (socket s)"]
    by (auto simp: transferred_def receive_goal_def send_goal_def base_ok_def streams_ok_def
        word_le_nat_alt Let_def)
qed

lemma finished_transferred:
  assumes inv: "session_inv s" and none: "pending s = []" and ok: "\<not> is_failure (session_failure s)"
  shows "transferred s"
proof (rule goals_transferred [OF _ ok])
  have ops: "rx_ops s = []" "tx_ops s = []" "start_ops s = []" by (simp_all add: lanes none)
  show "receive_goal s" "send_goal s" "base_ok s"
    using inv ops ok by (auto simp: session_inv_def rx_lane_ok_def tx_lane_ok_def split: if_splits)
qed

lemma closed_transferred:
  assumes inv: "session_inv s" and closed: "closed (socket s)" and ok: "\<not> is_failure (session_failure s)"
  shows "transferred s"
proof (rule goals_transferred [OF _ ok])
  have "is_receive_complete s" "is_send_complete s"
    using inv closed by (simp_all add: session_inv_def base_ok_def closing_ok_def)
  then show "receive_goal s" "send_goal s" "base_ok s"
    using inv by (auto simp: session_inv_def fresh_def rx_lane_cases tx_lane_cases split: if_splits)
qed

section \<open>A sample run\<close>

text \<open>
  A client that sends three bytes to a peer and receives three, each lane at 1000 bytes
  per second, with every received byte checked.
\<close>

definition sample_configuration :: SessionConfiguration where
  "sample_configuration =
     \<lparr>mode = CLIENT, verify = ALL', direction = BOTH, endpoint = ''localhost:1234'',
      send_bandwidth = \<lparr>size_value = 1000, unit_system = SI\<rparr>,
      receive_bandwidth = \<lparr>size_value = 1000, unit_system = SI\<rparr>,
      bandwidth_sampling_frequency = 1, windows = \<lparr>size_value = 0, unit_system = SI\<rparr>,
      total_size = \<lparr>size_value = 3, unit_system = SI\<rparr>,
      packet_size = range_of_value \<lparr>size_value = 8, unit_system = SI\<rparr>,
      duration_margin = Special, shutdown_policy = SEND_COMPLETE, protocol = TCP\<rparr>"

definition sample_start :: "action list" where
  "sample_start =
     [Run 2 (Done No_error), End 1, Run 1 (Done No_error),
      End 2, Run 2 (Done No_error), End 2, Run 2 (Done No_error)]"

definition sample_transfer :: "u8 list \<Rightarrow> action list" where
  "sample_transfer data =
     [End 3, Run 3 (Wrote No_error 3), End 2, Run 2 (Got No_error data)]"

definition sample_end :: "action list" where
  "sample_end =
     [End 2, Run 2 (Got Eof []),
      Run 0 (Signalled Operation_aborted 0), Run 0 (Done Operation_aborted)]"

lemma sample_valid: "valid_configuration sample_configuration"
  by (simp add: valid_configuration_def sample_configuration_def)

lemma sample_draws: "draws_ok sample_configuration (\<lambda>_. 8)"
  by (simp add: draws_ok_def sample_configuration_def range_of_value_def)

lemmas run_simps =
  create_session_unfold make_Session_def make_throttle_def to_slice_bytes_count_def to_slice_duration_def
  new_socket_def default_Statistics_def default_Size_def signals_at_start_def
  initialize_def tcp_initialize_def base_initialize_def start_op_def Let_def
  run_handler_def remove_nth_def allowed_def end_wait_def virtuals_of_def tcp_virtuals_def
  start_timer_def estimate_test_duration_def signed_divide_int_def tcp_start_transfer_def start_transfer_def
  tcp_async_receive_def tcp_async_send_def delay_receive_def delay_send_def delay_def reset_def
  on_receive_slice_def on_send_slice_def begin_slice_def BUFFER_SIZE_value
  on_send_def on_receive_def log_sent_def log_received_def store_received_def count_sent_def
  count_received_def tcp_finish_send_def base_finish_send_def on_send_complete_def shutdown_send_def
  tcp_finish_receive_def base_finish_receive_def verify_bytes_def verify_loop.simps verify_byte_def
  abort_with_def request_exit_def make_error_code_def
  tcp_on_eof_def on_receive_complete_def on_finish_def tcp_finish_def close_socket_def
  on_signal_number_def on_timeout_def time_since_def

lemma sample_runs:
  assumes "create_session (\<lambda>_. 8) 1000000 0 0 sample_configuration = Inr s0" and "performs as s0 = Some s"
  shows "reachable sample_configuration s"
  using assms sample_draws performs_steps unfolding reachable_def by blast

lemma sample_created:
  "\<exists>s. create_session (\<lambda>_. 8) 1000000 0 0 sample_configuration = Inr s"
  by (simp add: run_simps sample_configuration_def)

text \<open>The run with the bytes that the peer should send, and one with a wrong byte.\<close>

lemma filled: "fill_loop 0 131072 (replicate 131072 0) = ramp 0 131072"
  using fill_loop_ramp [of BUFFER_SIZE "replicate 131072 0"] by (simp add: BUFFER_SIZE_value)

lemma sample_complete_run:
  "\<exists>s0 s. create_session (\<lambda>_. 8) 1000000 0 0 sample_configuration = Inr s0 \<and>
    performs (sample_start @ sample_transfer [0, 1, 2] @ sample_end) s0 = Some s \<and>
    pending s = [] \<and> finalize s = No_error \<and> received_stream (socket s) = [0, 1, 2] \<and>
    sent_stream (socket s) = ramp 0 3 \<and> send_shut_down (socket s) \<and> closed (socket s)"
  by (simp add: sample_configuration_def sample_start_def sample_transfer_def sample_end_def
      run_simps finalize_def filled take_drop_ramp [of 0 3 131072 0, simplified])

lemma sample_complete:
  "\<exists>s. reachable sample_configuration s \<and> pending s = [] \<and> finalize s = No_error \<and>
     received_stream (socket s) = [0, 1, 2] \<and> sent_stream (socket s) = ramp 0 3 \<and>
     send_shut_down (socket s) \<and> closed (socket s)"
  using sample_complete_run sample_runs by blast

lemma sample_corrupted:
  "\<exists>s. reachable sample_configuration s \<and> received_stream (socket s) = [0, 9, 2]"
proof -
  have "\<exists>s0 s. create_session (\<lambda>_. 8) 1000000 0 0 sample_configuration = Inr s0 \<and>
    performs (sample_start @ sample_transfer [0, 9, 2]) s0 = Some s \<and>
    received_stream (socket s) = [0, 9, 2]"
    by (simp add: sample_configuration_def sample_start_def sample_transfer_def run_simps)
  then show ?thesis using sample_runs by blast
qed

lemma sample_transferring:
  "\<exists>s. reachable sample_configuration s \<and> start_ops s = [] \<and> finalize s = No_error \<and>
     Send Waiting 3 0 3 \<in> set (pending s) \<and> Receive Waiting 1000 1000 \<in> set (pending s)"
proof -
  have "\<exists>s0 s. create_session (\<lambda>_. 8) 1000000 0 0 sample_configuration = Inr s0 \<and>
    performs sample_start s0 = Some s \<and> start_ops s = [] \<and> finalize s = No_error \<and>
     Send Waiting 3 0 3 \<in> set (pending s) \<and> Receive Waiting 1000 1000 \<in> set (pending s)"
    by (simp add: sample_configuration_def sample_start_def run_simps start_ops_def finalize_def)
  then show ?thesis using sample_runs by blast
qed

end
