(* ===== verification/Session_Progress.thy ===== *)
theory Session_Progress
  imports Receive_Progress Session_Correctness
begin

text \<open>
  A bound on the number of handlers that a TCP session runs: the work left in its two lanes,
  and in the operations outside of them. An empty datagram moves nothing, so there is
  no such bound for UDP.
\<close>

section \<open>The work of the receive lane\<close>

fun receive_lane_work :: "nat \<Rightarrow> operation list \<Rightarrow> nat" where
  "receive_lane_work n [] = 0"
| "receive_lane_work n (Wait_receive_slice p # ops) = 2 * n + 2"
| "receive_lane_work n (Receive p left m # ops) = 2 * n + 1"
| "receive_lane_work n (op # ops) = 1"

definition receive_work :: "Session \<Rightarrow> nat" where
  "receive_work s =
     (if start_ops s \<noteq> [] then 2 * unat (goal s) + 2
      else receive_lane_work (unat (goal s) - unat (received s)) (rx_ops s))"

lemma receive_finished_work: "receive_finished s s' \<Longrightarrow> receive_lane_work n (rx_ops s') \<le> 1"
  by (auto simp: receive_finished_def)

lemma rx_move_work:
  assumes "rx_move TCP op t s'" and "rx_op_ok s op" and "received t = received s"
    and "receive_throttle t = receive_throttle s" and "configuration t = configuration s"
    and "configuration s' = configuration s" and "start_ops s = []" and "start_ops s' = []"
    and "rx_ops s = [op]" and "slice_bytes_count (receive_throttle s) \<noteq> 0"
  shows "receive_work s' < receive_work s"
  using assms(1)
proof cases
  case (slice u)
  then show ?thesis using assms by (auto simp: receive_work_def receive_paced_def)
next
  case (chunk k left u n)
  have lt: "unat (received s) < unat (goal s)"
    using assms(2) chunk by (auto simp: rx_op_ok_def word_less_nat_alt)
  have "0 < unat k" using chunk by (simp add: unat_gt_0)
  moreover note receive_finished_work [of u s' "unat (goal s) - unat (received s')"]
  ultimately show ?thesis
    using chunk assms lt
    by (auto simp: receive_work_def receive_paced_def word_less_nat_alt split: if_splits)
qed (use assms in \<open>auto simp: receive_work_def receive_over_def\<close>)

lemma completed_receive_work: "receive_lane_work n [completed op] = receive_lane_work n [op]"
  by (cases op) simp_all

lemma receive_work_le: "receive_work s \<le> 2 * unat (goal s) + 2"
  by (cases "(unat (goal s) - unat (received s), rx_ops s)" rule: receive_lane_work.cases)
    (auto simp: receive_work_def)

lemma rx_view_work:
  assumes "rx_view b s s'" and "protocol (configuration s) = TCP"
    and "slice_bytes_count (receive_throttle s) \<noteq> 0"
  shows "receive_work s' + (if b then 1 else 0) \<le> receive_work s"
  using assms(1)
proof cases
  case idle
  then show ?thesis by (simp add: receive_work_def rx_kept_def)
next
  case (ended op)
  then show ?thesis by (simp add: receive_work_def rx_kept_def completed_receive_work)
next
  case (moved op t)
  then have "receive_work s' < receive_work s" using assms(2,3) by (intro rx_move_work [of op t]) auto
  with moved show ?thesis by simp
next
  case started
  then show ?thesis by (auto simp: receive_work_def rx_started_def split: if_splits)
qed

section \<open>The work outside of the lanes\<close>

text \<open>The posted function starts the timer.\<close>

fun weight :: "operation \<Rightarrow> nat" where
  "weight (Wait_signal p) = 1"
| "weight (Wait_timeout p) = 1"
| "weight (Connect p) = 1"
| "weight (Posted p) = 2"
| "weight op = 0"

definition other_work :: "Session \<Rightarrow> nat" where
  "other_work s = sum_list (map weight (pending s))"

lemma cancel_weight [simp]:
  "weight (cancel_signal op) = weight op" "weight (cancel_timeout op) = weight op"
  "weight (cancel_receive_slice op) = weight op" "weight (cancel_send_slice op) = weight op"
  "weight (cancel_io op) = weight op" "weight (completed op) = weight op"
  by (cases op; simp; rename_tac p; case_tac p; simp)+

lemma other_work_start_op [simp]: "other_work (start_op op s) = other_work s + weight op"
  by (simp add: other_work_def start_op_def)

lemma other_work_map [simp]:
  "(\<And>op. weight (f op) = weight op) \<Longrightarrow> other_work (s\<lparr>pending := map f (pending s)\<rparr>) = other_work s"
  by (simp add: other_work_def comp_def)

lemma other_work_base [simp]:
  "other_work (delay_receive s) = other_work s" "other_work (delay_send s) = other_work s"
  "other_work (abort_with e s) = other_work s" "other_work (crash f s) = other_work s"
  "other_work (shutdown_send s) = other_work s" "other_work (close_socket s) = other_work s"
  "other_work (base_finish_receive s) = other_work s" "other_work (base_finish_send s) = other_work s"
  "other_work (store_received data s) = other_work s" "other_work (log_received data s) = other_work s"
  "other_work (log_sent offset k s) = other_work s" "other_work (count_received n s) = other_work s"
  "other_work (count_sent n s) = other_work s" "other_work (verify_bytes n s) = other_work s"
  by (simp_all add: other_work_def delay_receive_def delay_send_def abort_with_def crash_def shutdown_send_def
      close_socket_def base_finish_receive_def base_finish_send_def store_received_def log_received_def
      log_sent_def count_received_def count_sent_def start_op_def verify_bytes_fields comp_def)

lemma other_work_complete [simp]:
  "other_work (on_receive_complete close_socket s) = other_work s"
  "other_work (on_send_complete close_socket s) = other_work s"
  by (simp_all add: on_receive_complete_def on_send_complete_def on_finish_def Let_def other_work_def comp_def
      close_socket_def)

lemma other_work_virtuals [simp]:
  "other_work (async_receive tcp_virtuals n s) = other_work s"
  "other_work (finish_receive tcp_virtuals s) = other_work s"
  "other_work (async_send tcp_virtuals n s) = other_work s"
  "other_work (finish_send tcp_virtuals s) = other_work s"
  "other_work (on_eof tcp_virtuals e k s) = other_work s"
  by (simp_all add: tcp_virtuals_def tcp_async_receive_def tcp_finish_receive_def tcp_async_send_def
      tcp_finish_send_def tcp_on_eof_def tcp_finish_def [abs_def] Let_def)

lemma other_work_start_timer: "other_work (start_timer s) \<le> other_work s + 1"
  by (auto simp: start_timer_def start_op_def crash_def other_work_def comp_def split: sum.splits)

lemma other_work_start_transfer:
  "other_work (tcp_start_transfer s) = other_work s"
  using other_work_virtuals
  by (simp add: tcp_start_transfer_def start_transfer_def Let_def tcp_virtuals_def other_work_def)

lemma other_work_without:
  "i < length (pending s) \<Longrightarrow> other_work (without i s) + weight (pending s ! i) = other_work s"
  by (subst (2) other_work_def, subst (2) id_take_nth_drop [of i "pending s"])
    (simp_all add: other_work_def without_def remove_nth_def)

lemma other_work_throttle [simp]:
  "other_work (s\<lparr>receive_throttle := t\<rparr>) = other_work s" "other_work (s\<lparr>send_throttle := t\<rparr>) = other_work s"
  by (simp_all add: other_work_def)

lemma other_work_end_wait: "i < length (pending s) \<Longrightarrow> other_work (end_wait i s) = other_work s"
  using list_update_id [of "map weight (pending s)" i] by (simp add: other_work_def end_wait_def map_update)

lemma other_work_lane_handler:
  "is_rx op \<or> is_tx op \<Longrightarrow> other_work (handle tcp_virtuals op ev s) = other_work s"
  by (cases op; cases ev)
    (auto simp: on_receive_def on_send_def on_receive_slice_def on_send_slice_def Let_def begin_slice_def
      split: prod.splits)

lemma other_work_handler:
  assumes "event_fits TCP op ev" and "\<not> is_rx op" and "\<not> is_tx op"
  shows "other_work (handle tcp_virtuals op ev s) < other_work s + weight op"
  using assms other_work_start_timer [of s]
  by (cases op; cases ev)
    (auto simp: on_signal_number_def on_timeout_def tcp_virtuals_def other_work_start_transfer
      less_Suc_eq_le)

lemma perform_other_work:
  assumes "protocol (configuration s) = TCP" and "perform a s = Some s'"
  shows "other_work s' + (if sends a s \<or> receives a s then 0 else case a of Run i ev \<Rightarrow> 1 | _ \<Rightarrow> 0) \<le> other_work s"
proof (cases a)
  case (End i)
  then show ?thesis
    using assms(2) by (auto simp: other_work_end_wait split: if_splits)
next
  case (Run i ev)
  then have i: "i < length (pending s)" and ok: "allowed TCP (pending s ! i) ev"
    and s': "s' = handle tcp_virtuals (pending s ! i) ev (without i s)"
    using assms by (auto simp: run_handler_def without_def virtuals_of_def split: if_splits)
  then show ?thesis
    using Run other_work_without [OF i] other_work_lane_handler [of "pending s ! i" ev "without i s"]
      other_work_handler [of "pending s ! i" ev "without i s"]
    by (auto simp: allowed_def)
qed (use assms in \<open>auto simp: other_work_def split: if_splits\<close>)

section \<open>The work of a session\<close>

fun runs_handler :: "action \<Rightarrow> bool" where
  "runs_handler (Run i ev) \<longleftrightarrow> True"
| "runs_handler _ \<longleftrightarrow> False"

definition session_work :: "Session \<Rightarrow> nat" where
  "session_work s = receive_work s + send_work s + other_work s"

text \<open>Every slice carries at least one byte, in both directions.\<close>

definition nonempty_slices :: "SessionConfiguration \<Rightarrow> bool" where
  "nonempty_slices c \<longleftrightarrow>
     bandwidth_sampling_frequency c \<le> size_value (receive_bandwidth c) \<and>
     bandwidth_sampling_frequency c \<le> size_value (send_bandwidth c)"

lemma slice_bytes_nonzero: "f \<noteq> 0 \<Longrightarrow> f \<le> b \<Longrightarrow> (b :: u64) div f \<noteq> 0"
  by (simp add: word_unat_eq_iff unat_div word_le_nat_alt div_eq_0_iff)

lemma perform_work:
  assumes inv: "session_inv s" and slices: "slices_ok s" "receive_slices_ok s"
    and conf: "nonempty_slices (configuration s)" "protocol (configuration s) = TCP"
    and act: "perform a s = Some s'"
  shows "session_work s' + (if runs_handler a then 1 else 0) \<le> session_work s"
proof -
  have "bandwidth_sampling_frequency (configuration s) \<noteq> 0"
    using inv by (simp add: session_inv_def base_ok_def valid_configuration_def)
  then have nonzero: "slice_bytes_count (send_throttle s) \<noteq> 0" "slice_bytes_count (receive_throttle s) \<noteq> 0"
    using conf(1) slices by (simp_all add: slices_ok_def receive_slices_ok_def nonempty_slices_def slice_bytes_nonzero)
  show ?thesis
    using tx_view_work [OF perform_view [OF inv act] nonzero(1)]
      rx_view_work [OF perform_rx_view [OF inv act] conf(2) nonzero(2)]
      perform_other_work [OF conf(2) act]
    by (cases a) (auto simp: session_work_def split: if_splits)
qed

lemma session_work_bound:
  "session_inv s \<Longrightarrow> slices_ok s \<Longrightarrow> receive_slices_ok s \<Longrightarrow> nonempty_slices (configuration s) \<Longrightarrow>
   protocol (configuration s) = TCP \<Longrightarrow> performs as s = Some s' \<Longrightarrow>
   length (filter runs_handler as) + session_work s' \<le> session_work s"
proof (induction as s rule: performs.induct)
  case (2 a as s)
  then obtain t where t: "perform a s = Some t" "performs as t = Some s'"
    by (auto split: option.splits)
  note kept = perform_inv [OF 2(2) t(1)] tx_view_slices [OF perform_view [OF 2(2) t(1)] 2(3)]
    rx_view_slices [OF perform_rx_view [OF 2(2) t(1)] 2(4)]
  have "length (filter runs_handler as) + session_work s' \<le> session_work t"
    using 2(1) [OF t(1)] t(2) kept 2(5,6) by simp
  then show ?case using perform_work [OF 2(2-6) t(1)] by (simp split: if_splits)
qed simp

lemma created_other_work:
  assumes "create_session random tps universal steady c = Inr s"
  shows "other_work s \<le> 4"
proof -
  obtain s0 where "make_Session random tps universal steady c = Inr s0" "s = initialize (protocol c) s0"
    using assms by (auto simp: create_session_unfold and_then_Inr_iff split: if_splits)
  then show ?thesis
    by (auto simp: make_Session_def and_then_Inr_iff other_work_def initialize_def
        tcp_initialize_def udp_initialize_def base_initialize_def start_op_def Let_def)
qed

lemma reachable_work:
  assumes "valid_configuration c" and "reachable c s" and "protocol c = TCP"
  shows "session_work s \<le> 4 * unat (size_value (total_size c)) + 7"
proof -
  obtain random tps universal steady s0 where s0: "draws_ok c random"
      "create_session random tps universal steady c = Inr s0" "steps s0 s"
    using assms(2) by (auto simp: reachable_def)
  note inv0 = create_session_inv [OF assms(1) s0(1,2)]
  have "steps s0 t \<Longrightarrow> other_work t \<le> 4" for t
  proof (induction rule: rtranclp_induct)
    case (step t u)
    obtain a where "perform a t = Some u" using step(2) step_iff_perform by blast
    moreover have "protocol (configuration t) = TCP" using steps_inv [OF step(1) inv0(1)] inv0(2) assms(3) by simp
    ultimately show ?case using perform_other_work step(3) by fastforce
  qed (rule created_other_work [OF s0(2)])
  then have "other_work s \<le> 4" using s0(3) .
  then show ?thesis
    using receive_work_le [of s] send_work_le [of s] reachable_inv(2) [OF assms(1,2)]
    by (simp add: session_work_def)
qed

end
