(* ===== verification/Tcp_Effects.thy ===== *)
theory Tcp_Effects
  imports Session_Progress
begin

text \<open>
  What the handlers of a TCP session do to its socket: the bytes they add to the two
  streams, and when they shut down sending. A session is seen here alone; \<open>Peers\<close> connects
  two of them.
\<close>

section \<open>Streams\<close>

lemma start_op_socket [simp]: "socket (start_op op s) = socket s"
  by (simp add: start_op_def)

lemma socket_same [simp]:
  "socket (delay_receive s) = socket s" "socket (delay_send s) = socket s"
  "socket (abort_with e s) = socket s" "socket (crash f s) = socket s"
  "socket (base_finish_receive s) = socket s" "socket (base_finish_send s) = socket s"
  "socket (count_received n s) = socket s" "socket (count_sent n s) = socket s"
  "socket (store_received data s) = socket s"
  "socket (tcp_async_receive n s) = socket s" "socket (tcp_async_send n s) = socket s"
  by (simp_all add: delay_receive_def delay_send_def abort_with_def crash_def base_finish_receive_def
      base_finish_send_def count_received_def count_sent_def store_received_def tcp_async_receive_def
      tcp_async_send_def Let_def)

lemma start_timer_socket [simp]: "socket (start_timer s) = socket s"
  by (auto simp: start_timer_def split: sum.splits)

lemma verify_bytes_socket [simp]: "socket (verify_bytes n s) = socket s"
  by (rule verify_bytes_fields)

text \<open>The two flags of the socket only ever go up, and the streams stay, in what follows.\<close>

definition streams_kept :: "Session \<Rightarrow> Session \<Rightarrow> bool" where
  "streams_kept s s' \<longleftrightarrow>
     sent_stream (socket s') = sent_stream (socket s) \<and>
     received_stream (socket s') = received_stream (socket s) \<and>
     (send_shut_down (socket s) \<longrightarrow> send_shut_down (socket s')) \<and>
     (closed (socket s) \<longrightarrow> closed (socket s'))"

lemma streams_kept_same: "socket s' = socket s \<Longrightarrow> streams_kept s s'"
  by (simp add: streams_kept_def)

lemma streams_kept_trans: "streams_kept s t \<Longrightarrow> streams_kept t s' \<Longrightarrow> streams_kept s s'"
  by (simp add: streams_kept_def)

lemma streams_kept_ops:
  "streams_kept s (shutdown_send s)" "streams_kept s (close_socket s)"
  "streams_kept s (on_receive_complete close_socket s)" "streams_kept s (on_send_complete close_socket s)"
  by (simp_all add: streams_kept_def shutdown_send_def close_socket_def on_receive_complete_def
      on_send_complete_def on_finish_def Let_def)

lemma streams_kept_finish:
  "streams_kept s (tcp_finish_receive s)" "streams_kept s (tcp_finish_send s)" "streams_kept s (tcp_on_eof e n s)"
  using streams_kept_ops
  by (auto simp: tcp_finish_receive_def tcp_finish_send_def tcp_on_eof_def Let_def streams_kept_def)

lemma streams_kept_start: "streams_kept s (tcp_start_transfer s)"
  using streams_kept_finish(1,2)
  by (auto simp: tcp_start_transfer_def start_transfer_def Let_def streams_kept_def)

text \<open>The bytes that a handler adds.\<close>

fun bytes_received :: "operation \<Rightarrow> event \<Rightarrow> u8 list" where
  "bytes_received (Receive p left n) (Got e data) = data"
| "bytes_received _ _ = []"

fun bytes_sent :: "u8 list \<Rightarrow> operation \<Rightarrow> event \<Rightarrow> u8 list" where
  "bytes_sent buffer (Send p left offset n) (Wrote e k) = take (unat k) (drop (unat offset) buffer)"
| "bytes_sent buffer _ _ = []"

definition streams_extended :: "operation \<Rightarrow> event \<Rightarrow> Session \<Rightarrow> Session \<Rightarrow> bool" where
  "streams_extended op ev s s' \<longleftrightarrow>
     received_stream (socket s') = received_stream (socket s) @ bytes_received op ev \<and>
     sent_stream (socket s') = sent_stream (socket s) @ bytes_sent (send_buffer s) op ev \<and>
     (send_shut_down (socket s) \<longrightarrow> send_shut_down (socket s')) \<and>
     (closed (socket s) \<longrightarrow> closed (socket s'))"

lemma kept_extended:
  "streams_kept t s' \<Longrightarrow> received_stream (socket t) = received_stream (socket s) @ bytes_received op ev \<Longrightarrow>
   sent_stream (socket t) = sent_stream (socket s) @ bytes_sent (send_buffer s) op ev \<Longrightarrow>
   send_shut_down (socket t) = send_shut_down (socket s) \<Longrightarrow> closed (socket t) = closed (socket s) \<Longrightarrow>
   streams_extended op ev s s'"
  by (simp add: streams_kept_def streams_extended_def)

lemma on_receive_streams:
  "streams_kept s (on_receive tcp_async_receive tcp_finish_receive e n left s)"
proof -
  have "streams_kept s (tcp_finish_receive t)" if "socket t = socket s" for t
    using streams_kept_finish(1) [of t] that by (simp add: streams_kept_def)
  then show ?thesis by (simp add: on_receive_def Let_def streams_kept_same)
qed

lemma on_send_streams:
  "streams_kept s (on_send tcp_async_send tcp_finish_send e n left s)"
proof -
  have "streams_kept s (tcp_finish_send t)" if "socket t = socket s" for t
    using streams_kept_finish(2) [of t] that by (simp add: streams_kept_def)
  then show ?thesis by (simp add: on_send_def Let_def streams_kept_same)
qed

lemma on_eof_streams: "streams_kept s (tcp_on_eof e n (store_received data s))"
  using streams_kept_finish(3) [of "store_received data s"] by (simp add: streams_kept_def)

lemma slice_streams:
  "streams_kept s (on_receive_slice tcp_async_receive e s)" "streams_kept s (on_send_slice tcp_async_send e s)"
  by (simp_all add: streams_kept_same on_receive_slice_def on_send_slice_def begin_slice_def)

lemma other_streams:
  "streams_kept s (on_signal_number e n s)" "streams_kept s (on_timeout e s)" "streams_kept s (start_timer s)"
  "streams_kept s s"
  by (simp_all add: streams_kept_same on_signal_number_def on_timeout_def)

lemma handle_streams: "streams_extended op ev s (handle tcp_virtuals op ev s)"
proof (cases "(tcp_virtuals, op, ev, s)" rule: handle.cases)
  case (5 v p left n e data s)
  then show ?thesis
    by (auto simp: tcp_virtuals_def log_received_def intro!: kept_extended on_receive_streams)
next
  case (7 v p left offset n e k s)
  then show ?thesis
    by (auto simp: tcp_virtuals_def log_sent_def intro!: kept_extended on_send_streams)
qed (auto simp: tcp_virtuals_def
      intro!: kept_extended [of s] other_streams slice_streams on_eof_streams streams_kept_start)

section \<open>When sending is shut down\<close>

text \<open>\<open>Session_Invariants\<close> bounds when sending may be shut down; here is when it has been.\<close>

fun is_eof :: "operation \<Rightarrow> bool" where
  "is_eof (Receive_eof p) \<longleftrightarrow> True"
| "is_eof _ \<longleftrightarrow> False"

definition awaits_eof :: "Session \<Rightarrow> bool" where
  "awaits_eof s \<longleftrightarrow> list_ex is_eof (pending s)"

definition shutdown_due :: "Session \<Rightarrow> bool" where
  "shutdown_due s \<longleftrightarrow>
     (case shutdown_policy (configuration s) of
        SEND_COMPLETE \<Rightarrow> is_send_complete s
      | RECEIVE_COMPLETE \<Rightarrow> awaits_eof s \<or> is_receive_complete s
      | WAIT_FOR_PEER \<Rightarrow> is_receive_complete s)"

definition punctual :: "Session \<Rightarrow> bool" where
  "punctual s \<longleftrightarrow> (shutdown_due s \<longrightarrow> send_shut_down (socket s))"

text \<open>What the handlers other than that of the end of the stream do.\<close>

definition keeps_due :: "Session \<Rightarrow> Session \<Rightarrow> bool" where
  "keeps_due s s' \<longleftrightarrow>
     configuration s' = configuration s \<and>
     (send_shut_down (socket s) \<longrightarrow> send_shut_down (socket s')) \<and>
     (shutdown_policy (configuration s) = WAIT_FOR_PEER \<and> send_shut_down (socket s') \<longrightarrow>
        send_shut_down (socket s)) \<and>
     (shutdown_due s' \<longrightarrow> shutdown_due s \<or> send_shut_down (socket s'))"

lemma keeps_due_refl [simp]: "keeps_due s s"
  by (simp add: keeps_due_def)

lemma keeps_due_trans:
  assumes "keeps_due s t" and "keeps_due t s'"
  shows "keeps_due s s'"
proof -
  have "configuration t = configuration s" by (rule assms(1) [unfolded keeps_due_def, THEN conjunct1])
  then show ?thesis using assms unfolding keeps_due_def by metis
qed

lemma keeps_due_same:
  "configuration s' = configuration s \<Longrightarrow> socket s' = socket s \<Longrightarrow> is_send_complete s' = is_send_complete s \<Longrightarrow>
   is_receive_complete s' = is_receive_complete s \<Longrightarrow> awaits_eof s' = awaits_eof s \<Longrightarrow> keeps_due s s'"
  by (simp add: keeps_due_def shutdown_due_def split: ShutdownPolicy.splits)

lemma cancel_eof [simp]:
  "is_eof (cancel_signal op) = is_eof op" "is_eof (cancel_timeout op) = is_eof op"
  "is_eof (cancel_receive_slice op) = is_eof op" "is_eof (cancel_send_slice op) = is_eof op"
  "is_eof (cancel_io op) = is_eof op" "is_eof (completed op) = is_eof op"
  by (cases op; simp; rename_tac p; case_tac p; simp)+

lemma list_ex_map_cancel [simp]: "(\<And>op. P (f op) = P op) \<Longrightarrow> list_ex P (map f ops) = list_ex P ops"
  by (induction ops) simp_all

lemma awaits_eof_start_op [simp]: "awaits_eof (start_op op s) \<longleftrightarrow> is_eof op \<or> awaits_eof s"
  by (auto simp: awaits_eof_def start_op_def)

lemma keeps_due_ops:
  "\<not> is_eof op \<Longrightarrow> keeps_due s (start_op op s)"
  "keeps_due s (delay_receive s)" "keeps_due s (delay_send s)" "keeps_due s (abort_with e s)"
  "keeps_due s (base_finish_receive s)" "keeps_due s (base_finish_send s)"
  "keeps_due s (count_received n s)" "keeps_due s (count_sent n s)"
  "keeps_due s (verify_bytes n s)"
  by (rule keeps_due_same;
      simp add: start_op_def awaits_eof_def delay_receive_def delay_send_def abort_with_def base_finish_receive_def
        base_finish_send_def count_received_def count_sent_def verify_bytes_fields)+

lemma keeps_due_async:
  "keeps_due s (tcp_async_receive n s)" "keeps_due s (tcp_async_send n s)"
  by (simp_all add: tcp_async_receive_def tcp_async_send_def Let_def keeps_due_ops)

lemma awaits_eof_close [simp]:
  "awaits_eof (on_receive_complete close_socket s) = awaits_eof s"
  "awaits_eof (on_send_complete close_socket s) = awaits_eof s"
  "awaits_eof (shutdown_send s) = awaits_eof s" "awaits_eof (base_finish_receive s) = awaits_eof s"
  "awaits_eof (base_finish_send s) = awaits_eof s"
  by (simp_all add: awaits_eof_def on_receive_complete_def on_send_complete_def on_finish_def Let_def
      close_socket_def shutdown_send_def base_finish_receive_def base_finish_send_def del: map_map)

lemma complete_fields [simp]:
  "configuration (on_receive_complete close_socket s) = configuration s"
  "configuration (on_send_complete close_socket s) = configuration s"
  "send_shut_down (socket (on_receive_complete close_socket s)) = send_shut_down (socket s)"
  "send_shut_down (socket (on_send_complete close_socket s)) = send_shut_down (socket s)"
  "is_send_complete (on_receive_complete close_socket s) = is_send_complete s"
  "is_receive_complete (on_send_complete close_socket s) = is_receive_complete s"
  "is_receive_complete (on_receive_complete close_socket s)" "is_send_complete (on_send_complete close_socket s)"
  by (simp_all add: on_receive_complete_def on_send_complete_def on_finish_def Let_def close_socket_def)

lemma shutdown_fields [simp]:
  "send_shut_down (socket (shutdown_send s))" "is_send_complete (shutdown_send s) = is_send_complete s"
  "is_receive_complete (shutdown_send s) = is_receive_complete s"
  "is_send_complete (base_finish_receive s) = is_send_complete s"
  "is_receive_complete (base_finish_receive s) = is_receive_complete s"
  "is_send_complete (base_finish_send s) = is_send_complete s"
  "is_receive_complete (base_finish_send s) = is_receive_complete s"
  by (simp_all add: shutdown_send_def base_finish_receive_def base_finish_send_def)

lemma start_op_fields [simp]:
  "configuration (start_op op s) = configuration s" "is_send_complete (start_op op s) = is_send_complete s"
  "is_receive_complete (start_op op s) = is_receive_complete s"
  by (simp_all add: start_op_def)

lemma keeps_due_finish: "keeps_due s (tcp_finish_receive s)" "keeps_due s (tcp_finish_send s)"
  by (simp_all add: keeps_due_def shutdown_due_def tcp_finish_receive_def tcp_finish_send_def Let_def
      split: ShutdownPolicy.splits)

lemma keeps_due_updates:
  "keeps_due s (s\<lparr>statistics := st\<rparr>)" "keeps_due s (s\<lparr>receive_throttle := th\<rparr>)"
  "keeps_due s (s\<lparr>send_throttle := th\<rparr>)"
  by (rule keeps_due_same; simp add: awaits_eof_def)+

lemma keeps_due_start: "keeps_due s (tcp_start_transfer s)"
proof -
  define t where "t = s\<lparr>statistics := (statistics s)\<lparr>start_date := Some (universal_time s)\<rparr>\<rparr>"
  define u where "u = (if direction (configuration t) = TX then tcp_finish_receive t
    else tcp_async_receive 0 (t\<lparr>receive_throttle := reset (steady_time t) (receive_throttle t)\<rparr>))"
  have "keeps_due s t" unfolding t_def by (rule keeps_due_updates)
  moreover have "keeps_due t u"
    using keeps_due_trans [OF keeps_due_updates(2) keeps_due_async(1)] by (simp add: u_def keeps_due_finish)
  moreover have "keeps_due u (tcp_start_transfer s)"
    using keeps_due_trans [OF keeps_due_updates(3) keeps_due_async(2)]
    by (simp add: tcp_start_transfer_def start_transfer_def Let_def keeps_due_finish flip: t_def u_def)
  ultimately show ?thesis by (blast intro: keeps_due_trans)
qed

lemma keeps_due_on_receive:
  "keeps_due s (on_receive tcp_async_receive tcp_finish_receive e n left s)"
  by (auto simp: on_receive_def Let_def
      intro: keeps_due_ops keeps_due_trans [OF keeps_due_trans [OF keeps_due_ops(9) keeps_due_ops(7)]]
        keeps_due_async keeps_due_finish)

lemma keeps_due_on_send:
  "keeps_due s (on_send tcp_async_send tcp_finish_send e n left s)"
  by (auto simp: on_send_def Let_def
      intro: keeps_due_ops keeps_due_trans [OF keeps_due_ops(8)] keeps_due_async keeps_due_finish)

lemma keeps_due_slices:
  "keeps_due s (on_receive_slice tcp_async_receive e s)" "keeps_due s (on_send_slice tcp_async_send e s)"
  using keeps_due_trans [OF keeps_due_updates(2) keeps_due_async(1)]
    keeps_due_trans [OF keeps_due_updates(3) keeps_due_async(2)]
  by (simp_all add: on_receive_slice_def on_send_slice_def begin_slice_def)

lemma keeps_due_others:
  "keeps_due s (on_signal_number e n s)" "keeps_due s (on_timeout e s)" "keeps_due s (start_timer s)"
proof -
  show "keeps_due s (start_timer s)"
    by (rule keeps_due_same)
      (auto simp: start_timer_def crash_def awaits_eof_def start_op_def split: sum.splits)
qed (simp_all add: on_signal_number_def on_timeout_def keeps_due_ops)

lemma keeps_due_logs: "keeps_due s (log_received data (store_received data s))" "keeps_due s (log_sent offset k s)"
  by (simp_all add: keeps_due_def shutdown_due_def log_received_def store_received_def log_sent_def awaits_eof_def
      split: ShutdownPolicy.splits)

lemma handle_keeps_due:
  assumes "\<not> is_eof op"
  shows "keeps_due s (handle tcp_virtuals op ev s)"
  using assms
  by (cases "(tcp_virtuals, op, ev, s)" rule: handle.cases)
    (auto simp: tcp_virtuals_def intro: keeps_due_others keeps_due_slices keeps_due_start
      keeps_due_trans [OF keeps_due_logs(1) keeps_due_on_receive] keeps_due_trans [OF keeps_due_logs(2) keeps_due_on_send])

lemma without_keeps_due: "i < length (pending s) \<Longrightarrow> keeps_due s (without i s)"
  by (auto simp: keeps_due_def shutdown_due_def without_def awaits_eof_def list_ex_iff remove_nth_def
      dest: in_set_takeD in_set_dropD split: ShutdownPolicy.splits)

lemma keeps_due_punctual: "keeps_due s s' \<Longrightarrow> punctual s \<Longrightarrow> punctual s'"
  unfolding keeps_due_def punctual_def by blast

text \<open>The end of the stream, or whatever else that wait reports.\<close>

lemma on_eof_punctual:
  assumes "punctual s" and "awaits_eof s" and "configuration t = configuration s" and "socket t = socket s"
    and "is_send_complete t = is_send_complete s" and "is_receive_complete t = is_receive_complete s"
    and "awaits_eof t \<Longrightarrow> awaits_eof s"
  shows "punctual (tcp_on_eof e n t)"
  using assms
  by (cases "shutdown_policy (configuration s)")
    (auto simp: punctual_def shutdown_due_def tcp_on_eof_def Let_def make_error_code_def abort_with_def)

section \<open>Failures\<close>

lemma failure_same [simp]:
  "session_failure (start_op op s) = session_failure s"
  "session_failure (delay_receive s) = session_failure s" "session_failure (delay_send s) = session_failure s"
  "session_failure (shutdown_send s) = session_failure s" "session_failure (close_socket s) = session_failure s"
  "session_failure (base_finish_receive s) = session_failure s"
  "session_failure (base_finish_send s) = session_failure s"
  "session_failure (count_received n s) = session_failure s" "session_failure (count_sent n s) = session_failure s"
  "session_failure (store_received data s) = session_failure s"
  "session_failure (log_received data s) = session_failure s" "session_failure (log_sent offset k s) = session_failure s"
  "session_failure (on_receive_complete close_socket s) = session_failure s"
  "session_failure (on_send_complete close_socket s) = session_failure s"
  by (simp_all add: start_op_def delay_receive_def delay_send_def shutdown_send_def close_socket_def
      base_finish_receive_def base_finish_send_def count_received_def count_sent_def store_received_def
      log_received_def log_sent_def on_receive_complete_def on_send_complete_def on_finish_def Let_def)

lemma failure_virtuals [simp]:
  "session_failure (tcp_async_receive n s) = session_failure s"
  "session_failure (tcp_async_send n s) = session_failure s"
  "session_failure (tcp_finish_receive s) = session_failure s"
  "session_failure (tcp_finish_send s) = session_failure s"
  "session_failure (tcp_start_transfer s) = session_failure s"
  "session_failure (tcp_on_eof Eof n s) = session_failure s"
  by (simp_all add: tcp_async_receive_def tcp_async_send_def tcp_finish_receive_def tcp_finish_send_def
      tcp_start_transfer_def start_transfer_def tcp_on_eof_def Let_def)

lemma failure_slices [simp]:
  "session_failure (on_receive_slice tcp_async_receive e s) = session_failure s"
  "session_failure (on_send_slice tcp_async_send e s) = session_failure s"
  by (simp_all add: on_receive_slice_def on_send_slice_def begin_slice_def)

text \<open>The events that cannot make a session fail, but for the content of what was received.\<close>

fun harmless :: "operation \<Rightarrow> event \<Rightarrow> bool" where
  "harmless (Wait_signal p) (Signalled e n) \<longleftrightarrow> is_failure e"
| "harmless (Wait_timeout p) (Done e) \<longleftrightarrow> is_failure e"
| "harmless (Receive p left n) (Got e data) \<longleftrightarrow> e = No_error"
| "harmless (Receive_eof p) (Got e data) \<longleftrightarrow> e = Eof"
| "harmless (Send p left offset n) (Wrote e k) \<longleftrightarrow> e = No_error"
| "harmless _ _ \<longleftrightarrow> True"

lemma harmless_failure:
  assumes "harmless op ev" and "event_fits TCP op ev" and "\<And>p left n. op \<noteq> Receive p left n"
  shows "session_failure (handle tcp_virtuals op ev s) = session_failure s"
  using assms
  by (cases "(tcp_virtuals, op, ev, s)" rule: handle.cases)
    (auto simp: tcp_virtuals_def on_signal_number_def on_timeout_def on_send_def Let_def start_timer_process)

lemma mismatches_same [simp]:
  "mismatches (tcp_async_receive n s) = mismatches s" "mismatches (tcp_finish_receive s) = mismatches s"
  by (simp_all add: tcp_async_receive_def tcp_finish_receive_def Let_def delay_receive_def start_op_def
      base_finish_receive_def shutdown_send_def)

lemma receive_failure:
  assumes "length data \<le> 131072" and "length (receive_buffer s) = 131072"
    and "mismatches s = []" and "mismatches (handle tcp_virtuals (Receive p left n) (Got No_error data) s) = []"
  shows "session_failure (handle tcp_virtuals (Receive p left n) (Got No_error data) s) = session_failure s"
proof -
  let ?t = "log_received data (store_received data s)" and ?k = "word_of_nat (length data) :: u64"
  have "unat ?k = length data" using assms(1) by (simp add: unat_of_nat)
  then obtain ms where ms: "verify_bytes ?k ?t = report ms ?t"
    using verify_bytes_report [of ?k ?t] assms(1,2) by (auto simp: log_received_def store_received_def)
  have "mismatches (handle tcp_virtuals (Receive p left n) (Got No_error data) s) = mismatches ?t @ ms"
    by (simp add: tcp_virtuals_def on_receive_def Let_def ms count_received_def)
  then have "ms = []" using assms(4) by simp
  then show ?thesis by (simp add: tcp_virtuals_def on_receive_def Let_def ms)
qed

end
