(* ===== verification/Peers.thy ===== *)
theory Peers
  imports Tcp_Effects "HOL-Library.Sublist"
begin

text \<open>
  Two TCP sessions at the two ends of one connection. The network loses, reorders and
  corrupts nothing; nobody interrupts the sessions and their time limits are not reached.
  What one session may receive is then given by what the other one has sent. The sessions
  match when they agree on the size, send and receive in opposite directions, and do not
  shut down sending while they still send.
\<close>

section \<open>The connection\<close>

text \<open>The bytes that the operating system may have taken from the operation under way.\<close>

fun bytes_of :: "u8 list \<Rightarrow> operation \<Rightarrow> u8 list" where
  "bytes_of buffer (Send p left offset n) = take (unat n) (drop (unat offset) buffer)"
| "bytes_of buffer _ = []"

lemma bytes_of_completed [simp]: "bytes_of buffer (completed op) = bytes_of buffer op"
  by (cases op) simp_all

definition under_way :: "Session \<Rightarrow> u8 list" where
  "under_way s = concat (map (bytes_of (send_buffer s)) (pending s))"

text \<open>All that may have left the session so far, and whether its stream has an end.\<close>

definition available :: "Session \<Rightarrow> u8 list" where
  "available s = sent_stream (socket s) @ under_way s"

definition stream_ended :: "Session \<Rightarrow> bool" where
  "stream_ended s \<longleftrightarrow> send_shut_down (socket s) \<or> closed (socket s)"

text \<open>
  What the network may report to \<open>s\<close> when its peer is \<open>p\<close>. A send reports at least what the
  peer has received of it. A send after the shutdown fails with \<open>EPIPE\<close>, unless the bytes had
  been taken before. The end of the stream comes after all bytes that were sent.
\<close>

definition EPIPE :: int where
  "EPIPE = 32"

fun delivers :: "Session \<Rightarrow> Session \<Rightarrow> operation \<Rightarrow> event \<Rightarrow> bool" where
  "delivers s p (Wait_signal pr) (Signalled e n) \<longleftrightarrow> is_failure e"
| "delivers s p (Wait_timeout pr) (Done e) \<longleftrightarrow> is_failure e"
| "delivers s p (Connect pr) (Done e) \<longleftrightarrow> e = No_error \<or> e = Operation_aborted"
| "delivers s p (Receive pr left n) (Got e data) \<longleftrightarrow>
     e = No_error \<and> prefix (received_stream (socket s) @ data) (available p) \<or>
     e = Eof \<and> data = [] \<and> stream_ended p \<and> prefix (sent_stream (socket p)) (received_stream (socket s))"
| "delivers s p (Receive_eof pr) (Got e data) \<longleftrightarrow>
     e = No_error \<and> prefix (received_stream (socket s) @ data) (available p) \<or>
     e = Eof \<and> data = [] \<and> stream_ended p \<and> prefix (sent_stream (socket p)) (received_stream (socket s))"
| "delivers s p (Send pr left offset n) (Wrote e k) \<longleftrightarrow>
     e = No_error \<and>
       prefix (received_stream (socket p))
         (sent_stream (socket s) @ take (unat k) (drop (unat offset) (send_buffer s))) \<or>
     e = System_error EPIPE \<and> k = 0 \<and> send_shut_down (socket s) \<and>
       prefix (received_stream (socket p)) (sent_stream (socket s))"
| "delivers s p _ _ \<longleftrightarrow> True"

text \<open>An action of one session that its peer and the network permit, in an undisturbed test.\<close>

fun undisturbed :: "Session \<Rightarrow> Session \<Rightarrow> action \<Rightarrow> bool" where
  "undisturbed s p (Clock u t) \<longleftrightarrow> True"
| "undisturbed s p Ask_exit \<longleftrightarrow> False"
| "undisturbed s p (End i) \<longleftrightarrow>
     (case pending s ! i of Wait_signal pr \<Rightarrow> False | Wait_timeout pr \<Rightarrow> False | _ \<Rightarrow> True)"
| "undisturbed s p (Run i ev) \<longleftrightarrow> delivers s p (pending s ! i) ev"

datatype side = Left_peer | Right_peer

fun pair_perform :: "side \<times> action \<Rightarrow> Session \<times> Session \<Rightarrow> (Session \<times> Session) option" where
  "pair_perform (Left_peer, a) (s, p) =
     (if undisturbed s p a then map_option (\<lambda>s'. (s', p)) (perform a s) else None)"
| "pair_perform (Right_peer, a) (s, p) =
     (if undisturbed p s a then map_option (\<lambda>p'. (s, p')) (perform a p) else None)"

fun pair_performs :: "(side \<times> action) list \<Rightarrow> Session \<times> Session \<Rightarrow> (Session \<times> Session) option" where
  "pair_performs [] sp = Some sp"
| "pair_performs (x # xs) sp = (case pair_perform x sp of None \<Rightarrow> None | Some sp' \<Rightarrow> pair_performs xs sp')"

text \<open>Two sessions just created, and what a schedule of both can make of them.\<close>

definition created :: "SessionConfiguration \<Rightarrow> Session \<Rightarrow> bool" where
  "created c s \<longleftrightarrow> (\<exists>random tps universal steady. draws_ok c random \<and>
     create_session random tps universal steady c = Inr s)"

definition pair_reachable :: "SessionConfiguration \<Rightarrow> SessionConfiguration \<Rightarrow> Session \<times> Session \<Rightarrow> bool" where
  "pair_reachable c d sp \<longleftrightarrow>
     (\<exists>s p xs. created c s \<and> created d p \<and> pair_performs xs (s, p) = Some sp)"

section \<open>Matching sessions\<close>

definition matching :: "SessionConfiguration \<Rightarrow> SessionConfiguration \<Rightarrow> bool" where
  "matching c d \<longleftrightarrow>
     valid_configuration c \<and> valid_configuration d \<and> protocol c = TCP \<and> protocol d = TCP \<and>
     size_value (total_size c) = size_value (total_size d) \<and>
     (direction c = BOTH \<and> direction d = BOTH \<and> shutdown_policy c = shutdown_policy d \<and>
        shutdown_policy c \<noteq> RECEIVE_COMPLETE \<or>
      direction c = TX \<and> direction d = RX \<or> direction c = RX \<and> direction d = TX)"

definition both_wait :: "SessionConfiguration \<Rightarrow> SessionConfiguration \<Rightarrow> bool" where
  "both_wait c d \<longleftrightarrow> shutdown_policy c = WAIT_FOR_PEER \<and> shutdown_policy d = WAIT_FOR_PEER"

lemma matching_sym: "matching c d \<Longrightarrow> matching d c"
  unfolding matching_def by metis

lemma both_wait_sym: "both_wait c d \<Longrightarrow> both_wait d c"
  unfolding both_wait_def by blast

text \<open>
  An echoing peer sends back what it receives and ends its stream when the session does. It
  is a session's own image: what it has sent is what it has received. Such a session sends and
  receives, under any shutdown policy.
\<close>

definition echoed :: "SessionConfiguration \<Rightarrow> bool" where
  "echoed c \<longleftrightarrow> valid_configuration c \<and> protocol c = TCP \<and> direction c = BOTH"

section \<open>The invariant of a pair\<close>

text \<open>What holds of \<open>s\<close> when its peer is \<open>p\<close>.\<close>

definition half_ok :: "Session \<Rightarrow> Session \<Rightarrow> bool" where
  "half_ok s p \<longleftrightarrow>
     session_inv s \<and> session_failure s = No_error \<and> punctual s \<and>
     (direction (configuration s) = RX \<longrightarrow> sent_stream (socket s) = []) \<and>
     prefix (received_stream (socket s)) (available p) \<and>
     (shutdown_policy (configuration s) = WAIT_FOR_PEER \<and> send_shut_down (socket s) \<longrightarrow>
        stream_ended p \<and> shutdown_policy (configuration p) \<noteq> WAIT_FOR_PEER)"

definition pair_ok :: "Session \<Rightarrow> Session \<Rightarrow> bool" where
  "pair_ok s p \<longleftrightarrow> matching (configuration s) (configuration p) \<and> half_ok s p \<and> half_ok p s"

text \<open>What the two kinds of peers have in common.\<close>

definition linked :: "Session \<Rightarrow> Session \<Rightarrow> bool" where
  "linked s p \<longleftrightarrow>
     (matching (configuration s) (configuration p) \<or> s = p \<and> echoed (configuration s)) \<and>
     half_ok s p \<and> half_ok p s"

lemma pair_linked: "pair_ok s p \<Longrightarrow> linked s p"
  by (simp add: pair_ok_def linked_def)

lemma linked_sym: "linked s p \<Longrightarrow> linked p s"
  unfolding linked_def using matching_sym by blast

lemma pair_ok_sym: "pair_ok s p \<Longrightarrow> pair_ok p s"
  unfolding pair_ok_def using matching_sym by blast

lemma half_base: "half_ok s p \<Longrightarrow> base_ok s"
  by (simp add: half_ok_def session_inv_def)

lemma linked_protocol: "linked s p \<Longrightarrow> protocol (configuration s) = TCP"
  by (auto simp: linked_def matching_def echoed_def)

lemma half_alive:
  assumes "linked s p"
  shows "crashed s = None" and "protocol (configuration s) = TCP" and "session_inv s" and "half_ok s p" and "half_ok p s"
  using assms linked_protocol [OF assms] by (simp_all add: linked_def half_ok_def session_inv_def base_ok_def)

text \<open>A socket is closed after it was shut down.\<close>

lemma closed_shut:
  assumes "base_ok s" and "punctual s" and "closed (socket s)"
  shows "send_shut_down (socket s)"
  using assms
  by (cases "shutdown_policy (configuration s)")
    (auto simp: base_ok_def closing_ok_def punctual_def shutdown_due_def)

lemma ended_shut:
  assumes "half_ok s p"
  shows "stream_ended s \<longleftrightarrow> send_shut_down (socket s)"
proof -
  have "punctual s" using assms by (simp add: half_ok_def)
  then show ?thesis using closed_shut [OF half_base [OF assms]] by (auto simp: stream_ended_def)
qed

section \<open>What the invariant excludes\<close>

lemma half_streams:
  assumes "half_ok s p"
  shows "sent_stream (socket s) = ramp 0 (unat (sent s))" and "sent s \<le> goal s"
    and "length (received_stream (socket s)) = unat (received s)" and "send_buffer s = ramp 0 131072"
  using half_base [OF assms] by (simp_all add: base_ok_def streams_ok_def)

lemma under_way_tx: "under_way s = concat (map (bytes_of (send_buffer s)) (tx_ops s))"
proof -
  have "concat (map (bytes_of b) ops) = concat (map (bytes_of b) (filter is_tx ops))" for b ops
    by (induction ops; simp) (case_tac a; simp)
  then show ?thesis by (simp add: under_way_def tx_ops_def)
qed

lemma tx_lane_split:
  assumes "session_inv s"
  obtains (start) "start_ops s \<noteq> []" "tx_ops s = []" "sent s = 0" "fresh s"
    | (complete) "start_ops s = []" "tx_ops s = []" "is_send_complete s" "send_goal s"
    | (failed) "start_ops s = []" "tx_ops s = []" "is_failure (session_failure s)"
    | (slice) p where "start_ops s = []" "tx_ops s = [Wait_send_slice p]" "tx_op_ok s (Wait_send_slice p)"
    | (send) p left offset n where "start_ops s = []" "tx_ops s = [Send p left offset n]"
        "tx_op_ok s (Send p left offset n)"
proof (cases "start_ops s = []")
  case False
  then show thesis using assms start by (simp add: session_inv_def fresh_def)
next
  case True
  then have lane: "tx_lane_ok s" using assms by (simp add: session_inv_def)
  show thesis
  proof (cases "tx_ops s")
    case Nil
    then show thesis using lane True complete failed by (auto simp: tx_lane_ok_def split: if_splits)
  next
    case (Cons op ops)
    then have "ops = []" "tx_op_ok s op" using lane by (auto simp: tx_lane_ok_def)
    then show thesis using Cons True slice send by (cases op) (auto simp: tx_op_ok_def)
  qed
qed

text \<open>All that is available is the ramp, up to a position within the size.\<close>

lemma send_bytes:
  assumes op: "tx_op_ok s (Send p left offset n)" and k: "k \<le> n"
  shows "ramp 0 (unat (sent s)) @ take (unat k) (drop (unat offset) (ramp 0 131072)) = ramp 0 (unat (sent s) + unat k)"
    and "unat (sent s) + unat k \<le> unat (goal s)"
proof -
  have offset: "offset = ucast (ucast (sent s) :: u8)" and room: "n \<le> BUFFER_SIZE - offset"
    and left: "n \<le> left" "left \<le> goal s - sent s" and lt: "sent s < goal s"
    using op by (auto simp: tx_op_ok_def)
  note off = offset_room [OF offset]
  have "k \<le> goal s - sent s" using k left by simp
  then show "unat (sent s) + unat k \<le> unat (goal s)"
    using lt by (simp add: word_le_nat_alt word_less_nat_alt unat_minus_le)
  have "unat k \<le> 131072 - unat offset" using k room off by (simp add: word_le_nat_alt)
  then have "unat offset + unat k \<le> 131072" using off by linarith
  from sent_chunk_content [OF off(1) this]
  show "ramp 0 (unat (sent s)) @ take (unat k) (drop (unat offset) (ramp 0 131072)) = ramp 0 (unat (sent s) + unat k)" .
qed

lemma available_ramp:
  assumes half: "half_ok s p"
  obtains m where "available s = ramp 0 m" "m \<le> unat (goal s)"
    "direction (configuration s) = RX \<Longrightarrow> m = 0"
proof -
  note streams = half_streams [OF half]
  have inv: "session_inv s" using half by (simp add: half_ok_def)
  have rx: "direction (configuration s) = RX \<Longrightarrow> unat (sent s) = 0"
    using half streams(1) by (metis half_ok_def length_ramp list.size(3))
  note position = that
  have idle: thesis if "under_way s = []"
    using that streams(1,2) rx by (intro position [of "unat (sent s)"]) (simp_all add: available_def word_le_nat_alt)
  show thesis
    using inv
  proof (cases rule: tx_lane_split)
    case (send pr left offset n)
    have "available s = ramp 0 (unat (sent s) + unat n)"
      using send streams(1,4) send_bytes(1) [OF send(3), of n]
      by (simp add: available_def under_way_tx)
    moreover have "direction (configuration s) \<noteq> RX" using send(3) by (simp add: tx_op_ok_def)
    ultimately show thesis using send_bytes(2) [OF send(3), of n] position by blast
  qed (simp_all add: idle under_way_tx)
qed

lemma prefix_ramp: "prefix xs (ramp 0 m) \<longleftrightarrow> xs = ramp 0 (length xs) \<and> length xs \<le> m"
proof
  assume "prefix xs (ramp 0 m)"
  then have "length xs \<le> m" "xs = take (length xs) (ramp 0 m)"
    using prefix_length_le [of xs "ramp 0 m"] by (auto simp: prefix_def)
  then show "xs = ramp 0 (length xs) \<and> length xs \<le> m"
    using take_drop_ramp [of 0 "length xs" m 0] by simp
next
  assume "xs = ramp 0 (length xs) \<and> length xs \<le> m"
  then show "prefix xs (ramp 0 m)"
    using ramp_append [of 0 "length xs" "m - length xs"] by (metis add_0 le_add_diff_inverse prefix_def)
qed

lemma half_received:
  assumes "half_ok s p" and "half_ok p s"
  shows "received_stream (socket s) = ramp 0 (unat (received s))" and "unat (received s) \<le> unat (goal p)"
proof -
  obtain m where "available p = ramp 0 m" "m \<le> unat (goal p)"
    using available_ramp [OF assms(2)] by blast
  moreover have "prefix (received_stream (socket s)) (available p)" using assms(1) by (simp add: half_ok_def)
  ultimately show "received_stream (socket s) = ramp 0 (unat (received s))" "unat (received s) \<le> unat (goal p)"
    using prefix_ramp [of "received_stream (socket s)" m] half_streams(3) [OF assms(1)] by simp_all
qed

lemma matching_goal: "linked s p \<Longrightarrow> goal p = goal s"
  by (auto simp: linked_def matching_def)

lemma matching_directions:
  "linked s p \<Longrightarrow> direction (configuration s) = TX \<longleftrightarrow> direction (configuration p) = RX"
  "linked s p \<Longrightarrow> direction (configuration s) = RX \<longleftrightarrow> direction (configuration p) = TX"
  by (auto simp: linked_def matching_def echoed_def)

lemma complete_sent:
  assumes "session_inv s" and "is_send_complete s"
  shows "send_goal s"
  using assms by (auto simp: session_inv_def fresh_def tx_lane_cases split: if_splits)

text \<open>When a session has shut down sending, its peer lacks nothing.\<close>

lemma shut_delivered:
  assumes ok: "linked s p" and shut: "send_shut_down (socket s)"
  shows "direction (configuration s) = RX \<or> sent s = goal s \<or> goal s \<le> received p"
proof -
  note half = half_alive(4,5) [OF ok]
  show ?thesis
  proof (cases "shutdown_policy (configuration s)")
    case SEND_COMPLETE
    then have "is_send_complete s" using half_base [OF half(1)] shut by (simp add: base_ok_def closing_ok_def)
    then show ?thesis using complete_sent half(1) by (auto simp: half_ok_def send_goal_def)
  next
    case RECEIVE_COMPLETE
    then have "receive_goal s" using half_base [OF half(1)] shut by (simp add: base_ok_def closing_ok_def)
    moreover have "direction (configuration s) = RX \<or> s = p"
      using ok RECEIVE_COMPLETE by (auto simp: linked_def matching_def valid_configuration_def)
    moreover have "direction (configuration s) \<noteq> TX"
      using ok RECEIVE_COMPLETE by (auto simp: linked_def matching_def echoed_def valid_configuration_def)
    ultimately show ?thesis by (auto simp: receive_goal_def)
  next
    case WAIT_FOR_PEER
    then have peer: "stream_ended p" "shutdown_policy (configuration p) \<noteq> WAIT_FOR_PEER"
      using half(1) shut by (auto simp: half_ok_def)
    then have match: "matching (configuration s) (configuration p)" using ok WAIT_FOR_PEER by (auto simp: linked_def)
    have "shut_p": "send_shut_down (socket p)" using peer(1) ended_shut [OF half(2)] by simp
    show ?thesis
    proof (cases "direction (configuration s)")
      case TX
      then have "direction (configuration p) = RX" using matching_directions(1) [OF ok] by simp
      moreover from this have "shutdown_policy (configuration p) \<noteq> SEND_COMPLETE"
        using match by (auto simp: matching_def valid_configuration_def)
      ultimately show ?thesis
        using half_base [OF half(2)] shut_p matching_goal [OF ok]
        by (auto simp: base_ok_def closing_ok_def receive_goal_def)
    qed (use match WAIT_FOR_PEER peer in \<open>auto simp: matching_def\<close>)
  qed
qed

lemma no_early_end:
  assumes ok: "linked s p" and op: "rx_op_ok s (Receive pr left n)"
  shows "\<not> (stream_ended p \<and> prefix (sent_stream (socket p)) (received_stream (socket s)))"
proof
  assume ended: "stream_ended p \<and> prefix (sent_stream (socket p)) (received_stream (socket s))"
  note half = half_alive(4,5) [OF ok]
  have lt: "received s < goal s" and dir: "direction (configuration s) \<noteq> TX" using op by (auto simp: rx_op_ok_def)
  have "unat (sent p) \<le> unat (received s)"
    using ended half_streams [OF half(2)] half_streams(3) [OF half(1)] prefix_length_le by force
  moreover have "direction (configuration p) = RX \<or> sent p = goal p \<or> goal p \<le> received s"
    using shut_delivered [OF linked_sym [OF ok]] ended ended_shut [OF half(2)] by simp
  ultimately show False
    using lt dir matching_goal [OF ok] matching_directions(1) [OF ok] by (auto simp: word_less_nat_alt word_le_nat_alt)
qed

lemma no_data_after_goal:
  assumes ok: "linked s p" and goal: "receive_goal s"
    and data: "prefix (received_stream (socket s) @ data) (available p)"
  shows "data = []"
proof -
  note half = half_alive(4,5) [OF ok]
  obtain m where m: "available p = ramp 0 m" "m \<le> unat (goal p)" "direction (configuration p) = RX \<Longrightarrow> m = 0"
    using available_ramp [OF half(2)] by blast
  have "unat (received s) + length data \<le> m"
    using data m(1) half_streams(3) [OF half(1)] prefix_length_le by fastforce
  moreover have "m \<le> unat (received s)"
    using goal m(2,3) matching_goal [OF ok] matching_directions(1) [OF ok]
    by (auto simp: receive_goal_def word_le_nat_alt)
  ultimately have "length data = 0" by linarith
  then show ?thesis by simp
qed

lemma no_broken_pipe:
  assumes ok: "linked s p" and op: "tx_op_ok s (Send pr left offset n)"
  shows "\<not> (send_shut_down (socket s) \<and> prefix (received_stream (socket p)) (sent_stream (socket s)))"
proof
  assume shut: "send_shut_down (socket s) \<and> prefix (received_stream (socket p)) (sent_stream (socket s))"
  note half = half_alive(4,5) [OF ok]
  have "unat (received p) \<le> unat (sent s)"
    using shut half_streams [OF half(1)] half_streams(3) [OF half(2)] prefix_length_le by force
  then show False
    using shut_delivered [OF ok] shut op by (auto simp: tx_op_ok_def word_less_nat_alt word_le_nat_alt)
qed

lemma delivers_harmless:
  assumes ok: "linked s p" and op: "op \<in> set (pending s)" and ev: "allowed TCP op ev" "delivers s p op ev"
  shows "harmless op ev"
proof -
  note inv = half_alive(3) [OF ok]
  note lane = inv_lane_op [OF inv op]
  show ?thesis
  proof (cases "(s, p, op, ev)" rule: delivers.cases)
    case (4 s p pr left n e data)
    then show ?thesis using no_early_end [OF ok, of pr left n] lane(1) ev(2) by auto
  next
    case (5 s p pr e data)
    then have "receive_goal s" using lane(1) by (auto simp: rx_op_ok_def)
    then show ?thesis using 5 no_data_after_goal [OF ok, of data] ev by (auto simp: allowed_def)
  next
    case (6 s p pr left offset n e k)
    then show ?thesis using no_broken_pipe [OF ok, of pr left offset n] lane(2) ev(2) by auto
  qed (use ev in \<open>auto simp: allowed_def\<close>)
qed

end
