(* ===== verification/Peer_Safety.thy ===== *)
theory Peer_Safety
  imports Peers
begin

text \<open>
  Every undisturbed action of either of two matching sessions keeps the invariant of the
  pair: what has been received is a beginning of what has been sent, and neither session
  fails.
\<close>

section \<open>The streams\<close>

definition added :: "action \<Rightarrow> Session \<Rightarrow> u8 list" where
  "added a s = (case a of Run i ev \<Rightarrow> bytes_received (pending s ! i) ev | _ \<Rightarrow> [])"

definition emitted :: "action \<Rightarrow> Session \<Rightarrow> u8 list" where
  "emitted a s = (case a of Run i ev \<Rightarrow> bytes_sent (send_buffer s) (pending s ! i) ev | _ \<Rightarrow> [])"

lemma run_handler_tcp:
  "protocol (configuration s) = TCP \<Longrightarrow> run_handler i ev s = handle tcp_virtuals (pending s ! i) ev (without i s)"
  by (simp add: run_handler_def virtuals_of_def without_def)

lemma without_fields [simp]:
  "socket (without i s) = socket s" "send_buffer (without i s) = send_buffer s"
  "receive_buffer (without i s) = receive_buffer s" "session_failure (without i s) = session_failure s"
  "mismatches (without i s) = mismatches s" "configuration (without i s) = configuration s"
  "is_send_complete (without i s) = is_send_complete s"
  "is_receive_complete (without i s) = is_receive_complete s"
  by (simp_all add: without_def)

lemma perform_run:
  assumes "perform (Run i ev) s = Some s'" and "protocol (configuration s) = TCP"
  shows "i < length (pending s)" and "pending s ! i \<in> set (pending s)" and "allowed TCP (pending s ! i) ev"
    and "s' = handle tcp_virtuals (pending s ! i) ev (without i s)"
  using assms by (auto simp: run_handler_tcp split: if_splits)

lemma perform_not_run:
  assumes "perform a s = Some s'" and "\<And>i ev. a \<noteq> Run i ev"
  shows "socket s' = socket s" and "session_failure s' = session_failure s" and "keeps_due s s'"
proof -
  have member: "list_ex is_eof ops \<longleftrightarrow> True \<in> set (map is_eof ops)" for ops
    by (induction ops) auto
  have eof: "awaits_eof (end_wait i s) = awaits_eof s" if "i < length (pending s)" for i
    using list_update_id [of "map is_eof (pending s)" i] that
    by (simp add: awaits_eof_def end_wait_def member map_update del: set_map)
  then have ended: "keeps_due s (end_wait i s)" if "i < length (pending s)" for i
    by (intro keeps_due_same; (simp add: end_wait_def; fail)?) (simp add: eof that)
  have updates: "keeps_due s (s\<lparr>universal_time := u, steady_time := t\<rparr>)" "keeps_due s (s\<lparr>process := q\<rparr>)"
    for u t q
    by (rule keeps_due_same; simp add: awaits_eof_def)+
  have "(socket s' = socket s \<and> session_failure s' = session_failure s) \<and> keeps_due s s'"
  proof (cases a)
    case (Clock u t)
    then have "s\<lparr>universal_time := u, steady_time := t\<rparr> = s'" using assms(1) by (simp split: if_split_asm)
    with updates(1) show ?thesis by auto
  next
    case Ask_exit
    then have "s\<lparr>process := request_exit (process s)\<rparr> = s'" using assms(1) by simp
    with updates(2) show ?thesis by auto
  next
    case (End i)
    then have "i < length (pending s)" "s' = end_wait i s" using assms(1) by (auto split: if_split_asm)
    moreover have "socket (end_wait i s) = socket s" by (simp add: end_wait_def)
    ultimately show ?thesis using ended by simp
  qed (use assms(2) in blast)
  then show "socket s' = socket s" "session_failure s' = session_failure s" "keeps_due s s'" by blast+
qed

lemma perform_streams:
  assumes "perform a s = Some s'" and "protocol (configuration s) = TCP"
  shows "received_stream (socket s') = received_stream (socket s) @ added a s"
    and "sent_stream (socket s') = sent_stream (socket s) @ emitted a s"
    and "stream_ended s \<Longrightarrow> stream_ended s'"
proof -
  have "received_stream (socket s') = received_stream (socket s) @ added a s \<and>
    sent_stream (socket s') = sent_stream (socket s) @ emitted a s \<and> (stream_ended s \<longrightarrow> stream_ended s')"
  proof (cases a)
    case (Run i ev)
    then show ?thesis
      using perform_run [OF assms(1) [unfolded Run] assms(2)] handle_streams [of "pending s ! i" ev "without i s"]
      by (auto simp: streams_extended_def added_def emitted_def stream_ended_def)
  qed (use perform_not_run [OF assms(1)] in \<open>auto simp: added_def emitted_def stream_ended_def\<close>)
  then show "received_stream (socket s') = received_stream (socket s) @ added a s"
    "sent_stream (socket s') = sent_stream (socket s) @ emitted a s" "stream_ended s \<Longrightarrow> stream_ended s'"
    by simp_all
qed

text \<open>The network adds to what was received only what is available.\<close>

lemma added_available:
  assumes ok: "linked s p" and quiet: "undisturbed s p a" and act: "perform a s = Some s'"
  shows "prefix (received_stream (socket s) @ added a s) (available p)"
proof -
  have old: "prefix (received_stream (socket s)) (available p)" using half_alive(4,5) [OF ok] by (simp add: half_ok_def)
  show ?thesis
  proof (cases a)
    case (Run i ev)
    then show ?thesis
      using quiet old by (cases "pending s ! i"; cases ev) (auto simp: added_def)
  qed (use old in \<open>simp_all add: added_def\<close>)
qed

lemma available_same:
  assumes "session_inv s" and "session_inv s'" and "sent s' = sent s"
    and "\<And>b. map (bytes_of b) (tx_ops s') = map (bytes_of b) (tx_ops s)"
  shows "available s' = available s"
proof -
  have "sent_stream (socket t) = ramp 0 (unat (sent t)) \<and> send_buffer t = ramp 0 131072" if "session_inv t" for t
    using that by (simp add: session_inv_def base_ok_def streams_ok_def)
  then show ?thesis using assms by (simp add: available_def under_way_tx)
qed

lemma fresh_available: "session_inv s \<Longrightarrow> fresh s \<Longrightarrow> available s = []"
  by (simp add: session_inv_def base_ok_def streams_ok_def available_def under_way_tx fresh_def)

text \<open>What a send reports covers what the peer has received of it.\<close>

lemma available_kept:
  assumes ok: "linked s p" and quiet: "undisturbed s p a" and act: "perform a s = Some s'"
  shows "prefix (received_stream (socket p)) (available s')"
proof -
  have inv: "session_inv s" and pr: "protocol (configuration s) = TCP"
    using half_alive [OF ok] by (simp_all add: half_ok_def)
  note inv' = perform_inv [OF inv act]
  have old: "prefix (received_stream (socket p)) (available s)" using half_alive(4,5) [OF ok] by (simp add: half_ok_def)
  have same: "prefix (received_stream (socket p)) (available s')"
    if "sent s' = sent s" "\<And>b. map (bytes_of b) (tx_ops s') = map (bytes_of b) (tx_ops s)"
    using old available_same [OF inv inv'[THEN conjunct1]] that by simp
  show ?thesis
    using perform_view [OF inv act]
  proof cases
    case idle
    then show ?thesis by (intro same) (simp_all add: tx_kept_def)
  next
    case (ended op)
    then show ?thesis by (intro same) (simp_all add: tx_kept_def)
  next
    case started
    then have "fresh s" using inv by (simp add: session_inv_def)
    then show ?thesis using old fresh_available [OF inv] by simp
  next
    case (moved op t)
    then obtain i ev where a: "a = Run i ev" and tx: "is_tx (pending s ! i)" by (cases a) auto
    note run = perform_run [OF act [unfolded a] pr]
    have "pending s ! i \<in> set (tx_ops s)" using run(2) tx by (simp add: tx_ops_def)
    then have op: "pending s ! i = op" using moved(2) by simp
    have "prefix (received_stream (socket p)) (sent_stream (socket s'))"
    proof (cases op)
      case (Wait_send_slice pr)
      then have "available s = sent_stream (socket s)" using moved(2) by (simp add: available_def under_way_tx)
      then show ?thesis
        using old perform_streams(2) [OF act \<open>protocol (configuration s) = TCP\<close>] by (simp add: prefix_prefix)
    next
      case (Send pr left offset n)
      then obtain e k where ev: "ev = Wrote e k" using run(3) op by (cases ev) (auto simp: allowed_def)
      then show ?thesis
        using quiet perform_streams(2) [OF act \<open>protocol (configuration s) = TCP\<close>] a op Send
        by (auto simp: emitted_def)
    qed (use tx op in auto)
    then show ?thesis by (simp add: available_def prefix_prefix)
  qed
qed

section \<open>Each action keeps the invariant of the pair\<close>

lemma content_faithful:
  assumes inv: "session_inv s" and pr: "protocol (configuration s) = TCP"
    and content: "received_stream (socket s) = ramp 0 (length (received_stream (socket s)))"
  shows "mismatches s = []"
proof -
  have "mismatches_from 0 (received_stream (socket s)) = []"
    using content mismatches_from_Nil_iff [of 0 "received_stream (socket s)"] by simp
  then show ?thesis
    using inv pr by (simp add: session_inv_def base_ok_def streams_ok_def)
qed

lemma no_failure:
  assumes ok: "linked s p" and quiet: "undisturbed s p a" and act: "perform a s = Some s'"
  shows "session_failure s' = No_error"
proof -
  have half: "half_ok s p" "half_ok p s" and pr: "protocol (configuration s) = TCP"
    and fine: "session_failure s = No_error" and inv: "session_inv s"
    using half_alive [OF ok] by (simp_all add: half_ok_def)
  show ?thesis
  proof (cases "\<exists>i ev. a = Run i ev")
    case False
    then show ?thesis using perform_not_run(2) [OF act] fine by simp
  next
    case True
    then obtain i ev where a: "a = Run i ev" by blast
    note run = perform_run [OF act [unfolded a] pr]
    have harmless: "harmless (pending s ! i) ev"
      using delivers_harmless [OF ok run(2,3)] quiet a by simp
    show ?thesis
    proof (cases "\<exists>q left n. pending s ! i = Receive q left n")
      case False
      then show ?thesis
        using harmless_failure [OF harmless, of "without i s"] run(3,4) fine by (auto simp: allowed_def)
    next
      case True
      then obtain q left n where op: "pending s ! i = Receive q left n" by blast
      then obtain data where ev: "ev = Got No_error data" "length data \<le> unat n"
        using harmless run(3) by (cases ev) (auto simp: allowed_def)
      have "rx_op_ok s (pending s ! i)" using inv_lane_op(1) [OF inv run(2)] op by simp
      then have "n = min BUFFER_SIZE left" using op by (simp add: rx_op_ok_def)
      then have len: "length data \<le> 131072" using ev(2) by (simp add: unat_min_word BUFFER_SIZE_value)
      obtain m where "available p = ramp 0 m" using available_ramp [OF half(2)] by blast
      then have "received_stream (socket s') = ramp 0 (length (received_stream (socket s')))"
        using added_available [OF ok quiet act] perform_streams(1) [OF act pr]
          prefix_ramp [of "received_stream (socket s')" m] by simp
      then have "mismatches s' = []"
        using perform_inv [OF inv act] pr by (intro content_faithful) simp_all
      moreover have "mismatches s = []"
        using half_base [OF half(1)] fine by (auto simp: base_ok_def failure_ok_def)
      moreover have "length (receive_buffer s) = 131072" using half_base [OF half(1)] by (simp add: base_ok_def)
      ultimately show ?thesis
        using receive_failure [OF len, of "without i s" q left n] run(4) op ev fine by simp
    qed
  qed
qed

lemma still_punctual:
  assumes ok: "linked s p" and act: "perform a s = Some s'"
  shows "punctual s'"
proof -
  have pr: "protocol (configuration s) = TCP" and old: "punctual s"
    using half_alive [OF ok] by (simp_all add: half_ok_def)
  show ?thesis
  proof (cases "\<exists>i ev. a = Run i ev")
    case False
    then show ?thesis using keeps_due_punctual [OF perform_not_run(3) [OF act] old] by simp
  next
    case True
    then obtain i ev where a: "a = Run i ev" by blast
    note run = perform_run [OF act [unfolded a] pr]
    show ?thesis
    proof (cases "is_eof (pending s ! i)")
      case False
      then show ?thesis
        using keeps_due_punctual [OF keeps_due_trans [OF without_keeps_due [OF run(1)] handle_keeps_due] old] run(4)
        by simp
    next
      case True
      then obtain q where op: "pending s ! i = Receive_eof q" by (cases "pending s ! i") auto
      then obtain e data where ev: "ev = Got e data" using run(3) by (cases ev) (auto simp: allowed_def)
      let ?t = "store_received data (without i s)"
      have "awaits_eof s" using run(2) True by (auto simp: awaits_eof_def list_ex_iff)
      then have "punctual (tcp_on_eof e (word_of_nat (length data)) ?t)"
        using old by (intro on_eof_punctual [of s]) (simp_all add: store_received_def)
      then show ?thesis using run(4) op ev by (simp add: tcp_virtuals_def)
    qed
  qed
qed

text \<open>A session that waits for its peer shuts down sending only at the end of the peer's stream.\<close>

lemma waits_for_peer:
  assumes ok: "linked s p" and quiet: "undisturbed s p a" and act: "perform a s = Some s'"
    and wait: "shutdown_policy (configuration s) = WAIT_FOR_PEER" and shut: "send_shut_down (socket s')"
  shows "stream_ended p \<and> shutdown_policy (configuration p) \<noteq> WAIT_FOR_PEER"
proof -
  have half: "half_ok s p" "half_ok p s" and pr: "protocol (configuration s) = TCP"
    using half_alive [OF ok] by simp_all
  show ?thesis
  proof (cases "send_shut_down (socket s)")
    case True
    then show ?thesis using half(1) wait by (simp add: half_ok_def)
  next
    case False
    have "\<not> keeps_due s s'" using False shut wait by (simp add: keeps_due_def)
    then obtain i ev where a: "a = Run i ev" using perform_not_run(3) [OF act] by blast
    note run = perform_run [OF act [unfolded a] pr]
    have "is_eof (pending s ! i)"
      using \<open>\<not> keeps_due s s'\<close> keeps_due_trans [OF without_keeps_due [OF run(1)] handle_keeps_due] run(4) by blast
    then obtain q where op: "pending s ! i = Receive_eof q" by (cases "pending s ! i") auto
    moreover have "harmless (pending s ! i) ev" using delivers_harmless [OF ok run(2,3)] quiet a by simp
    ultimately have "stream_ended p" using quiet a run(3) by (cases ev) (auto simp: allowed_def)
    moreover from this have "shutdown_policy (configuration p) \<noteq> WAIT_FOR_PEER"
      using half wait ended_shut [OF half(2)] by (auto simp: half_ok_def)
    ultimately show ?thesis by simp
  qed
qed

lemma receives_only:
  assumes ok: "linked s p" and act: "perform a s = Some s'" and dir: "direction (configuration s) = RX"
  shows "sent_stream (socket s') = []"
proof -
  have inv: "session_inv s" and pr: "protocol (configuration s) = TCP" and old: "sent_stream (socket s) = []"
    using half_alive [OF ok] dir by (simp_all add: half_ok_def)
  have "emitted a s = []"
  proof (cases a)
    case (Run i ev)
    have "\<not> is_tx (pending s ! i)"
      using inv_lane_op(2) [OF inv perform_run(2) [OF act [unfolded Run] pr]] dir by (auto simp: tx_op_ok_def)
    then show ?thesis using Run by (cases "pending s ! i") (simp_all add: emitted_def)
  qed (simp_all add: emitted_def)
  with old show ?thesis using perform_streams(2) [OF act pr] by simp
qed

lemma peer_step:
  assumes pair: "pair_ok s p" and quiet: "undisturbed s p a" and act: "perform a s = Some s'"
  shows "pair_ok s' p"
proof -
  have half: "half_ok s p" "half_ok p s" and inv: "session_inv s" and pr: "protocol (configuration s) = TCP"
    using pair by (simp_all add: pair_ok_def half_ok_def matching_def)
  note ok = pair_linked [OF pair]
  note inv' = perform_inv [OF inv act]
  have "half_ok s' p"
    using inv' no_failure [OF ok quiet act] still_punctual [OF ok act] receives_only [OF ok act]
      added_available [OF ok quiet act] perform_streams(1) [OF act pr] waits_for_peer [OF ok quiet act]
    by (simp add: half_ok_def)
  moreover have "half_ok p s'"
    using half(2) inv' available_kept [OF ok quiet act] perform_streams(3) [OF act pr] by (simp add: half_ok_def)
  ultimately show ?thesis using pair inv' by (simp add: pair_ok_def)
qed

lemma pair_perform_split:
  assumes "pair_perform x sp = Some sp'"
  obtains (left) a s p s' where "x = (Left_peer, a)" "sp = (s, p)" "sp' = (s', p)" "undisturbed s p a"
      "perform a s = Some s'"
    | (right) a s p p' where "x = (Right_peer, a)" "sp = (s, p)" "sp' = (s, p')" "undisturbed p s a"
      "perform a p = Some p'"
proof (cases "(x, sp)" rule: pair_perform.cases)
  case (1 a s p)
  then show thesis using assms left by (auto split: if_split_asm)
next
  case (2 a s p)
  then show thesis using assms right by (auto split: if_split_asm)
qed

lemma pair_perform_ok:
  assumes "pair_ok (fst sp) (snd sp)" and "pair_perform x sp = Some sp'"
  shows "pair_ok (fst sp') (snd sp')"
  using assms(2)
proof (cases rule: pair_perform_split)
  case (left a s p s')
  then show ?thesis using assms(1) peer_step [of s p a s'] by simp
next
  case (right a s p p')
  then have "pair_ok p s" using assms(1) pair_ok_sym [of s p] by simp
  then have "pair_ok p' s" using right peer_step [of p s a p'] by simp
  then show ?thesis using right pair_ok_sym [of p' s] by simp
qed

lemma pair_perform_configuration:
  assumes "pair_ok (fst sp) (snd sp)" and "pair_perform x sp = Some sp'"
  shows "configuration (fst sp') = configuration (fst sp) \<and> configuration (snd sp') = configuration (snd sp)"
  using assms(2)
proof (cases rule: pair_perform_split)
  case (left a s p s')
  then show ?thesis using assms(1) perform_inv [of s a s'] by (simp add: pair_ok_def half_ok_def)
next
  case (right a s p p')
  then show ?thesis using assms(1) perform_inv [of p a p'] by (simp add: pair_ok_def half_ok_def)
qed

lemma pair_performs_ok:
  "pair_ok (fst sp) (snd sp) \<Longrightarrow> pair_performs xs sp = Some sp' \<Longrightarrow> pair_ok (fst sp') (snd sp')"
  by (induction xs sp rule: pair_performs.induct) (auto split: option.splits dest: pair_perform_ok)

lemma pair_performs_configuration:
  "pair_ok (fst sp) (snd sp) \<Longrightarrow> pair_performs xs sp = Some sp' \<Longrightarrow>
   configuration (fst sp') = configuration (fst sp) \<and> configuration (snd sp') = configuration (snd sp)"
proof (induction xs sp rule: pair_performs.induct)
  case (2 x xs sp)
  then obtain t where t: "pair_perform x sp = Some t" "pair_performs xs t = Some sp'"
    by (auto split: option.splits)
  then show ?case
    using 2(1) [OF t(1)] pair_perform_ok [OF 2(2) t(1)] pair_perform_configuration [OF 2(2) t(1)] by simp
qed simp

section \<open>The beginning\<close>

lemma created_facts:
  assumes c: "valid_configuration c" and new: "created c s"
  shows "session_inv s" and "configuration s = c" and "socket s = new_socket" and "session_failure s = No_error"
    and "\<not> is_send_complete s" and "\<not> is_receive_complete s" and "\<not> awaits_eof s"
    and "start_ops s \<noteq> []" and "reachable c s"
proof -
  obtain random tps universal steady where r: "draws_ok c random"
    and s: "create_session random tps universal steady c = Inr s"
    using new by (auto simp: created_def)
  show "session_inv s" "configuration s = c" using create_session_inv [OF c r s] .
  show "reachable c s" using r s unfolding reachable_def by blast
  obtain s0 where s0: "make_Session random tps universal steady c = Inr s0" and s': "s = initialize (protocol c) s0"
    using s by (auto simp: create_session_unfold and_then_Inr_iff split: if_splits)
  then show "socket s = new_socket" "session_failure s = No_error" "\<not> is_send_complete s"
    "\<not> is_receive_complete s" "\<not> awaits_eof s" "start_ops s \<noteq> []"
    by (cases "protocol c"; auto simp: make_Session_def and_then_Inr_iff initialize_def tcp_initialize_def
        udp_initialize_def base_initialize_def start_op_def Let_def awaits_eof_def lanes)+
qed

lemma created_pair:
  assumes match: "matching c d" and s: "created c s" and p: "created d p"
  shows "pair_ok s p"
proof -
  have valid: "valid_configuration c" "valid_configuration d" using match by (simp_all add: matching_def)
  note facts = created_facts [OF valid(1) s] created_facts [OF valid(2) p]
  have "half_ok s p" "half_ok p s"
    using facts
    by (simp_all add: half_ok_def punctual_def shutdown_due_def new_socket_def split: ShutdownPolicy.splits)
  then show ?thesis using match facts by (simp add: pair_ok_def)
qed

lemma pair_reachable_ok:
  assumes "matching c d" and "pair_reachable c d sp"
  shows "pair_ok (fst sp) (snd sp)" and "configuration (fst sp) = c" and "configuration (snd sp) = d"
proof -
  obtain s p xs where new: "created c s" "created d p" and run: "pair_performs xs (s, p) = Some sp"
    using assms(2) by (auto simp: pair_reachable_def)
  have "pair_ok s p" using created_pair [OF assms(1) new] .
  then show "pair_ok (fst sp) (snd sp)" using pair_performs_ok [of "(s, p)"] run by simp
  show "configuration (fst sp) = c" "configuration (snd sp) = d"
    using pair_performs_configuration [of "(s, p)" xs sp] run \<open>pair_ok s p\<close> created_facts(2) [OF _ new(1)] created_facts(2) [OF _ new(2)] assms(1)
    by (simp_all add: matching_def)
qed

text \<open>Each of the two sessions is one of the reachable sessions that \<open>Session_Claims\<close> is about.\<close>

lemma performs_reachable: "reachable c s \<Longrightarrow> perform a s = Some s' \<Longrightarrow> reachable c s'"
  unfolding reachable_def using step_iff_perform rtranclp.rtrancl_into_rtrancl by metis

lemma pair_performs_reachable:
  "reachable c (fst sp) \<Longrightarrow> reachable d (snd sp) \<Longrightarrow> pair_performs xs sp = Some sp' \<Longrightarrow>
   reachable c (fst sp') \<and> reachable d (snd sp')"
proof (induction xs sp rule: pair_performs.induct)
  case (2 x xs sp)
  then obtain t where t: "pair_perform x sp = Some t" "pair_performs xs t = Some sp'"
    by (auto split: option.splits)
  from t(1) have "reachable c (fst t) \<and> reachable d (snd t)"
    by (cases rule: pair_perform_split) (use 2(2,3) performs_reachable in auto)
  then show ?case using 2(1) [OF t(1)] t(2) by simp
qed simp

lemma pair_reachable_each:
  assumes "matching c d" and "pair_reachable c d sp"
  shows "reachable c (fst sp)" and "reachable d (snd sp)"
proof -
  obtain s p xs where new: "created c s" "created d p" and run: "pair_performs xs (s, p) = Some sp"
    using assms(2) by (auto simp: pair_reachable_def)
  have "reachable c s" "reachable d p"
    using created_facts(9) [OF _ new(1)] created_facts(9) [OF _ new(2)] assms(1) by (simp_all add: matching_def)
  then show "reachable c (fst sp)" "reachable d (snd sp)"
    using pair_performs_reachable [of c "(s, p)" d xs sp] run by simp_all
qed

end
