(* ===== verification/Shutdown.thy ===== *)
theory Shutdown
  imports Peer_Safety
begin

text \<open>
  When exactly a session has shut down sending, and which code exactly it has failed with, in
  every reachable state and for whatever the network does. \<open>Session_Invariants\<close> bounds both
  from one side; the properties of \<open>Session_Claims\<close> rest on the equations proved here.
\<close>

section \<open>The moment of the shutdown\<close>

text \<open>The condition of each policy: what has happened when sending has been shut down.\<close>

definition shutdown_passed :: "Session \<Rightarrow> bool" where
  "shutdown_passed s \<longleftrightarrow>
     (case shutdown_policy (configuration s) of
        SEND_COMPLETE \<Rightarrow> is_send_complete s
      | RECEIVE_COMPLETE \<Rightarrow> start_ops s = [] \<and> receive_goal s
      | WAIT_FOR_PEER \<Rightarrow> start_ops s = [] \<and> receive_goal s \<and> \<not> awaits_eof s)"

definition shutdown_exact :: "Session \<Rightarrow> bool" where
  "shutdown_exact s \<longleftrightarrow> (send_shut_down (socket s) \<longleftrightarrow> shutdown_passed s)"

lemma awaits_eof_lane: "awaits_eof s \<longleftrightarrow> list_ex is_eof (rx_ops s)"
proof -
  have "is_eof op \<Longrightarrow> is_rx op" for op by (cases op) simp_all
  then show ?thesis by (auto simp: awaits_eof_def rx_ops_def list_ex_iff)
qed

lemma shutdown_exact_same:
  "configuration s' = configuration s \<Longrightarrow> socket s' = socket s \<Longrightarrow> is_send_complete s' = is_send_complete s \<Longrightarrow>
   received s' = received s \<Longrightarrow> awaits_eof s' = awaits_eof s \<Longrightarrow> (start_ops s' = []) = (start_ops s = []) \<Longrightarrow>
   shutdown_exact s \<Longrightarrow> shutdown_exact s'"
  by (simp add: shutdown_exact_def shutdown_passed_def receive_goal_def split: ShutdownPolicy.splits)

lemma received_virtuals [simp]:
  "received (tcp_async_receive n s) = received s" "received (tcp_finish_receive s) = received s"
  "received (tcp_on_eof e n s) = received s" "received (verify_bytes n s) = received s"
  "received (log_received data s) = received s" "received (store_received data s) = received s"
  "received (on_receive_complete close_socket s) = received s"
  by (simp_all add: tcp_async_receive_def tcp_finish_receive_def tcp_on_eof_def delay_receive_def start_op_def
      base_finish_receive_def shutdown_send_def Let_def on_receive_complete_def on_finish_def close_socket_def
      abort_with_def verify_bytes_fields log_received_def store_received_def)

lemma configuration_virtuals [simp]:
  "configuration (tcp_async_receive n s) = configuration s" "configuration (tcp_finish_receive s) = configuration s"
  "configuration (tcp_on_eof e n s) = configuration s" "configuration (abort_with e s) = configuration s"
  "configuration (count_received n s) = configuration s"
  by (simp_all add: tcp_async_receive_def tcp_finish_receive_def tcp_on_eof_def delay_receive_def start_op_def
      Let_def abort_with_def count_received_def)

text \<open>The handlers of the receive lane, after their operation has left it.\<close>

lemma eof_exact:
  assumes goal: "receive_goal t" and idle: "\<not> awaits_eof t"
    and after: "start_ops (tcp_on_eof e n t) = []" "is_send_complete (tcp_on_eof e n t) = is_send_complete t"
    and before: "shutdown_policy (configuration t) = WAIT_FOR_PEER \<Longrightarrow> \<not> send_shut_down (socket t)"
      "shutdown_policy (configuration t) = RECEIVE_COMPLETE \<Longrightarrow> send_shut_down (socket t)"
      "shutdown_policy (configuration t) = SEND_COMPLETE \<Longrightarrow> send_shut_down (socket t) = is_send_complete t"
  shows "shutdown_exact (tcp_on_eof e n t)"
proof -
  have "\<not> awaits_eof (tcp_on_eof e n t)"
    using idle by (simp add: tcp_on_eof_def Let_def) (simp add: awaits_eof_def abort_with_def shutdown_send_def)
  moreover have "send_shut_down (socket (tcp_on_eof e n t)) \<longleftrightarrow>
      send_shut_down (socket t) \<or> shutdown_policy (configuration t) = WAIT_FOR_PEER"
    by (simp add: tcp_on_eof_def Let_def)
  ultimately show ?thesis
    using goal before after
    by (simp add: shutdown_exact_def shutdown_passed_def receive_goal_def split: ShutdownPolicy.splits)
qed

lemma receive_exact:
  assumes short: "\<not> receive_goal t"
    and after: "start_ops s' = []" "is_send_complete s' = is_send_complete t" "configuration s' = configuration t"
    and shut: "send_shut_down (socket t) =
      (shutdown_policy (configuration t) = SEND_COMPLETE \<and> is_send_complete t)"
    and s': "s' = on_receive tcp_async_receive tcp_finish_receive e n left t \<or> s' = tcp_async_receive n t"
  shows "shutdown_exact s'"
proof -
  have kept: "shutdown_exact s'" if "socket s' = socket t" "\<not> receive_goal s'"
    using that shut after by (simp add: shutdown_exact_def shutdown_passed_def split: ShutdownPolicy.splits)
  have finished: "shutdown_exact s'" if "s' = tcp_finish_receive u" "receive_goal s'" "socket u = socket t"
      "configuration u = configuration t" for u
  proof -
    have "awaits_eof s'" by (simp add: that(1) tcp_finish_receive_def Let_def)
    moreover have "send_shut_down (socket s') \<longleftrightarrow>
        send_shut_down (socket t) \<or> shutdown_policy (configuration t) = RECEIVE_COMPLETE"
      using that(3,4) by (simp add: that(1) tcp_finish_receive_def Let_def)
    ultimately show ?thesis
      using that(2) shut after
      by (simp add: shutdown_exact_def shutdown_passed_def split: ShutdownPolicy.splits)
  qed
  let ?u = "count_received n (verify_bytes n t)"
  have u: "socket ?u = socket t" "configuration ?u = configuration t"
    by (simp_all add: verify_bytes_fields)
  from s' consider "s' = tcp_async_receive n t" | "s' = t \<or> (\<exists>f. s' = abort_with f t)"
    | "s' = (if received ?u < goal ?u then tcp_async_receive (left - n) ?u else tcp_finish_receive ?u)"
    by (auto simp: on_receive_def Let_def split: if_split_asm)
  then show ?thesis
  proof cases
    case 1
    then show ?thesis using kept short by (simp add: receive_goal_def)
  next
    case 2
    then show ?thesis using kept short by (auto simp: receive_goal_def abort_with_def)
  next
    case 3
    then show ?thesis
      using kept finished [of ?u] u short by (auto simp: receive_goal_def not_less split: if_split_asm)
  qed
qed

text \<open>The handlers of the send lane, and the start.\<close>

lemma send_exact:
  assumes exact: "shutdown_exact t" and turn: "\<not> is_send_complete t"
    and after: "start_ops s' = start_ops t" "awaits_eof s' = awaits_eof t" "received s' = received t"
    and s': "s' = on_send tcp_async_send tcp_finish_send e n left t \<or> s' = tcp_async_send n t"
  shows "shutdown_exact s'"
proof -
  have kept: "shutdown_exact s'" if "socket s' = socket t" "configuration s' = configuration t"
      "is_send_complete s' = is_send_complete t"
    by (rule shutdown_exact_same [OF that(2,1,3) after(3,2) _ exact]) (simp add: after(1))
  have finished: "shutdown_exact s'" if "s' = tcp_finish_send u" "socket u = socket t"
      "configuration u = configuration t" for u
  proof -
    have "is_send_complete s'" "configuration s' = configuration t" "send_shut_down (socket s') \<longleftrightarrow>
        send_shut_down (socket t) \<or> shutdown_policy (configuration t) = SEND_COMPLETE"
      using that(2,3) by (simp_all add: that(1) tcp_finish_send_def Let_def)
    then show ?thesis
      using exact turn after
      by (simp add: shutdown_exact_def shutdown_passed_def receive_goal_def split: ShutdownPolicy.splits)
  qed
  from s' consider "s' = tcp_async_send n t" | "s' = t \<or> (\<exists>f. s' = abort_with f t)"
    | "s' = (if sent (count_sent n t) < goal t then tcp_async_send (left - n) (count_sent n t)
         else tcp_finish_send (count_sent n t))"
    by (auto simp: on_send_def Let_def count_sent_def split: if_split_asm)
  then show ?thesis
  proof cases
    case 1
    then show ?thesis by (intro kept) (simp_all add: tcp_async_send_def delay_send_def Let_def)
  next
    case 2
    then show ?thesis using exact kept by (auto simp: abort_with_def)
  next
    case 3
    then show ?thesis
    proof (cases "sent (count_sent n t) < goal t")
      case True
      with 3 show ?thesis by (intro kept) (simp_all add: tcp_async_send_def delay_send_def count_sent_def Let_def)
    next
      case False
      with 3 show ?thesis using finished [of "count_sent n t"] by (simp add: count_sent_def)
    qed
  qed
qed

lemma async_fields [simp]:
  "awaits_eof (tcp_async_receive n s) = awaits_eof s" "awaits_eof (tcp_async_send n s) = awaits_eof s"
  "is_send_complete (tcp_async_receive n s) = is_send_complete s"
  "is_send_complete (tcp_async_send n s) = is_send_complete s"
  "is_send_complete (tcp_finish_receive s) = is_send_complete s" "awaits_eof (tcp_finish_receive s)"
  "is_send_complete (tcp_finish_send s)" "awaits_eof (tcp_finish_send s) = awaits_eof s"
  "received (tcp_async_send n s) = received s" "received (tcp_finish_send s) = received s"
  "configuration (tcp_async_send n s) = configuration s" "configuration (tcp_finish_send s) = configuration s"
  by (simp_all add: tcp_async_receive_def tcp_async_send_def tcp_finish_receive_def tcp_finish_send_def Let_def)
    (simp_all add: delay_receive_def delay_send_def awaits_eof_def start_op_def base_finish_send_def
      shutdown_send_def on_send_complete_def on_finish_def close_socket_def Let_def)

lemma shut_fields:
  "send_shut_down (socket (tcp_finish_receive s)) \<longleftrightarrow>
     send_shut_down (socket s) \<or> shutdown_policy (configuration s) = RECEIVE_COMPLETE"
  "send_shut_down (socket (tcp_finish_send s)) \<longleftrightarrow>
     send_shut_down (socket s) \<or> shutdown_policy (configuration s) = SEND_COMPLETE"
  by (simp_all add: tcp_finish_receive_def tcp_finish_send_def Let_def)

lemma start_fields:
  fixes s
  defines "s' \<equiv> tcp_start_transfer s"
  shows "configuration s' = configuration s" and "received s' = received s"
    and "is_send_complete s' \<longleftrightarrow> is_send_complete s \<or> direction (configuration s) = RX"
    and "awaits_eof s' \<longleftrightarrow> awaits_eof s \<or> direction (configuration s) = TX"
    and "send_shut_down (socket s') \<longleftrightarrow> send_shut_down (socket s) \<or>
      direction (configuration s) = TX \<and> shutdown_policy (configuration s) = RECEIVE_COMPLETE \<or>
      direction (configuration s) = RX \<and> shutdown_policy (configuration s) = SEND_COMPLETE"
proof -
  define t where "t = s\<lparr>statistics := (statistics s)\<lparr>start_date := Some (universal_time s)\<rparr>\<rparr>"
  define u where "u = (if direction (configuration t) = TX then tcp_finish_receive t
    else tcp_async_receive 0 (t\<lparr>receive_throttle := reset (steady_time t) (receive_throttle t)\<rparr>))"
  have t: "configuration t = configuration s" "received t = received s" "is_send_complete t = is_send_complete s"
    "awaits_eof t = awaits_eof s" "socket t = socket s" by (simp_all add: t_def awaits_eof_def)
  have same: "awaits_eof (v\<lparr>receive_throttle := th\<rparr>) = awaits_eof v" "awaits_eof (v\<lparr>send_throttle := th\<rparr>) = awaits_eof v"
    for v th by (simp_all add: awaits_eof_def)
  have u: "configuration u = configuration s" "received u = received s" "is_send_complete u = is_send_complete s"
    "awaits_eof u \<longleftrightarrow> awaits_eof s \<or> direction (configuration s) = TX"
    "send_shut_down (socket u) \<longleftrightarrow> send_shut_down (socket s) \<or>
      direction (configuration s) = TX \<and> shutdown_policy (configuration s) = RECEIVE_COMPLETE"
    by (auto simp: u_def t same shut_fields)
  have s': "s' = (if direction (configuration u) = RX then tcp_finish_send u
      else tcp_async_send 0 (u\<lparr>send_throttle := reset (steady_time u) (send_throttle u)\<rparr>))"
    by (simp add: s'_def tcp_start_transfer_def start_transfer_def Let_def flip: t_def u_def)
  show "configuration s' = configuration s" "received s' = received s"
    "is_send_complete s' \<longleftrightarrow> is_send_complete s \<or> direction (configuration s) = RX"
    "awaits_eof s' \<longleftrightarrow> awaits_eof s \<or> direction (configuration s) = TX"
    "send_shut_down (socket s') \<longleftrightarrow> send_shut_down (socket s) \<or>
      direction (configuration s) = TX \<and> shutdown_policy (configuration s) = RECEIVE_COMPLETE \<or>
      direction (configuration s) = RX \<and> shutdown_policy (configuration s) = SEND_COMPLETE"
    by (auto simp: s' u same shut_fields)
qed

lemma start_exact:
  assumes fresh: "fresh s" and valid: "valid_configuration (configuration s)" and pr: "protocol (configuration s) = TCP"
    and exact: "shutdown_exact s" and i: "i < length (pending s)" "pending s ! i = Connect p"
  shows "shutdown_exact (tcp_start_transfer (without i s))"
proof -
  let ?t = "without i s"
  have "\<not> awaits_eof ?t"
    using fresh i filter_remove_other [of i "pending s" is_rx]
    by (simp add: fresh_def awaits_eof_lane lanes without_def)
  moreover have "Connect p \<in> set (start_ops s)" using nth_mem [OF i(1)] i(2) pr by (simp add: start_ops_def)
  then have "\<not> send_shut_down (socket s)"
    using fresh exact by (auto simp add: shutdown_exact_def shutdown_passed_def fresh_def split: ShutdownPolicy.splits)
  moreover have "received ?t = 0" "\<not> is_send_complete s" using fresh by (simp_all add: fresh_def without_def)
  ultimately show ?thesis
    using valid
    by (auto simp: shutdown_exact_def shutdown_passed_def start_fields receive_goal_def valid_configuration_def
        split: ShutdownPolicy.splits)
qed

text \<open>Every handler of a TCP session, lane by lane.\<close>

lemma rx_run_exact:
  assumes inv: "session_inv s" and i: "i < length (pending s)" and pr: "protocol (configuration s) = TCP"
    and ok: "allowed TCP (pending s ! i) ev" and exact: "shutdown_exact s" and lane: "is_rx (pending s ! i)"
  shows "shutdown_exact (run_handler i ev s)"
proof -
  let ?t = "without i s" and ?s = "run_handler i ev s"
  note run = run_handler_tcp [OF pr, of i ev] and ok' = ok [folded pr]
  have received: "received ?t = received s" by (simp add: without_def)
  note turn = without_rx_turn [OF inv i lane] and finish = run_rx_move(2) [OF inv i ok' lane]
  have after: "start_ops ?s = []" "is_send_complete ?s = is_send_complete s" "configuration ?s = configuration s"
    using finish by (simp_all add: rx_done_def rx_frame_def)
  have started: "start_ops s = []"
    using inv nth_mem [OF i] lane by (auto simp: session_inv_def fresh_def rx_ops_def filter_empty_conv split: if_split_asm)
  have shut: "send_shut_down (socket s) = (shutdown_policy (configuration s) = SEND_COMPLETE \<and> is_send_complete s)"
    if "\<not> receive_goal s"
    using exact that by (simp add: shutdown_exact_def shutdown_passed_def split: ShutdownPolicy.splits)
  show ?thesis
  proof (cases "pending s ! i")
    case (Wait_receive_slice p)
    then obtain e where ev: "ev = Done e" "\<not> is_failure e" using ok turn(2)
      by (cases ev; cases p) (auto simp: allowed_def rx_op_ok_def)
    let ?u = "?t\<lparr>receive_throttle := fst (begin_slice (receive_throttle s))\<rparr>"
    have eq: "?s = tcp_async_receive (slice_bytes_count (receive_throttle s)) ?u" unfolding run
      by (simp add: Wait_receive_slice ev tcp_virtuals_def on_receive_slice_def begin_slice_def) (simp add: without_def)
    have short: "\<not> receive_goal s" "\<not> receive_goal ?u"
      using turn(2) Wait_receive_slice received by (simp_all add: rx_op_ok_def receive_goal_def not_le)
    have u: "is_send_complete ?u = is_send_complete s" "configuration ?u = configuration s"
      "send_shut_down (socket ?u) = send_shut_down (socket s)" by simp_all
    show ?thesis
      by (rule receive_exact [OF short(2) _ _ _ _ disjI2 [OF eq]]) (simp_all only: after u shut [OF short(1)])
  next
    case (Receive p left n)
    then obtain e data where ev: "ev = Got e data" using ok by (cases ev) (auto simp: allowed_def)
    let ?u = "log_received data (store_received data ?t)"
    have eq: "?s = on_receive tcp_async_receive tcp_finish_receive e (word_of_nat (length data)) left ?u"
      unfolding run by (simp add: Receive ev tcp_virtuals_def)
    have short: "\<not> receive_goal s" "\<not> receive_goal ?u"
      using turn(2) Receive received by (simp_all add: rx_op_ok_def receive_goal_def not_le)
    have u: "is_send_complete ?u = is_send_complete s" "configuration ?u = configuration s"
      "send_shut_down (socket ?u) = send_shut_down (socket s)"
      by (simp_all add: log_received_def store_received_def)
    show ?thesis
      by (rule receive_exact [OF short(2) _ _ _ _ disjI1 [OF eq]]) (simp_all only: after u shut [OF short(1)])
  next
    case (Receive_eof p)
    then obtain e data where ev: "ev = Got e data" using ok by (cases ev) (auto simp: allowed_def)
    let ?u = "store_received data ?t"
    have s': "?s = tcp_on_eof e (word_of_nat (length data)) ?u"
      unfolding run by (simp add: Receive_eof ev tcp_virtuals_def)
    have goal: "receive_goal s" "receive_goal ?u"
      using turn(2) Receive_eof received by (simp_all add: rx_op_ok_def receive_goal_def store_received_def)
    have "awaits_eof s"
      using nth_mem [OF i] Receive_eof by (auto simp: awaits_eof_def list_ex_iff intro!: bexI [of _ "Receive_eof p"])
    moreover have "\<not> awaits_eof ?u"
      using turn(1) by (simp add: awaits_eof_lane rx_turn_def rx_ops_def store_received_def)
    ultimately show ?thesis
      using exact goal started after unfolding s'
      by (intro eof_exact) (simp_all add: shutdown_exact_def shutdown_passed_def store_received_def)
  qed (use lane in simp_all)
qed

lemma tx_run_exact:
  assumes inv: "session_inv s" and i: "i < length (pending s)" and pr: "protocol (configuration s) = TCP"
    and ok: "allowed TCP (pending s ! i) ev" and exact: "shutdown_exact s" and lane: "is_tx (pending s ! i)"
  shows "shutdown_exact (run_handler i ev s)"
proof -
  let ?t = "without i s" and ?s = "run_handler i ev s"
  note run = run_handler_tcp [OF pr, of i ev] and ok' = ok [folded pr]
  have others: "filter P (pending ?t) = filter P (pending s)" if "\<not> P (pending s ! i)" for P
    using filter_remove_other [OF i, of P] that by (simp add: without_def)
  have received: "received ?t = received s" by (simp add: without_def)
  note turn = without_tx_turn [OF inv i lane] and finish = run_tx_move(2) [OF inv i ok' lane]
  have after: "start_ops ?s = []" "rx_ops ?s = rx_ops ?t" "received ?s = received s"
    using finish received by (simp_all add: tx_done_def tx_frame_def)
  have same: "rx_ops ?t = rx_ops s" "start_ops ?t = start_ops s" "start_ops ?t = []"
    using others lanes_disjoint(3,4) [OF lane] turn(1) by (simp_all add: lanes tx_turn_def)
  have exact_t: "shutdown_exact ?t"
    using exact same received by (intro shutdown_exact_same [of ?t s]) (simp_all add: awaits_eof_lane)
  have incomplete: "\<not> is_send_complete ?t" using turn(1) by (simp add: tx_turn_def)
  show ?thesis
  proof (cases "pending s ! i")
    case (Wait_send_slice p)
    then obtain e where ev: "ev = Done e" "\<not> is_failure e" using ok turn(2)
      by (cases ev; cases p) (auto simp: allowed_def tx_op_ok_def)
    let ?u = "?t\<lparr>send_throttle := fst (begin_slice (send_throttle s))\<rparr>"
    have eq: "?s = tcp_async_send (slice_bytes_count (send_throttle s)) ?u" unfolding run
      by (simp add: Wait_send_slice ev tcp_virtuals_def on_send_slice_def begin_slice_def) (simp add: without_def)
    have u: "rx_ops ?u = rx_ops ?t" "start_ops ?u = start_ops ?t" "received ?u = received ?t"
      "is_send_complete ?u = is_send_complete ?t" by (simp_all add: lanes)
    have "shutdown_exact ?u"
      using u by (intro shutdown_exact_same [OF _ _ _ _ _ _ exact_t]) (simp_all add: awaits_eof_lane)
    then show ?thesis
      by (rule send_exact [OF _ _ _ _ _ disjI2 [OF eq]])
        (simp_all only: awaits_eof_lane after u same(1,3) received incomplete not_False_eq_True)
  next
    case (Send p left offset n)
    then obtain e k where ev: "ev = Wrote e k" using ok by (cases ev) (auto simp: allowed_def)
    let ?u = "log_sent offset k ?t"
    have eq: "?s = on_send tcp_async_send tcp_finish_send e k left ?u"
      unfolding run by (simp add: Send ev tcp_virtuals_def)
    have u: "configuration ?u = configuration ?t" "received ?u = received ?t" "rx_ops ?u = rx_ops ?t"
      "start_ops ?u = start_ops ?t" "is_send_complete ?u = is_send_complete ?t"
      "send_shut_down (socket ?u) = send_shut_down (socket ?t)"
      by (simp_all add: log_sent_def lanes)
    have "shutdown_exact ?u"
      using exact_t unfolding shutdown_exact_def shutdown_passed_def receive_goal_def awaits_eof_lane u .
    then show ?thesis
      by (rule send_exact [OF _ _ _ _ _ disjI1 [OF eq]])
        (simp_all only: awaits_eof_lane after u same(1,3) received incomplete not_False_eq_True)
  qed (use lane in simp_all)
qed

lemma other_run_exact:
  assumes inv: "session_inv s" and i: "i < length (pending s)" and pr: "protocol (configuration s) = TCP"
    and ok: "allowed TCP (pending s ! i) ev" and exact: "shutdown_exact s"
    and lane: "\<not> is_rx (pending s ! i)" "\<not> is_tx (pending s ! i)" "\<not> starts TCP (pending s ! i)"
  shows "shutdown_exact (run_handler i ev s)"
proof -
  let ?t = "without i s" and ?s = "run_handler i ev s"
  note run = run_handler_tcp [OF pr, of i ev]
  have others: "filter P (pending ?t) = filter P (pending s)" if "\<not> P (pending s ! i)" for P
    using filter_remove_other [OF i, of P] that by (simp add: without_def)
  have received: "received ?t = received s" by (simp add: without_def)
  have same: "rx_ops ?t = rx_ops s" "start_ops ?t = start_ops s"
    using others lane pr by (simp_all add: lanes)
  have exact_t: "shutdown_exact ?t"
    using exact same received by (intro shutdown_exact_same [of ?t s]) (simp_all add: awaits_eof_lane)
  have aborted: "shutdown_exact (abort_with f ?t)" for f
    by (rule shutdown_exact_same [OF _ _ _ _ _ _ exact_t]) (simp_all add: abort_with_def awaits_eof_def lanes)
  have "base_ok ?t" using inv without_base same_base_ok by (auto simp: session_inv_def)
  note timer = start_timer_same [OF this]
  have timed: "shutdown_exact (start_timer ?t)"
    using timer by (intro shutdown_exact_same [OF _ _ _ _ _ _ exact_t]) (simp_all add: same_base_def awaits_eof_lane)
  show ?thesis
    using lane ok exact_t aborted timed unfolding run
    by (cases "(tcp_virtuals, pending s ! i, ev, ?t)" rule: handle.cases)
      (simp_all add: tcp_virtuals_def allowed_def on_signal_number_def on_timeout_def)
qed

lemma run_exact:
  assumes inv: "session_inv s" and i: "i < length (pending s)" and pr: "protocol (configuration s) = TCP"
    and ok: "allowed TCP (pending s ! i) ev" and exact: "shutdown_exact s"
  shows "shutdown_exact (run_handler i ev s)"
proof (cases "starts TCP (pending s ! i)")
  case False
  then show ?thesis
    using rx_run_exact [OF assms] tx_run_exact [OF assms] other_run_exact [OF assms] by blast
next
  case True
  then obtain p where op: "pending s ! i = Connect p" by (auto simp: starts_iff)
  then obtain e where "ev = Done e" using ok by (cases ev) (auto simp: allowed_def)
  then have "run_handler i ev s = tcp_start_transfer (without i s)" unfolding run_handler_tcp [OF pr] by (simp add: op tcp_virtuals_def)
  moreover have "pending s ! i \<in> set (start_ops s)" using nth_mem [OF i] True pr by (simp add: start_ops_def)
  then have "fresh s" using inv by (auto simp: session_inv_def split: if_split_asm)
  ultimately show ?thesis
    using start_exact [OF _ _ pr exact i op] inv by (simp add: session_inv_def base_ok_def)
qed

section \<open>All steps\<close>

lemma end_wait_filter:
  assumes "i < length (pending s)" and "\<And>op. P (completed op) = P op"
  shows "(filter P (pending (end_wait i s)) = []) = (filter P (pending s) = [])"
  using filter_update_nth [of i "pending s" P completed, OF assms(1) assms(2)] lane_split [of i "pending s" P, OF assms(1)]
  by simp

lemma perform_exact:
  assumes inv: "session_inv s" and pr: "protocol (configuration s) = TCP" and act: "perform a s = Some s'"
    and exact: "shutdown_exact s"
  shows "shutdown_exact s'"
proof (cases a)
  case (Run i ev)
  then show ?thesis using run_exact [OF inv _ pr _ exact, of i ev] act pr by (auto split: if_split_asm)
next
  case (End i)
  then have i: "i < length (pending s)" and s': "s' = end_wait i s" using act by (simp_all split: if_split_asm)
  have "awaits_eof s' = awaits_eof s" "(start_ops s' = []) = (start_ops s = [])"
    using end_wait_filter [OF i, of is_eof] end_wait_filter [OF i, of "starts (protocol (configuration s))"]
    unfolding s' awaits_eof_def start_ops_def list_ex_iff filter_empty_conv by auto
  then show ?thesis
    by (intro shutdown_exact_same [OF _ _ _ _ _ _ exact]) (simp_all add: s' end_wait_def)
next
  case (Clock u t)
  then show ?thesis
    using act by (intro shutdown_exact_same [OF _ _ _ _ _ _ exact]) (auto simp: awaits_eof_def lanes split: if_split_asm)
next
  case Ask_exit
  then show ?thesis
    using act by (intro shutdown_exact_same [OF _ _ _ _ _ _ exact]) (auto simp: awaits_eof_def lanes)
qed

lemma steps_kept:
  assumes "steps s s'" and "session_inv s" and "Q s"
    and "\<And>a s s'. session_inv s \<Longrightarrow> configuration s = c \<Longrightarrow> perform a s = Some s' \<Longrightarrow> Q s \<Longrightarrow> Q s'"
    and "configuration s = c"
  shows "Q s'"
  using assms(1)
proof (induction rule: rtranclp_induct)
  case (step t u)
  then show ?case using steps_inv [OF step(1) assms(2)] assms(4,5) step_iff_perform by metis
qed (rule assms(3))

lemma created_idle:
  assumes "create_session random tps universal steady c = Inr s"
  shows "\<not> send_shut_down (socket s)" and "\<not> is_send_complete s" and "start_ops s \<noteq> []"
proof -
  obtain s0 where s0: "make_Session random tps universal steady c = Inr s0" "s = initialize (protocol c) s0"
    using assms by (auto simp: create_session_unfold and_then_Inr_iff split: if_split_asm)
  then show "\<not> send_shut_down (socket s)" "\<not> is_send_complete s" "start_ops s \<noteq> []"
    by (cases "protocol c"; auto simp: make_Session_def and_then_Inr_iff initialize_def tcp_initialize_def
        udp_initialize_def base_initialize_def start_op_def new_socket_def Let_def lanes)+
qed

lemma udp_socket_same [simp]:
  "socket (udp_async_receive n s) = socket s" "socket (udp_async_send n s) = socket s"
  by (simp_all add: udp_async_receive_eq udp_async_send_def get_max_datagram_size_def Let_def)

lemma udp_shut [simp]:
  "send_shut_down (socket (udp_finish_receive s)) = send_shut_down (socket s)"
  "send_shut_down (socket (udp_finish_send s)) = send_shut_down (socket s)"
  by (simp_all add: udp_finish_receive_def udp_finish_send_def)

lemma udp_never_shuts_down:
  "send_shut_down (socket (handle udp_virtuals op ev s)) = send_shut_down (socket s)"
  by (cases "(udp_virtuals, op, ev, s)" rule: handle.cases)
    (simp_all add: udp_virtuals_def on_signal_number_def on_timeout_def on_receive_slice_def on_send_slice_def
      begin_slice_def on_receive_def on_send_def log_received_def log_sent_def udp_start_transfer_def
      start_transfer_def Let_def)

lemma shutdown_exactly:
  assumes valid: "valid_configuration c" and reach: "reachable c s"
  shows "send_shut_down (socket s) \<longleftrightarrow> protocol c = TCP \<and> shutdown_passed s"
proof -
  obtain random tps universal steady s0 where draws: "draws_ok c random"
    and s0: "create_session random tps universal steady c = Inr s0" and run: "steps s0 s"
    using reach unfolding reachable_def by blast
  note inv = create_session_inv [OF valid draws s0] and new = created_idle [OF s0]
  show ?thesis
  proof (cases "protocol c")
    case TCP
    have "shutdown_exact s0"
      using new by (simp add: shutdown_exact_def shutdown_passed_def split: ShutdownPolicy.splits)
    then have "shutdown_exact s"
      using steps_kept [OF run, of shutdown_exact c] inv perform_exact TCP by blast
    with TCP show ?thesis by (simp add: shutdown_exact_def)
  next
    case UDP
    have "\<not> send_shut_down (socket s')"
      if "perform a t = Some s'" "configuration t = c" "\<not> send_shut_down (socket t)" for a t s'
      using that UDP udp_never_shuts_down
      by (cases a) (auto simp: run_handler_def virtuals_of_def end_wait_def split: if_split_asm)
    then have "\<not> send_shut_down (socket s)"
      using steps_kept [OF run, of "\<lambda>s. \<not> send_shut_down (socket s)" c] inv new(1) by blast
    with UDP show ?thesis by simp
  qed
qed

section \<open>The code that a session fails with\<close>

text \<open>The code with which a handler must abort the session because of what it has been told.\<close>

fun reported :: "operation \<Rightarrow> event \<Rightarrow> error_code" where
  "reported (Wait_signal p) (Signalled e n) =
     (if is_failure e then No_error
      else if n = 2 then Tester_error user_interrupt
      else if n = 15 then Tester_error program_termination
      else Tester_error unknown_signal)"
| "reported (Wait_timeout p) (Done e) = (if is_failure e then No_error else Tester_error test_timeout)"
| "reported (Receive p left n) (Got e data) =
     (if \<not> is_failure e \<or> e = Operation_aborted then No_error
      else if e = Eof then Tester_error unexpected_eof
      else e)"
| "reported (Receive_eof p) (Got e data) =
     (if e = Eof then No_error else if is_failure e then e else Tester_error unexpected_data)"
| "reported (Send p left offset n) (Wrote e k) =
     (if \<not> is_failure e \<or> e = Operation_aborted then No_error else e)"
| "reported _ _ = No_error"

lemma failure_udp [simp]:
  "session_failure (udp_async_receive n s) = session_failure s" "session_failure (udp_async_send n s) = session_failure s"
  "session_failure (udp_finish_receive s) = session_failure s" "session_failure (udp_finish_send s) = session_failure s"
  "session_failure (udp_start_transfer s) = session_failure s"
  by (simp_all add: udp_async_receive_eq udp_async_send_def udp_finish_receive_def udp_finish_send_def
      get_max_datagram_size_def udp_start_transfer_def start_transfer_def crash_def Let_def)

lemma mismatches_more [simp]:
  "mismatches (udp_async_receive n s) = mismatches s" "mismatches (udp_finish_receive s) = mismatches s"
  "mismatches (abort_with e s) = mismatches s" "mismatches (count_received n s) = mismatches s"
  "mismatches (log_received data s) = mismatches s" "mismatches (store_received data s) = mismatches s"
  by (simp_all add: udp_async_receive_eq udp_finish_receive_def on_receive_complete_def on_finish_def
      close_socket_def base_finish_receive_def Let_def abort_with_def count_received_def log_received_def
      store_received_def)

lemma failure_abort [simp]: "session_failure (abort_with e s) = e"
  by (simp add: abort_with_def)

lemma failure_timer [simp]: "session_failure (start_timer s) = session_failure s"
  by (simp add: start_timer_process)

text \<open>Only the handler of a receive logs mismatches; it fails exactly when it has logged one.\<close>

lemma receive_reported:
  assumes len: "length data \<le> 131072" "length (receive_buffer s) = 131072"
    and v: "v = tcp_virtuals \<or> v = udp_virtuals"
    and s': "s' = handle v (Receive p left n) (Got e data) s"
  shows "session_failure s' = (if reported (Receive p left n) (Got e data) \<noteq> No_error
    then reported (Receive p left n) (Got e data)
    else if mismatches s' \<noteq> mismatches s then Tester_error data_mismatch else session_failure s)"
proof -
  let ?t = "log_received data (store_received data s)" and ?k = "word_of_nat (length data) :: u64"
  have "unat ?k = length data" using len(1) by (simp add: unat_of_nat)
  then obtain ms where ms: "verify_bytes ?k ?t = report ms ?t"
    using verify_bytes_report [of ?k ?t] len by (auto simp: log_received_def store_received_def)
  show ?thesis
    using v by (auto simp: s' tcp_virtuals_def udp_virtuals_def on_receive_def Let_def ms make_error_code_def)
qed

lemma mismatches_other [simp]:
  "mismatches (start_op op s) = mismatches s" "mismatches (delay_send s) = mismatches s"
  "mismatches (shutdown_send s) = mismatches s" "mismatches (base_finish_send s) = mismatches s"
  "mismatches (base_finish_receive s) = mismatches s" "mismatches (count_sent k s) = mismatches s"
  "mismatches (log_sent offset k s) = mismatches s" "mismatches (crash f s) = mismatches s"
  "mismatches (on_receive_complete close_socket s) = mismatches s"
  "mismatches (on_send_complete close_socket s) = mismatches s"
  by (simp_all add: start_op_def delay_send_def shutdown_send_def base_finish_send_def base_finish_receive_def
      count_sent_def log_sent_def crash_def on_receive_complete_def on_send_complete_def on_finish_def
      close_socket_def Let_def)

lemma mismatches_virtuals [simp]:
  "mismatches (tcp_async_send n s) = mismatches s" "mismatches (tcp_finish_send s) = mismatches s"
  "mismatches (tcp_on_eof e n s) = mismatches s" "mismatches (start_timer s) = mismatches s"
  "mismatches (udp_async_send n s) = mismatches s" "mismatches (udp_finish_send s) = mismatches s"
  by (auto simp: tcp_async_send_def tcp_finish_send_def tcp_on_eof_def start_timer_def udp_async_send_def
      udp_finish_send_def get_max_datagram_size_def Let_def split: sum.split)

lemma mismatches_start [simp]:
  "mismatches (tcp_start_transfer s) = mismatches s" "mismatches (udp_start_transfer s) = mismatches s"
  by (simp_all add: tcp_start_transfer_def udp_start_transfer_def start_transfer_def Let_def)

lemma other_reported:
  assumes fits: "event_fits pr op ev" and other: "\<And>p left n. op \<noteq> Receive p left n"
    and v: "v = tcp_virtuals \<or> v = udp_virtuals \<and> \<not> is_eof op"
  shows "mismatches (handle v op ev s) = mismatches s" and "session_failure (handle v op ev s) =
    (if reported op ev \<noteq> No_error then reported op ev else session_failure s)"
proof -
  note [simp] = make_error_code_def
  have "mismatches (handle v op ev s) = mismatches s \<and> session_failure (handle v op ev s) =
    (if reported op ev \<noteq> No_error then reported op ev else session_failure s)"
  proof (cases op)
    case (Wait_signal p)
    then show ?thesis using fits by (cases ev) (simp_all add: on_signal_number_def)
  next
    case (Wait_timeout p)
    then show ?thesis using fits by (cases ev) (simp_all add: on_timeout_def)
  next
    case (Wait_receive_slice p)
    then show ?thesis using fits v
      by (cases ev) (auto simp: on_receive_slice_def begin_slice_def tcp_virtuals_def udp_virtuals_def)
  next
    case (Wait_send_slice p)
    then show ?thesis using fits v
      by (cases ev) (auto simp: on_send_slice_def begin_slice_def tcp_virtuals_def udp_virtuals_def)
  next
    case (Receive p left n)
    then show ?thesis using other by blast
  next
    case (Receive_eof p)
    then show ?thesis using fits v by (cases ev) (auto simp: tcp_virtuals_def tcp_on_eof_def Let_def)
  next
    case (Send p left offset n)
    then show ?thesis using fits v
      by (cases ev) (auto simp: on_send_def Let_def tcp_virtuals_def udp_virtuals_def)
  next
    case (Connect p)
    then show ?thesis using fits v by (cases ev) (auto simp: tcp_virtuals_def udp_virtuals_def)
  next
    case (Posted p)
    then show ?thesis using fits v by (cases ev) (auto simp: tcp_virtuals_def udp_virtuals_def)
  qed
  then show "mismatches (handle v op ev s) = mismatches s" and "session_failure (handle v op ev s) =
    (if reported op ev \<noteq> No_error then reported op ev else session_failure s)" by blast+
qed

text \<open>What a step must make the session fail with; \<open>No_error\<close> when it need not.\<close>

fun step_code :: "Session \<Rightarrow> action \<Rightarrow> error_code" where
  "step_code s (Run i ev) = reported (pending s ! i) ev"
| "step_code s _ = No_error"

lemma step_failure:
  assumes inv: "session_inv s" and act: "perform a s = Some s'"
  shows "session_failure s' =
    (if step_code s a \<noteq> No_error then step_code s a
     else if mismatches s' \<noteq> mismatches s then Tester_error data_mismatch else session_failure s)"
proof (cases a)
  case (Run i ev)
  let ?op = "pending s ! i"
  have i: "i < length (pending s)" and ok: "allowed (protocol (configuration s)) ?op ev"
    and s': "s' = handle (virtuals_of (protocol (configuration s))) ?op ev (without i s)"
    using act Run by (simp_all add: run_handler_def without_def split: if_split_asm)
  have v: "virtuals_of (protocol (configuration s)) = tcp_virtuals \<or>
      virtuals_of (protocol (configuration s)) = udp_virtuals \<and> \<not> is_eof ?op"
    using inv_lane_op(1) [OF inv nth_mem [OF i]] by (cases ?op) (auto simp: virtuals_of_def rx_op_ok_def)
  show ?thesis
  proof (cases "\<exists>p left n. ?op = Receive p left n")
    case False
    have "event_fits (protocol (configuration s)) ?op ev" using ok by (simp add: allowed_def)
    note other = other_reported [OF this _ v, of "without i s"]
    have "mismatches s' = mismatches s" "session_failure s' = (if step_code s a \<noteq> No_error
      then step_code s a else session_failure s)" using other False by (auto simp: s' Run)
    then show ?thesis by simp
  next
    case True
    then obtain p left n e data where op: "?op = Receive p left n" "ev = Got e data"
      using ok by (cases ev) (auto simp: allowed_def)
    have "n \<le> BUFFER_SIZE" using inv_lane_op(1) [OF inv nth_mem [OF i]] op(1) by (simp add: rx_op_ok_def)
    then have "unat n \<le> 131072" by (simp add: word_le_nat_alt BUFFER_SIZE_value)
    then have "length data \<le> 131072" using ok op by (auto simp: allowed_def)
    moreover have "length (receive_buffer s) = 131072" using inv by (simp add: session_inv_def base_ok_def)
    ultimately show ?thesis
      using receive_reported [of data "without i s" _ s' p left n e] v by (auto simp: s' Run op)
  qed
qed (use act in \<open>auto simp: end_wait_def split: if_split_asm\<close>)

end
