(* ===== verification/Session_Claims.thy ===== *)
theory Session_Claims
  imports Shutdown
begin

text \<open>
  The properties of a session, over every reachable state, each with a concrete run in
  which its hypotheses hold.
\<close>

section \<open>What an exit without failure means\<close>

text \<open>C1.
  Soundness of a successful run: when no work is left and the session reports no failure,
  every byte that had to be sent was sent, in order, at least as many bytes as had to be
  received were received, and if all of them were to be verified then each of them was
  the expected one.
\<close>

theorem success_is_sound:
  assumes "valid_configuration c" and "reachable c s" and "pending s = []" and "finalize s = No_error"
  shows "(direction c \<noteq> RX \<longrightarrow> sent_stream (socket s) = ramp 0 (unat (size_value (total_size c)))) \<and>
    (direction c \<noteq> TX \<longrightarrow>
       size_value (total_size c) \<le> received s \<and>
       length (received_stream (socket s)) = unat (received s) \<and>
       (verify c = ALL' \<longrightarrow> received_stream (socket s) = ramp 0 (unat (received s))))"
proof -
  note inv = reachable_inv [OF assms(1,2)]
  have "transferred s" using inv(1) assms(3,4) by (intro finished_transferred) (simp_all add: finalize_def)
  then show ?thesis using inv(2) by (auto simp: transferred_def Let_def word_le_nat_alt)
qed

theorem success_is_sound_witness:
  "\<exists>s. reachable sample_configuration s \<and> sent_stream (socket s) = ramp 0 3 \<and>
     received_stream (socket s) = [0, 1, 2] \<and> received_stream (socket s) = ramp 0 (unat (received s))"
proof -
  obtain s where "reachable sample_configuration s" "pending s = []" "finalize s = No_error"
    "received_stream (socket s) = [0, 1, 2]"
    using sample_complete by blast
  moreover have "direction sample_configuration = BOTH" "verify sample_configuration = ALL'"
    "size_value (total_size sample_configuration) = 3"
    by (simp_all add: sample_configuration_def)
  ultimately show ?thesis
    using success_is_sound [OF sample_valid, of s] by (intro exI [of _ s]) auto
qed

section \<open>The content of the streams\<close>

text \<open>C7.
  The payload handed to the peer is at every moment the byte sequence 0, 1, \<dots>, 255, 0, \<dots>,
  whatever the partial sends and the datagram sizes were, it is counted exactly, and it
  never exceeds the configured size.
\<close>

theorem sent_stream_is_ramp:
  assumes "valid_configuration c" and "reachable c s"
  shows "sent_stream (socket s) = ramp 0 (unat (sent s)) \<and> sent s \<le> size_value (total_size c)"
  using reachable_base [OF assms] reachable_inv(2) [OF assms] by (simp add: base_ok_def streams_ok_def)

theorem sent_stream_is_ramp_witness:
  "\<exists>s. reachable sample_configuration s \<and> pending s = [] \<and> sent_stream (socket s) = ramp 0 (unat (sent s))"
proof -
  obtain s where "reachable sample_configuration s" "pending s = []" using sample_complete by blast
  with sent_stream_is_ramp [OF sample_valid this(1)] show ?thesis by blast
qed

text \<open>C6.
  With \<open>verify\<close> set to \<open>all\<close>, the log of mismatches holds exactly the positions of the
  received stream whose byte is not the position modulo 256, each with the expected and
  the received byte: no corruption is missed and none is made up.
\<close>

theorem verify_all_is_exact:
  assumes "valid_configuration c" and "reachable c s" and "verify c = ALL'"
  shows "(q, x, y) \<in> set (mismatches s) \<longleftrightarrow>
    (\<exists>i < length (received_stream (socket s)).
       unat q = i \<and> x = word_of_nat i \<and> y = received_stream (socket s) ! i \<and> x \<noteq> y)"
proof -
  note base = reachable_base [OF assms(1,2)]
  have "mismatches s = mismatches_from 0 (received_stream (socket s))"
    using base reachable_inv(2) [OF assms(1,2)] assms(3) by (simp add: base_ok_def streams_ok_def)
  then have "(q, x, y) \<in> set (mismatches s) \<longleftrightarrow>
    (\<exists>i < length (received_stream (socket s)).
       q = word_of_nat i \<and> x = word_of_nat i \<and> y = received_stream (socket s) ! i \<and> x \<noteq> y)"
    by (auto simp: mismatches_from_iff ucast_word_of_nat_u8)
  moreover have "q = word_of_nat i \<longleftrightarrow> unat q = i" if "i < length (received_stream (socket s))" for i
    using received_positions [OF base] that by (auto simp: unat_of_nat)
  ultimately show ?thesis by (simp cong: conj_cong)
qed

theorem verify_all_is_exact_witness:
  "\<exists>s. reachable sample_configuration s \<and> (1, 1, 9) \<in> set (mismatches s)"
proof -
  obtain s where s: "reachable sample_configuration s" "received_stream (socket s) = [0, 9, 2]"
    using sample_corrupted by blast
  have "verify sample_configuration = ALL'" by (simp add: sample_configuration_def)
  then have "(1, 1, 9) \<in> set (mismatches s)"
    using verify_all_is_exact [OF sample_valid s(1), of 1 1 9] s(2) by (simp add: less_Suc_eq)
  with s(1) show ?thesis by blast
qed

text \<open>C15.
  The result of a session is the code of its latest failure, unchanged. When the handler of a
  receive or a send is told an error, that very error becomes the result (an early end of
  the stream becomes \<open>unexpected_eof\<close>); the wait for the end of the stream, the time limit and
  the signals have the codes that \<open>reported\<close> lists; otherwise a mismatch that a step logs makes
  it \<open>data_mismatch\<close>, and no other step changes it. In every state a logged mismatch means
  failure, a failure means that the process has been asked to exit, and the code that
  cancelled operations report is never the result.
\<close>

theorem failures_stop_the_process:
  assumes "valid_configuration c" and "reachable c s"
  shows "(perform a s = Some s' \<longrightarrow> finalize s' =
      (if step_code s a \<noteq> No_error then step_code s a
       else if mismatches s' \<noteq> mismatches s then Tester_error data_mismatch else finalize s)) \<and>
    (mismatches s \<noteq> [] \<longrightarrow> is_failure (finalize s)) \<and>
    (is_failure (finalize s) \<longrightarrow> is_exit_requested (process s)) \<and>
    (finalize s \<noteq> No_error \<longrightarrow> is_failure (finalize s)) \<and> finalize s \<noteq> Operation_aborted"
proof (intro conjI)
  show "perform a s = Some s' \<longrightarrow> finalize s' =
      (if step_code s a \<noteq> No_error then step_code s a
       else if mismatches s' \<noteq> mismatches s then Tester_error data_mismatch else finalize s)"
    using step_failure [OF reachable_inv(1) [OF assms]] by (simp add: finalize_def)
qed (use reachable_base [OF assms] in
    \<open>auto simp: base_ok_def failure_ok_def finalize_def is_exit_requested_def\<close>)

text \<open>A run in which the connection breaks while the session sends.\<close>

lemma sample_broken:
  "\<exists>s s'. reachable sample_configuration s \<and> pending s ! 3 = Send Completed 3 0 3 \<and>
     perform (Run 3 (Wrote (System_error 104) 0)) s = Some s'"
proof -
  have "\<exists>s0 s s'. create_session (\<lambda>_. 8) 1000000 0 0 sample_configuration = Inr s0 \<and>
    performs (sample_start @ [End 3]) s0 = Some s \<and> pending s ! 3 = Send Completed 3 0 3 \<and>
    perform (Run 3 (Wrote (System_error 104) 0)) s = Some s'"
    by (simp add: sample_configuration_def sample_start_def run_simps)
  then show ?thesis using sample_runs by blast
qed

theorem failures_stop_the_process_witness:
  "\<exists>s s'. reachable sample_configuration s \<and> finalize s' = System_error 104 \<and>
     perform (Run 3 (Wrote (System_error 104) 0)) s = Some s'"
proof -
  obtain s s' where s: "reachable sample_configuration s" "pending s ! 3 = Send Completed 3 0 3"
    "perform (Run 3 (Wrote (System_error 104) 0)) s = Some s'"
    using sample_broken by blast
  then have "finalize s' = System_error 104"
    using failures_stop_the_process [OF sample_valid s(1), of "Run 3 (Wrote (System_error 104) 0)" s'] by simp
  with s show ?thesis by blast
qed

text \<open>
  End to end: when what a session received is a beginning of what the session at the other
  end sent, no mismatch is ever logged. (The first byte of a datagram of length 0 is not
  among what was received, so for UDP the property leaves out \<open>verify first\<close>.)
\<close>

theorem faithful_network_no_mismatch:
  assumes "valid_configuration c" and "reachable c s" and "valid_configuration d" and "reachable d r"
    and "received_stream (socket r) = take n (sent_stream (socket s))"
    and "verify d = FIRST \<Longrightarrow> protocol d = TCP"
  shows "mismatches r = []"
proof -
  note base = reachable_base [OF assms(1,2)] reachable_base [OF assms(3,4)]
  let ?m = "min n (unat (sent s))"
  have "received_stream (socket r) = ramp 0 ?m"
    using base(1) assms(5) by (simp add: base_ok_def streams_ok_def ramp_def take_map min_def)
  then have "mismatches_from 0 (received_stream (socket r)) = []"
    using mismatches_from_Nil_iff [of 0 "received_stream (socket r)"] by simp
  then show ?thesis
    using base(2) reachable_inv(2) [OF assms(3,4)] assms(6)
    by (cases "verify d") (auto simp: base_ok_def streams_ok_def)
qed

theorem faithful_network_no_mismatch_witness:
  "\<exists>s. reachable sample_configuration s \<and> received_stream (socket s) = [0, 1, 2] \<and> mismatches s = []"
proof -
  obtain s where s: "reachable sample_configuration s" "received_stream (socket s) = [0, 1, 2]"
    "sent_stream (socket s) = ramp 0 3"
    using sample_complete by blast
  have "received_stream (socket s) = take 3 (sent_stream (socket s))"
    using s by (simp add: ramp_def upt_rec)
  moreover have "verify sample_configuration \<noteq> FIRST" by (simp add: sample_configuration_def)
  ultimately show ?thesis
    using faithful_network_no_mismatch [OF sample_valid s(1) sample_valid s(1)] s by blast
qed

section \<open>Memory safety and sizes\<close>

text \<open>C19.
  No reachable session fails an assertion, divides by zero or reads outside its buffers,
  and the buffers keep their size. (The model records each of these as a crash.)
\<close>

theorem session_never_crashes:
  assumes "valid_configuration c" and "reachable c s"
  shows "crashed s = None \<and> length (receive_buffer s) = unat BUFFER_SIZE \<and>
    send_buffer s = ramp 0 (unat BUFFER_SIZE)"
  using reachable_base [OF assms] by (simp add: base_ok_def BUFFER_SIZE_value)

theorem session_never_crashes_witness:
  "\<exists>s. reachable sample_configuration s \<and> received_stream (socket s) = [0, 9, 2] \<and> crashed s = None"
  using sample_corrupted session_never_crashes [OF sample_valid] by blast

text \<open>C18.
  Every receive asks for at least one byte and for no more than the receive buffer holds;
  every send lies inside the send buffer, starts where the count of sent bytes stands
  modulo 256, and asks for at least one byte and for no more than is left to send.
\<close>

theorem transfers_fit_buffers:
  assumes "valid_configuration c" and "reachable c s"
  shows "(Receive p left n \<in> set (pending s) \<longrightarrow> n \<noteq> 0 \<and> n \<le> left \<and> unat n \<le> length (receive_buffer s)) \<and>
    (Send p left offset n \<in> set (pending s) \<longrightarrow>
       n \<noteq> 0 \<and> n \<le> left \<and> unat offset + unat n \<le> length (send_buffer s) \<and>
       unat offset = unat (sent s) mod 256 \<and> unat (sent s) + unat left \<le> unat (size_value (total_size c)))"
proof (intro conjI impI)
  note inv = reachable_inv [OF assms] and base = reachable_base [OF assms]
  assume "Receive p left n \<in> set (pending s)"
  then have "left \<noteq> 0" "n = min BUFFER_SIZE left"
    using inv_lane_op(1) [OF inv(1), of "Receive p left n"] by (auto simp: rx_op_ok_def)
  then show "n \<noteq> 0" "n \<le> left" "unat n \<le> length (receive_buffer s)"
    using base by (auto simp: min_def BUFFER_SIZE_value base_ok_def word_le_nat_alt)
next
  note inv = reachable_inv [OF assms] and base = reachable_base [OF assms]
  assume "Send p left offset n \<in> set (pending s)"
  then have op: "offset = ucast (ucast (sent s) :: u8)" "n \<noteq> 0" "n \<le> left" "left \<le> goal s - sent s"
    "n \<le> BUFFER_SIZE - offset" "sent s < goal s"
    using inv_lane_op(2) [OF inv(1), of "Send p left offset n"] by (auto simp: tx_op_ok_def)
  then show "n \<noteq> 0" "n \<le> left" "unat offset = unat (sent s) mod 256"
    using offset_room [OF op(1)] by simp_all
  show "unat offset + unat n \<le> length (send_buffer s)"
    using op(5) offset_room [OF op(1)] base by (simp add: base_ok_def word_le_nat_alt)
  show "unat (sent s) + unat left \<le> unat (size_value (total_size c))"
    using op(4,6) inv(2) by (simp add: word_le_nat_alt word_less_nat_alt unat_minus_le)
qed

theorem transfers_fit_buffers_witness:
  "\<exists>s. reachable sample_configuration s \<and> Send Waiting 3 0 3 \<in> set (pending s) \<and> 0 + 3 \<le> length (send_buffer s)"
proof -
  obtain s where "reachable sample_configuration s" "Send Waiting 3 0 3 \<in> set (pending s)"
    using sample_transferring by blast
  with transfers_fit_buffers [OF sample_valid this(1), of Waiting 3 3 0] show ?thesis by auto
qed

text \<open>
  The count of received bytes is exact and stays below the configured size plus one
  buffer, so that it never wraps.
\<close>

theorem received_count_exact:
  assumes "valid_configuration c" and "reachable c s"
  shows "length (received_stream (socket s)) = unat (received s) \<and>
    unat (received s) < unat (size_value (total_size c)) + unat BUFFER_SIZE"
  using reachable_base [OF assms] reachable_inv(2) [OF assms]
  by (simp add: base_ok_def streams_ok_def BUFFER_SIZE_value)

theorem received_count_exact_witness:
  "\<exists>s. reachable sample_configuration s \<and> unat (received s) = 3"
proof -
  obtain s where "reachable sample_configuration s" "received_stream (socket s) = [0, 1, 2]"
    using sample_complete by blast
  with received_count_exact [OF sample_valid this(1)] show ?thesis by auto
qed

section \<open>The state machine of a session\<close>

text \<open>C12.
  At most one operation of each lane is under way. This is what makes it sound to let all
  operations of a lane share one block of handler memory and one buffer.
\<close>

theorem one_operation_per_lane:
  assumes "valid_configuration c" and "reachable c s"
  shows "length (filter is_rx (pending s)) \<le> 1 \<and> length (filter is_tx (pending s)) \<le> 1"
proof -
  have "length (rx_ops s) \<le> 1 \<and> length (tx_ops s) \<le> 1"
    using reachable_inv(1) [OF assms]
    by (auto simp: session_inv_def fresh_def rx_lane_cases tx_lane_cases split: if_splits)
  then show ?thesis by (simp add: rx_ops_def tx_ops_def)
qed

theorem one_operation_per_lane_witness:
  "\<exists>s. reachable sample_configuration s \<and> Receive Waiting 1000 1000 \<in> set (pending s) \<and>
     length (filter is_rx (pending s)) \<le> 1"
  using sample_transferring one_operation_per_lane [OF sample_valid] by blast

text \<open>C11.
  A session does not get stuck: once the transfer has started, as long as no failure has
  occurred each lane is either complete, with its goal reached, or has an operation under
  way that was not cancelled.
\<close>

theorem lanes_do_not_stall:
  assumes "valid_configuration c" and "reachable c s" and "start_ops s = []"
    and "\<not> is_failure (finalize s)"
  shows "(if is_receive_complete s then receive_goal s
      else \<exists>op \<in> set (pending s). is_rx op \<and> progress_of op \<noteq> Cancelled) \<and>
    (if is_send_complete s then send_goal s
      else \<exists>op \<in> set (pending s). is_tx op \<and> progress_of op \<noteq> Cancelled)"
proof -
  have lanes_ok: "rx_lane_ok s" "tx_lane_ok s" and no_failure: "\<not> is_failure (session_failure s)"
    using reachable_inv(1) [OF assms(1,2)] assms(3,4) by (auto simp: session_inv_def finalize_def)
  have member: "op \<in> set (pending s) \<and> P op" if "filter P (pending s) = [op]" for P op
  proof -
    have "op \<in> set (filter P (pending s))" using that by simp
    then show ?thesis by simp
  qed
  show ?thesis
    using lanes_ok no_failure member [of is_rx] member [of is_tx] rx_op_ok_progress tx_op_ok_progress
    unfolding rx_lane_cases tx_lane_cases rx_ops_def tx_ops_def
    by (metis (full_types))
qed

theorem lanes_do_not_stall_witness:
  "\<exists>s. reachable sample_configuration s \<and> (if is_send_complete s then send_goal s
      else \<exists>op \<in> set (pending s). is_tx op \<and> progress_of op \<noteq> Cancelled)"
proof -
  obtain s where s: "reachable sample_configuration s" "start_ops s = []" "finalize s = No_error"
    using sample_transferring by blast
  then have "\<not> is_failure (finalize s)" by simp
  with lanes_do_not_stall [OF sample_valid s(1,2)] s(1) show ?thesis by blast
qed

text \<open>C14.
  The socket is closed exactly when both lanes are complete, and no operation of a lane is
  ever cancelled: the branch of the handlers that ignores \<open>operation_aborted\<close> is not
  taken, and the handler of the end of the stream never mistakes a cancellation for a
  failure of the peer.
\<close>

theorem close_only_when_complete:
  assumes "valid_configuration c" and "reachable c s"
  shows "(closed (socket s) \<longleftrightarrow> is_receive_complete s \<and> is_send_complete s) \<and>
    (\<forall>op \<in> set (pending s). is_rx op \<or> is_tx op \<longrightarrow> progress_of op \<noteq> Cancelled)"
proof
  show "closed (socket s) \<longleftrightarrow> is_receive_complete s \<and> is_send_complete s"
    using reachable_base [OF assms] by (simp add: base_ok_def closing_ok_def)
  show "\<forall>op \<in> set (pending s). is_rx op \<or> is_tx op \<longrightarrow> progress_of op \<noteq> Cancelled"
    using inv_lane_op [OF reachable_inv(1) [OF assms]] rx_op_ok_progress tx_op_ok_progress by blast
qed

theorem close_only_when_complete_witness:
  "\<exists>s. reachable sample_configuration s \<and> Send Waiting 3 0 3 \<in> set (pending s) \<and>
     (closed (socket s) \<longleftrightarrow> is_receive_complete s \<and> is_send_complete s)"
  using sample_transferring close_only_when_complete [OF sample_valid] by blast

text \<open>C13.
  The shutdown policy is kept exactly, whatever the network does: a TCP session has shut down
  sending if and only if the moment of its policy has come. Under \<open>send_complete\<close> that is
  the completion of sending, and then every byte has been sent; under \<open>receive_complete\<close>,
  the arrival of the last byte it was to receive; under \<open>wait_for_peer\<close>, the end of the wait for
  the peer's end of the stream, which is started only after that byte and, in a session that
  only sends, at the start. A UDP session never shuts down.
\<close>

theorem shutdown_follows_policy:
  assumes "valid_configuration c" and "reachable c s"
  shows "(send_shut_down (socket s) \<longleftrightarrow> protocol c = TCP \<and>
     (case shutdown_policy c of
        SEND_COMPLETE \<Rightarrow> is_send_complete s
      | RECEIVE_COMPLETE \<Rightarrow> size_value (total_size c) \<le> received s
      | WAIT_FOR_PEER \<Rightarrow> (direction c = TX \<or> size_value (total_size c) \<le> received s) \<and>
          (\<forall>p. Connect p \<notin> set (pending s) \<and> Receive_eof p \<notin> set (pending s)))) \<and>
    (is_send_complete s \<and> direction c \<noteq> RX \<longrightarrow> sent s = size_value (total_size c))"
proof
  note inv = reachable_inv [OF assms] and base = reachable_base [OF assms]
  show "is_send_complete s \<and> direction c \<noteq> RX \<longrightarrow> sent s = size_value (total_size c)"
    using inv by (auto simp: session_inv_def fresh_def tx_lane_cases send_goal_def split: if_split_asm)
  have receives: "start_ops s = [] \<and> receive_goal s \<longleftrightarrow> size_value (total_size c) \<le> received s" if "direction c \<noteq> TX"
    using inv that assms(1) by (auto simp: session_inv_def fresh_def receive_goal_def valid_configuration_def split: if_split_asm)
  have lanes: "protocol c = TCP \<Longrightarrow> start_ops s = [] \<longleftrightarrow> (\<forall>p. Connect p \<notin> set (pending s))"
    "awaits_eof s \<longleftrightarrow> (\<exists>p. Receive_eof p \<in> set (pending s))"
    using inv(2) by (auto simp: start_ops_def filter_empty_conv starts_iff awaits_eof_def list_ex_iff elim!: is_eof.elims
        intro: bexI [of _ "Receive_eof p" for p])
  show "send_shut_down (socket s) \<longleftrightarrow> protocol c = TCP \<and>
     (case shutdown_policy c of
        SEND_COMPLETE \<Rightarrow> is_send_complete s
      | RECEIVE_COMPLETE \<Rightarrow> size_value (total_size c) \<le> received s
      | WAIT_FOR_PEER \<Rightarrow> (direction c = TX \<or> size_value (total_size c) \<le> received s) \<and>
          (\<forall>p. Connect p \<notin> set (pending s) \<and> Receive_eof p \<notin> set (pending s)))"
    using shutdown_exactly [OF assms] inv(2) receives lanes assms(1)
    by (auto simp: shutdown_passed_def receive_goal_def valid_configuration_def split: ShutdownPolicy.splits)
qed

theorem shutdown_follows_policy_witness:
  "\<exists>s. reachable sample_configuration s \<and> send_shut_down (socket s) \<and> sent s = 3"
proof -
  obtain s where s: "reachable sample_configuration s" "send_shut_down (socket s)"
    using sample_complete by blast
  moreover have "shutdown_policy sample_configuration = SEND_COMPLETE" "direction sample_configuration \<noteq> RX"
    "size_value (total_size sample_configuration) = 3"
    by (simp_all add: sample_configuration_def)
  ultimately show ?thesis
    using shutdown_follows_policy [OF sample_valid s(1)] by auto
qed

section \<open>The time limit of a test\<close>

lemma estimate_exact:
  assumes "min (size_value (receive_bandwidth c)) (size_value (send_bandwidth c)) \<noteq> 0"
    and "sint (size_value (total_size c) div
      min (size_value (receive_bandwidth c)) (size_value (send_bandwidth c)) + 1) * tps = time"
    and "0 \<le> time" and "time < 2 ^ 62" and "case duration_margin c of Special \<Rightarrow> True | Ticks n \<Rightarrow> \<bar>n\<bar> < 2 ^ 62"
  shows "estimate_test_duration tps c =
    Inr (time + (case duration_margin c of Special \<Rightarrow> time div 10 | Ticks n \<Rightarrow> n))"
proof -
  have ticks: "to_ticks time = time" using assms(3,4) by simp
  have truncated: "time sdiv 10 = time div 10"
    using assms(3) by (cases "time = 0") (simp_all add: signed_divide_int_def)
  let ?margin = "case duration_margin c of Special \<Rightarrow> time div 10 | Ticks n \<Rightarrow> n"
  have "time div 10 \<le> time" using assms(3) by simp
  then have "\<bar>?margin\<bar> < 2 ^ 62" using assms(3-5) by (cases "duration_margin c") simp_all
  then have "to_ticks (time + ?margin) = time + ?margin" using assms(3,4) by simp
  then show ?thesis
    unfolding estimate_test_duration_def Let_def assms(2) ticks truncated using assms(1) by simp
qed

text \<open>C34.
  The time limit is the time in which the slower of the two bandwidths could carry all the
  bytes of the test, rounded up to whole seconds, plus the configured margin or, by
  default, a tenth of that time; it then covers the test. This holds while that time and the
  margin stay below 2^62 ticks of Boost's 64-bit durations (more than 146000 years, in
  microseconds): beyond, the ticks can overflow.
\<close>

theorem time_limit_suffices:
  assumes "size_value (send_bandwidth c) \<noteq> 0" and "size_value (receive_bandwidth c) \<noteq> 0" and "0 < tps"
    and "int (unat (size_value (total_size c)) div
      unat (min (size_value (receive_bandwidth c)) (size_value (send_bandwidth c))) + 1) * tps < 2 ^ 62"
    and "case duration_margin c of Special \<Rightarrow> True | Ticks n \<Rightarrow> \<bar>n\<bar> < 2 ^ 62"
  shows "\<exists>time. estimate_test_duration tps c =
      Inr (time + (case duration_margin c of Special \<Rightarrow> time div 10 | Ticks n \<Rightarrow> n)) \<and>
    uint (size_value (total_size c)) * tps <
      time * uint (min (size_value (receive_bandwidth c)) (size_value (send_bandwidth c)))"
proof -
  let ?n = "size_value (total_size c)"
  let ?b = "min (size_value (receive_bandwidth c)) (size_value (send_bandwidth c))"
  let ?seconds = "int (unat ?n div unat ?b + 1)"
  let ?time = "?seconds * tps"
  have b: "?b \<noteq> 0" using assms(1,2) by (simp add: min_def)
  have time: "0 \<le> ?time" "?time < 2 ^ 62" "?seconds \<le> ?time" using assms(3,4) by simp_all
  have "?seconds < 2 ^ 63"
    by (rule order.strict_trans1 [OF time(3)], rule order.strict_trans [OF time(2)]) simp
  moreover have "- (2 ^ 63) \<le> ?seconds" by (rule order.trans [of _ 0]) simp_all
  ultimately have seconds: "sint (word_of_int ?seconds :: u64) = ?seconds"
    using to_ticks_exact [of ?seconds] by (simp only: to_ticks_def)
  have "?n div ?b + 1 = word_of_int ?seconds"
    by (simp add: word_arith_nat_div)
  then have "sint (?n div ?b + 1) = ?seconds" using seconds by (simp only:)
  then have "estimate_test_duration tps c =
      Inr (?time + (case duration_margin c of Special \<Rightarrow> ?time div 10 | Ticks n \<Rightarrow> n))"
    by (intro estimate_exact b time assms(5)) simp
  moreover have "uint ?n * tps < ?time * uint ?b"
  proof -
    have "unat ?n < unat ?b * (unat ?n div unat ?b + 1)"
      using b dividend_less_times_div [of "unat ?b" "unat ?n"] by (simp add: unat_gt_0)
    then have "int (unat ?n) < ?seconds * int (unat ?b)"
      by (metis mult.commute of_nat_less_iff of_nat_mult)
    then have "int (unat ?n) * tps < ?seconds * int (unat ?b) * tps"
      using assms(3) by (rule mult_strict_right_mono)
    then show ?thesis unfolding uint_nat [of ?n] uint_nat [of ?b] by (simp only: ac_simps)
  qed
  ultimately show ?thesis by blast
qed

theorem time_limit_suffices_witness:
  "\<exists>time. estimate_test_duration 1000000 sample_configuration = Inr (time + time div 10) \<and>
     3 * 1000000 < time * 1000"
  using time_limit_suffices [of sample_configuration 1000000] by (simp add: sample_configuration_def)

text \<open>
  The bound matters: for 8500 PB at 1 MB/s, which the command line accepts, the default
  margin makes the ticks overflow, and the limit lies in the past.
\<close>

theorem time_limit_overflows:
  assumes "size_value (total_size c) = 8500 * 10 ^ 15" and "size_value (send_bandwidth c) = 1000000"
    and "size_value (receive_bandwidth c) = 1000000" and "duration_margin c = Special"
  shows "\<exists>limit. estimate_test_duration 1000000 c = Inr limit \<and> limit < 0"
  using assms by (simp add: estimate_test_duration_def to_ticks_def signed_divide_int_def)

end
