(* ===== verification/Send_Refinement.thy ===== *)
theory Send_Refinement
  imports Send_Progress Session_Correctness
begin

text \<open>
  The send lane as a machine of four phases: what a reader of the program should have in
  mind about sending. Sessions refine it: every step of a session is a step of the machine,
  or leaves it as it is.
\<close>

section \<open>The abstract sender\<close>

datatype phase =
    Not_started
  | Between_slices
  | In_slice nat  \<comment> \<open>how many bytes the slice may still move\<close>
  | Ended

record sender =
  sender_phase :: phase
  moved :: nat

definition idle_sender :: sender where
  "idle_sender = \<lparr>sender_phase = Not_started, moved = 0\<rparr>"

text \<open>
  \<open>b\<close> bytes per slice, \<open>g\<close> bytes in all; \<open>on\<close> tells whether the session sends at all. A slice
  never promises more than what is left of \<open>g\<close>, and an empty slice starts nothing.
\<close>

inductive sender_step :: "nat \<Rightarrow> nat \<Rightarrow> bool \<Rightarrow> sender \<Rightarrow> sender \<Rightarrow> bool" for b g on where
  begin_transfer: "on \<Longrightarrow>
    sender_step b g on \<lparr>sender_phase = Not_started, moved = 0\<rparr> \<lparr>sender_phase = Between_slices, moved = 0\<rparr>"
| nothing_to_send: "\<not> on \<Longrightarrow>
    sender_step b g on \<lparr>sender_phase = Not_started, moved = 0\<rparr> \<lparr>sender_phase = Ended, moved = 0\<rparr>"
| begin_slice: "0 < l \<Longrightarrow> l \<le> b \<Longrightarrow> m + l \<le> g \<Longrightarrow>
    sender_step b g on \<lparr>sender_phase = Between_slices, moved = m\<rparr> \<lparr>sender_phase = In_slice l, moved = m\<rparr>"
| move: "0 < k \<Longrightarrow> k < l \<Longrightarrow> 0 < l' \<Longrightarrow> l' \<le> l - k \<Longrightarrow> m + k + l' \<le> g \<Longrightarrow>
    sender_step b g on \<lparr>sender_phase = In_slice l, moved = m\<rparr> \<lparr>sender_phase = In_slice l', moved = m + k\<rparr>"
| end_slice: "0 < l \<Longrightarrow> m + l < g \<Longrightarrow>
    sender_step b g on \<lparr>sender_phase = In_slice l, moved = m\<rparr> \<lparr>sender_phase = Between_slices, moved = m + l\<rparr>"
| reach_goal: "0 < k \<Longrightarrow> k \<le> l \<Longrightarrow> m + k = g \<Longrightarrow>
    sender_step b g on \<lparr>sender_phase = In_slice l, moved = m\<rparr> \<lparr>sender_phase = Ended, moved = g\<rparr>"
| give_up:
    "sender_step b g on \<lparr>sender_phase = In_slice l, moved = m\<rparr> \<lparr>sender_phase = Ended, moved = m\<rparr>"

text \<open>What the machine promises by itself: it never moves more than the goal.\<close>

fun promised :: "phase \<Rightarrow> nat" where
  "promised (In_slice l) = l"
| "promised _ = 0"

lemma sender_within_goal:
  "(sender_step b g on)\<^sup>*\<^sup>* idle_sender t \<Longrightarrow> moved t + promised (sender_phase t) \<le> g"
  by (induction rule: rtranclp_induct) (auto simp: idle_sender_def elim!: sender_step.cases)

section \<open>The abstraction\<close>

fun lane_phase :: "operation list \<Rightarrow> phase" where
  "lane_phase (Wait_send_slice p # _) = Between_slices"
| "lane_phase (Send p left offset n # _) = In_slice (unat left)"
| "lane_phase _ = Ended"

definition sender_of :: "Session \<Rightarrow> sender" where
  "sender_of s =
     \<lparr>sender_phase = (if start_ops s \<noteq> [] then Not_started else lane_phase (tx_ops s)),
      moved = unat (sent s)\<rparr>"

definition slice_of :: "SessionConfiguration \<Rightarrow> nat" where
  "slice_of c = unat (size_value (send_bandwidth c) div bandwidth_sampling_frequency c)"

definition sender_moves :: "SessionConfiguration \<Rightarrow> sender \<Rightarrow> sender \<Rightarrow> bool" where
  "sender_moves c = sender_step (slice_of c) (unat (size_value (total_size c))) (direction c \<noteq> RX)"

lemma sender_ofI:
  "start_ops s = [] \<Longrightarrow> lane_phase (tx_ops s) = p \<Longrightarrow> unat (sent s) = m \<Longrightarrow>
   sender_of s = \<lparr>sender_phase = p, moved = m\<rparr>"
  by (simp add: sender_of_def)

section \<open>The simulation\<close>

lemma lane_left:
  assumes "session_inv s" and "tx_ops s = [Send p left offset n]" and "start_ops s = []"
  shows "0 < unat left" and "unat (sent s) + unat left \<le> unat (goal s)"
proof -
  have op: "sent s < goal s" "n \<noteq> 0" "n \<le> left" "left \<le> goal s - sent s"
    using assms by (auto simp: session_inv_def tx_lane_ok_def tx_op_ok_def)
  show "0 < unat left" using op(2,3) unat_gt_0 [of n] by (simp add: word_le_nat_alt)
  show "unat (sent s) + unat left \<le> unat (goal s)"
    using op(1,4) by (simp add: word_le_nat_alt word_less_nat_alt unat_minus_le)
qed

text \<open>What \<open>async_send\<close> starts with \<open>n\<close> bytes left of the slice.\<close>

lemma send_paced_phase:
  assumes "send_paced n t s'" and "session_inv s'" and "start_ops s' = []"
  obtains "n = 0" "sender_of s' = \<lparr>sender_phase = Between_slices, moved = unat (sent t)\<rparr>"
  | l where "n \<noteq> 0" "0 < l" "l \<le> unat n" "unat (sent t) + l \<le> unat (goal s')"
      "sender_of s' = \<lparr>sender_phase = In_slice l, moved = unat (sent t)\<rparr>"
proof (cases "n = 0")
  case True
  with assms that(1) show thesis by (simp add: send_paced_def sender_of_def)
next
  case False
  then obtain left offset m where op: "tx_ops s' = [Send Waiting left offset m]" "left \<le> n"
    and sent: "sent s' = sent t"
    using assms(1) by (auto simp: send_paced_def)
  have "sender_of s' = \<lparr>sender_phase = In_slice (unat left), moved = unat (sent t)\<rparr>"
    using op(1) sent assms(3) by (simp add: sender_of_def)
  with that(2) [OF False] lane_left [OF assms(2) op(1) assms(3)] op(2) sent show thesis
    by (simp add: word_le_nat_alt)
qed

lemma send_finished_phase:
  "send_finished t s' \<Longrightarrow> start_ops s' = [] \<Longrightarrow>
   sender_of s' = \<lparr>sender_phase = Ended, moved = unat (sent t)\<rparr>"
  by (simp add: send_finished_def sender_of_def)

lemma tx_move_simulated:
  assumes "tx_move op t s'" and inv: "session_inv s" "session_inv s'" and slices: "slices_ok s"
    and op: "tx_ops s = [op]" and same: "sent t = sent s" "send_throttle t = send_throttle s" "goal t = goal s"
    and conf: "configuration s' = configuration s" and start: "start_ops s = []" "start_ops s' = []"
  shows "sender_of s' = sender_of s \<or> sender_moves (configuration s) (sender_of s) (sender_of s')"
  using assms(1)
proof cases
  case (slice u)
  have now: "sender_of s = \<lparr>sender_phase = Between_slices, moved = unat (sent u)\<rparr>"
    using slice op same start by (intro sender_ofI) simp_all
  have bytes: "unat (slice_bytes_count (send_throttle t)) = slice_of (configuration s)"
    using slices same by (simp add: slices_ok_def slice_of_def)
  show ?thesis
    using slice(4) inv(2) start(2)
  proof (cases rule: send_paced_phase)
    case 1
    with now show ?thesis by simp
  next
    case (2 l)
    then show ?thesis
      unfolding now 2 sender_moves_def using bytes conf by (intro disjI2 sender_step.begin_slice) simp_all
  qed
next
  case (chunk k left u offset n)
  have now: "sender_of s = \<lparr>sender_phase = In_slice (unat left), moved = unat (sent s)\<rparr>"
    using chunk op start by (intro sender_ofI) simp_all
  have k: "0 < unat k" "unat k \<le> unat left" using chunk by (simp_all add: unat_gt_0 word_le_nat_alt)
  have sent: "unat (sent u) = unat (sent s) + unat k" using chunk same by simp
  have rest: "unat (left - k) = unat left - unat k" using chunk by (simp add: unat_minus_le)
  show ?thesis
  proof (cases "sent u < goal t")
    case True
    then have "send_paced (left - k) u s'" using chunk by simp
    then show ?thesis
      using inv(2) start(2)
    proof (cases rule: send_paced_phase)
      case 1
      then have "k = left" by simp
      then have "unat (sent s) + unat left < unat (goal s)"
        using True same(3) sent by (simp add: word_less_nat_alt)
      then show ?thesis
        using k sender_step.end_slice unfolding now 1 sent \<open>k = left\<close> sender_moves_def by simp
    next
      case (2 l)
      then have "unat k < unat left" using rest by simp
      then show ?thesis
        using 2 k rest conf unfolding now 2(5) sent sender_moves_def
        by (intro disjI2 sender_step.move) (simp_all add: sent)
    qed
  next
    case False
    then have goal: "sent u = goal t" and "send_finished u s'" using chunk by simp_all
    from send_finished_phase [OF this(2) start(2)] show ?thesis
      using goal same(3) sent k unfolding now sender_moves_def
      by (simp add: sender_step.reach_goal)
  qed
next
  case (failed left offset n)
  have now: "sender_of s = \<lparr>sender_phase = In_slice (unat left), moved = unat (sent s)\<rparr>"
    using failed op start by (intro sender_ofI) simp_all
  show ?thesis
    using send_finished_phase [OF failed(2) start(2)] same
    unfolding now sender_moves_def by (simp add: sender_step.give_up)
qed

lemma perform_simulated:
  assumes inv: "session_inv s" and slices: "slices_ok s" and act: "perform a s = Some s'"
  shows "sender_of s' = sender_of s \<or> sender_moves (configuration s) (sender_of s) (sender_of s')"
  using perform_view [OF inv act]
proof cases
  case idle
  then show ?thesis by (simp add: sender_of_def tx_kept_def)
next
  case (ended op)
  have "lane_phase [completed op] = lane_phase [op]" by (cases op) simp_all
  with ended show ?thesis by (simp add: sender_of_def tx_kept_def)
next
  case (moved op t)
  then show ?thesis
    using tx_move_simulated [OF moved(9) inv _ slices] perform_inv [OF inv act] by simp
next
  case started
  then have fresh: "fresh s" using inv by (simp add: session_inv_def)
  then have now: "sender_of s = idle_sender"
    using started by (simp add: sender_of_def idle_sender_def fresh_def)
  show ?thesis
  proof (cases "direction (configuration s) = RX")
    case True
    then have "sender_of s' = \<lparr>sender_phase = Ended, moved = 0\<rparr>"
      using started(3) by (simp add: sender_of_def tx_started_def)
    then show ?thesis
      using True unfolding now idle_sender_def sender_moves_def
      by (simp add: sender_step.nothing_to_send)
  next
    case False
    then have "sender_of s' = \<lparr>sender_phase = Between_slices, moved = 0\<rparr>"
      using started(3) by (simp add: sender_of_def tx_started_def)
    then show ?thesis
      using False unfolding now idle_sender_def sender_moves_def
      by (simp add: sender_step.begin_transfer)
  qed
qed

lemma steps_simulated:
  "steps s s' \<Longrightarrow> session_inv s \<Longrightarrow> slices_ok s \<Longrightarrow>
   (sender_moves (configuration s))\<^sup>*\<^sup>* (sender_of s) (sender_of s')"
proof (induction rule: rtranclp_induct)
  case (step t u)
  then have inv: "session_inv t" "slices_ok t" "configuration t = configuration s"
    using steps_inv steps_slices by auto
  obtain a where "perform a t = Some u" using step(2) step_iff_perform by blast
  from perform_simulated [OF inv(1,2) this] show ?case
    using step(3) [OF step(4,5)] inv(3) by (metis rtranclp.rtrancl_into_rtrancl)
qed simp

lemma created_start_ops:
  "create_session random tps universal steady c = Inr s \<Longrightarrow> start_ops s \<noteq> []"
  by (cases "protocol c")
    (auto simp: create_session_unfold make_Session_def and_then_Inr_iff initialize_def tcp_initialize_def
      udp_initialize_def base_initialize_def start_op_def start_ops_def Let_def split: if_splits)

lemma created_sender:
  assumes "valid_configuration c" and "draws_ok c random"
    and "create_session random tps universal steady c = Inr s"
  shows "sender_of s = idle_sender"
proof -
  have "session_inv s" "start_ops s \<noteq> []"
    using create_session_inv(1) [OF assms] created_start_ops [OF assms(3)] by simp_all
  then have "fresh s" by (simp add: session_inv_def)
  with \<open>start_ops s \<noteq> []\<close> show ?thesis by (simp add: sender_of_def idle_sender_def fresh_def)
qed

end
