(* ===== verification/Time_Limit.thy ===== *)
theory Time_Limit
  imports Tcp_Effects
begin

text \<open>
  The time limit of a test, for both protocols: from the start of its timer on, a session has
  a live timer until it closes its socket or fails. Whatever the network does, the handler
  of that timer can run once the clock has reached the expiry time, and it ends the test.
\<close>

section \<open>A session is timed\<close>

text \<open>A timer that was not cancelled, or the posted function that starts it.\<close>

fun is_timer :: "operation \<Rightarrow> bool" where
  "is_timer (Wait_timeout p) \<longleftrightarrow> p \<noteq> Cancelled"
| "is_timer (Posted p) \<longleftrightarrow> True"
| "is_timer _ \<longleftrightarrow> False"

definition armed :: "Session \<Rightarrow> bool" where
  "armed s \<longleftrightarrow> list_ex is_timer (pending s)"

definition timed :: "Session \<Rightarrow> bool" where
  "timed s \<longleftrightarrow> armed s \<or> closed (socket s) \<or> is_failure (session_failure s)"

lemma timer_cancel [simp]:
  "is_timer (cancel_signal op) = is_timer op" "is_timer (cancel_receive_slice op) = is_timer op"
  "is_timer (cancel_send_slice op) = is_timer op" "is_timer (cancel_io op) = is_timer op"
  by (cases op; simp; rename_tac p; case_tac p; simp)+

lemma timer_completed: "is_timer op \<Longrightarrow> is_timer (completed op)"
  by (cases op) simp_all

named_theorems timed_intros \<open>operations that leave a session timed\<close>

lemma timed_same:
  "pending s' = pending s \<Longrightarrow> socket s' = socket s \<Longrightarrow> session_failure s' = session_failure s \<Longrightarrow>
   timed s \<Longrightarrow> timed s'"
  by (simp add: timed_def armed_def)

lemma timed_start_op [timed_intros]: "timed s \<Longrightarrow> timed (start_op op s)"
  by (auto simp: timed_def armed_def start_op_def)

lemma timed_abort [timed_intros]: "is_failure e \<Longrightarrow> timed (abort_with e s)"
  by (simp add: timed_def abort_with_def)

lemma timed_own_abort [timed_intros]: "e \<noteq> success \<Longrightarrow> timed (abort_with (make_error_code e) s)"
  by (simp add: timed_def abort_with_def make_error_code_def)

lemma timed_close [timed_intros]: "timed (close_socket s)"
  by (simp add: timed_def close_socket_def)

lemma timed_updates [timed_intros]:
  "timed s \<Longrightarrow> timed (s\<lparr>statistics := st\<rparr>)" "timed s \<Longrightarrow> timed (s\<lparr>receive_throttle := th\<rparr>)"
  "timed s \<Longrightarrow> timed (s\<lparr>send_throttle := th\<rparr>)" "timed s \<Longrightarrow> timed (s\<lparr>draws := d\<rparr>)"
  "timed s \<Longrightarrow> timed (s\<lparr>is_receive_complete := b\<rparr>)" "timed s \<Longrightarrow> timed (s\<lparr>is_send_complete := b\<rparr>)"
  "timed s \<Longrightarrow> timed (crash f s)" "timed s \<Longrightarrow> timed (count_received n s)" "timed s \<Longrightarrow> timed (count_sent n s)"
  "timed s \<Longrightarrow> timed (base_finish_receive s)" "timed s \<Longrightarrow> timed (base_finish_send s)"
  "timed s \<Longrightarrow> timed (shutdown_send s)"
  "timed s \<Longrightarrow> timed (store_received data s)" "timed s \<Longrightarrow> timed (log_received data s)"
  "timed s \<Longrightarrow> timed (log_sent offset k s)"
  by (simp_all add: timed_def armed_def crash_def count_received_def count_sent_def base_finish_receive_def
      base_finish_send_def shutdown_send_def store_received_def log_received_def log_sent_def)

lemma timed_delays [timed_intros]:
  "timed s \<Longrightarrow> timed (delay_receive s)" "timed s \<Longrightarrow> timed (delay_send s)"
  by (auto simp: timed_def armed_def delay_receive_def delay_send_def start_op_def)

lemma timed_completions [timed_intros]:
  "timed s \<Longrightarrow> timed (on_receive_complete close_socket s)" "timed s \<Longrightarrow> timed (on_send_complete close_socket s)"
  by (simp_all add: on_receive_complete_def on_send_complete_def on_finish_def Let_def timed_intros)

lemma timed_verify_byte: "timed s \<Longrightarrow> timed (verify_byte i b s)"
  by (simp add: verify_byte_def Let_def timed_intros)

lemma timed_verify_loop: "timed s \<Longrightarrow> timed (verify_loop i n b s)"
proof (induction i n b s rule: verify_loop.induct)
  case (1 i n b s)
  show ?case
  proof (cases "i = n")
    case True
    then show ?thesis using 1(2) by (subst verify_loop.simps) simp
  next
    case False
    then show ?thesis using 1(1) [OF False timed_verify_byte [OF 1(2)]] by (subst verify_loop.simps) simp
  qed
qed

lemma timed_verify_bytes [timed_intros]: "timed s \<Longrightarrow> timed (verify_bytes n s)"
  by (simp add: verify_bytes_def Let_def timed_verify_byte timed_verify_loop split: Verify.splits)

section \<open>The virtual functions\<close>

lemma timed_tcp [timed_intros]:
  "timed s \<Longrightarrow> timed (tcp_async_receive n s)" "timed s \<Longrightarrow> timed (tcp_async_send n s)"
  "timed s \<Longrightarrow> timed (tcp_finish_receive s)" "timed s \<Longrightarrow> timed (tcp_finish_send s)"
  "timed s \<Longrightarrow> timed (tcp_on_eof e n s)"
  by (simp_all add: tcp_async_receive_def tcp_async_send_def tcp_finish_receive_def tcp_finish_send_def
      tcp_on_eof_def Let_def timed_intros)

lemma timed_udp [timed_intros]:
  "timed s \<Longrightarrow> timed (udp_async_receive n s)" "timed s \<Longrightarrow> timed (udp_async_send n s)"
  "timed s \<Longrightarrow> timed (udp_finish_receive s)" "timed s \<Longrightarrow> timed (udp_finish_send s)"
  by (simp_all add: udp_async_receive_def udp_async_send_def udp_finish_receive_def udp_finish_send_def
      get_max_datagram_size_def Let_def timed_intros)

lemma timed_start_transfer [timed_intros]:
  "timed s \<Longrightarrow> timed (tcp_start_transfer s)" "timed s \<Longrightarrow> timed (udp_start_transfer s)"
  by (simp_all add: tcp_start_transfer_def udp_start_transfer_def start_transfer_def Let_def timed_intros)

lemma timed_virtuals:
  "timed s \<Longrightarrow> timed (async_receive (virtuals_of pr) n s)" "timed s \<Longrightarrow> timed (async_send (virtuals_of pr) n s)"
  "timed s \<Longrightarrow> timed (finish_receive (virtuals_of pr) s)" "timed s \<Longrightarrow> timed (finish_send (virtuals_of pr) s)"
  "timed s \<Longrightarrow> timed (on_eof (virtuals_of pr) e n s)" "timed s \<Longrightarrow> timed (connected (virtuals_of pr) s)"
  by (simp_all add: virtuals_of_def tcp_virtuals_def udp_virtuals_def timed_intros)

section \<open>The handlers\<close>

lemma timed_base_handlers:
  assumes "timed s"
  shows "timed (on_signal_number e k s)" and "timed (on_receive_slice (async_receive (virtuals_of pr)) e s)"
    and "timed (on_send_slice (async_send (virtuals_of pr)) e s)"
    and "timed (on_receive (async_receive (virtuals_of pr)) (finish_receive (virtuals_of pr)) e n left s)"
    and "timed (on_send (async_send (virtuals_of pr)) (finish_send (virtuals_of pr)) e n left s)"
  using assms
  by (simp_all add: on_signal_number_def on_receive_slice_def on_send_slice_def begin_slice_def on_receive_def
      on_send_def Let_def timed_virtuals timed_intros)

lemma timed_handle:
  assumes "timed s" and "\<not> is_timer op" and "\<And>e. op = Wait_timeout Cancelled \<Longrightarrow> ev = Done e \<Longrightarrow> is_failure e"
  shows "timed (handle (virtuals_of pr) op ev s)"
  using assms
  by (cases "(virtuals_of pr, op, ev, s)" rule: handle.cases)
    (auto simp: on_timeout_def timed_base_handlers timed_virtuals timed_intros)

lemma start_timer_armed: "valid_configuration (configuration s) \<Longrightarrow> armed (start_timer s)"
  by (auto simp: start_timer_def estimate_test_duration_def Let_def min_def valid_configuration_def armed_def
      start_op_def)

lemma start_timer_timed: "valid_configuration (configuration s) \<Longrightarrow> timed (start_timer s)"
  by (simp add: timed_def start_timer_armed)

lemma timed_without:
  assumes "timed s" and "i < length (pending s)" and "\<not> is_timer (pending s ! i)"
  shows "timed (s\<lparr>pending := remove_nth i (pending s)\<rparr>)"
proof -
  have "list_ex is_timer (pending s) = list_ex is_timer (remove_nth i (pending s))"
    using assms(3) by (subst id_take_nth_drop [OF assms(2)]) (simp add: remove_nth_def)
  then show ?thesis using assms(1) by (simp add: timed_def armed_def)
qed

lemma timed_run:
  assumes inv: "session_inv s" and timed: "timed s" and i: "i < length (pending s)"
    and ev: "allowed (protocol (configuration s)) (pending s ! i) ev"
  shows "timed (run_handler i ev s)"
proof -
  let ?t = "s\<lparr>pending := remove_nth i (pending s)\<rparr>"
  have valid: "valid_configuration (configuration s)" using inv by (simp add: session_inv_def base_ok_def)
  show ?thesis
  proof (cases "is_timer (pending s ! i)")
    case False
    have "is_failure e" if "pending s ! i = Wait_timeout Cancelled" "ev = Done e" for e
      using ev that by (auto simp: allowed_def)
    then show ?thesis
      using timed_handle [OF timed_without [OF timed i False] False] by (simp add: run_handler_def)
  next
    case True
    then consider p where "pending s ! i = Wait_timeout p" "p \<noteq> Cancelled" | p where "pending s ! i = Posted p"
      by (cases "pending s ! i") auto
    then show ?thesis
    proof cases
      case (1 p)
      then obtain e where "ev = Done e" "\<not> is_failure e"
        using ev by (cases p; cases ev) (auto simp: allowed_def)
      then show ?thesis using 1 by (simp add: run_handler_def on_timeout_def timed_intros)
    next
      case (2 p)
      then obtain e where "ev = Done e" using ev by (cases ev) (auto simp: allowed_def)
      then show ?thesis
        using 2 start_timer_timed [of ?t] valid
        by (simp add: run_handler_def virtuals_of_def tcp_virtuals_def udp_virtuals_def timed_intros)
    qed
  qed
qed

lemma timed_end:
  assumes "timed s" and "i < length (pending s)"
  shows "timed (end_wait i s)"
proof -
  have "list_ex is_timer ((pending s)[i := completed (pending s ! i)])" if live: "list_ex is_timer (pending s)"
  proof -
    obtain j where j: "j < length (pending s)" "is_timer (pending s ! j)"
      using live by (auto simp: list_ex_iff in_set_conv_nth)
    then have "is_timer ((pending s)[i := completed (pending s ! i)] ! j)"
      using timer_completed assms(2) by (cases "i = j") simp_all
    then show ?thesis using j(1) unfolding list_ex_length by auto
  qed
  then show ?thesis using assms(1) by (auto simp: timed_def armed_def end_wait_def)
qed

lemma timed_step:
  assumes "step s s'" and inv: "session_inv s" and timed: "timed s"
  shows "timed s'"
  using assms(1)
proof cases
  case own
  then show ?thesis
  proof cases
    case (clock t u)
    then show ?thesis using timed_same [of s' s] timed by simp
  next
    case (wait_ends i)
    then show ?thesis using timed_end [OF timed] by simp
  next
    case (handler i ev)
    then show ?thesis using timed_run [OF inv timed] by simp
  qed
next
  case exit_asked
  then show ?thesis using timed_same [of s' s] timed by simp
qed

lemma reachable_timed:
  assumes "valid_configuration c" and "reachable c s"
  shows "timed s"
proof -
  obtain random tps universal steady s0 where s0: "draws_ok c random"
      "create_session random tps universal steady c = Inr s0" "steps s0 s"
    using assms(2) by (auto simp: reachable_def)
  note inv0 = create_session_inv [OF assms(1) s0(1,2)]
  have "armed s0"
    using s0(2)
    by (auto simp: create_session_unfold and_then_Inr_iff initialize_def tcp_initialize_def udp_initialize_def
        armed_def start_op_def split: if_splits)
  then have start: "timed s0" by (simp add: timed_def)
  from s0(3) have "session_inv s \<and> timed s"
  proof (induction rule: rtranclp_induct)
    case base
    then show ?case using inv0(1) start by simp
  next
    case (step t u)
    then show ?case using timed_step [OF step(2)] steps_inv [of t u] by auto
  qed
  then show ?thesis by simp
qed

section \<open>The timer ends the test\<close>

lemma timeout_fires:
  assumes alive: "crashed s = None" and op: "Wait_timeout p \<in> set (pending s)" "p \<noteq> Cancelled"
    and late: "timeout_expiry s \<le> u"
  shows "\<exists>as s'. performs (Clock u (steady_time s) # as) s = Some s' \<and> length (filter runs_handler as) = 1 \<and>
    finalize s' = Tester_error test_timeout \<and> is_exit_requested (process s')"
proof -
  let ?t = "s\<lparr>universal_time := u, steady_time := steady_time s\<rparr>"
  obtain i where i: "i < length (pending s)" "pending s ! i = Wait_timeout p"
    using op(1) by (auto simp: in_set_conv_nth)
  have fires: "\<exists>s'. perform (Run i (Done No_error)) r = Some s' \<and> finalize s' = Tester_error test_timeout \<and>
      is_exit_requested (process s')"
    if "crashed r = None" "i < length (pending r)" "pending r ! i = Wait_timeout Completed" for r
    using that
    by (simp add: allowed_def run_handler_def on_timeout_def abort_with_def make_error_code_def finalize_def
        is_exit_requested_def request_exit_def)
  show ?thesis
  proof (cases p)
    case Completed
    then obtain s' where "perform (Run i (Done No_error)) ?t = Some s'" "finalize s' = Tester_error test_timeout"
      "is_exit_requested (process s')"
      using fires [of ?t] i alive by auto
    then show ?thesis by (intro exI [of _ "[Run i (Done No_error)]"] exI [of _ s']) simp
  next
    case Waiting
    have ended: "perform (End i) ?t = Some (end_wait i ?t)" using i alive late Waiting by simp
    obtain s' where "perform (Run i (Done No_error)) (end_wait i ?t) = Some s'"
      "finalize s' = Tester_error test_timeout" "is_exit_requested (process s')"
      using fires [of "end_wait i ?t"] i alive by (auto simp: end_wait_def)
    then show ?thesis using ended
      by (intro exI [of _ "[End i, Run i (Done No_error)]"] exI [of _ s']) simp
  qed (use op in simp)
qed

end
