(* ===== verification/Progress_Claims.thy ===== *)
theory Progress_Claims
  imports Send_Refinement Session_Progress Time_Limit
begin

text \<open>The properties that rest on the moves of the two lanes.\<close>

section \<open>Sending ends\<close>

text \<open>
  Termination of the send lane: when a slice carries at least one byte, no schedule runs
  more than twice as many handlers of the lane as there are bytes to send, plus one.
  Together with the absence of stalls this means that sending ends.
\<close>

theorem sending_terminates:
  assumes "valid_configuration c" and "reachable c s"
    and "bandwidth_sampling_frequency c \<le> size_value (send_bandwidth c)"
    and "performs as s = Some s'"
  shows "send_handlers as s \<le> 2 * unat (size_value (total_size c)) + 1"
proof -
  note inv = reachable_inv [OF assms(1,2)]
  have "send_handlers as s + send_work s' \<le> send_work s"
    using assms(3,4) inv reachable_slices [OF assms(1,2)] by (intro send_handlers_bound) simp_all
  also have "send_work s \<le> 2 * unat (size_value (total_size c)) + 1"
    using send_work_le [of s] inv(2) by simp
  finally show ?thesis by simp
qed

theorem sending_terminates_witness:
  "\<exists>s0 s. reachable sample_configuration s0 \<and> performs (sample_start @ sample_transfer [0, 1, 2]) s0 = Some s \<and>
     send_handlers (sample_start @ sample_transfer [0, 1, 2]) s0 \<le> 7"
proof -
  have "\<exists>s0 s. create_session (\<lambda>_. 8) 1000000 0 0 sample_configuration = Inr s0 \<and>
    performs (sample_start @ sample_transfer [0, 1, 2]) s0 = Some s"
    by (simp add: sample_configuration_def sample_start_def sample_transfer_def run_simps)
  then obtain s0 s where s0: "create_session (\<lambda>_. 8) 1000000 0 0 sample_configuration = Inr s0"
    and s: "performs (sample_start @ sample_transfer [0, 1, 2]) s0 = Some s" by blast
  have "reachable sample_configuration s0" using sample_runs [OF s0, of "[]"] by simp
  moreover have "bandwidth_sampling_frequency sample_configuration \<le> size_value (send_bandwidth sample_configuration)"
    and "size_value (total_size sample_configuration) = 3"
    by (simp_all add: sample_configuration_def)
  ultimately show ?thesis
    using sending_terminates [OF sample_valid _ _ s] s by fastforce
qed

section \<open>Sending is paced\<close>

text \<open>C22.
  Pacing: from the handler that starts the transfer on, in every schedule, a session never
  sends faster than its throttle grants: the bytes sent after an elapsed time are at most
  those of the slices that fit in that time, and of one more.
\<close>

theorem sending_keeps_rate:
  assumes "valid_configuration c" and "direction c \<noteq> RX"
    and "reachable c s" and "perform a s = Some s1" and "start_ops s \<noteq> []" and "start_ops s1 = []"
    and "steps s1 s2"
  shows "int (unat (sent s2)) * uint (1000000000 div bandwidth_sampling_frequency c) \<le>
    uint (size_value (send_bandwidth c) div bandwidth_sampling_frequency c) *
      (steady_time s2 - steady_time s + uint (1000000000 div bandwidth_sampling_frequency c))"
proof -
  note inv = reachable_inv [OF assms(1,3)]
  note inv1 = perform_inv [OF inv(1) assms(4)]
  have started: "tx_started s s1"
    using perform_view [OF inv(1) assms(4)] assms(5,6) by cases (auto simp: tx_kept_def)
  then have "send_rate (steady_time s) s1" using tx_started_rate inv(2) assms(2) by simp
  then have rate: "send_rate (steady_time s) s2" using steps_rate [OF assms(7)] inv1 by simp
  have slices: "slices_ok s2"
    using tx_view_slices [OF perform_view [OF inv(1) assms(4)] reachable_slices [OF assms(1,3)]]
      steps_slices [OF assms(7)] inv1 by simp
  have "steady_time s \<le> steady_time s2"
    using steps_time [OF assms(7)] inv1 started by (simp add: tx_started_def)
  moreover have "configuration s2 = c" using steps_inv [OF assms(7)] inv1 inv(2) by simp
  ultimately show ?thesis using send_rate_bound [OF rate slices] slices by (simp add: slices_ok_def)
qed

theorem sending_keeps_rate_witness:
  "\<exists>s2. reachable sample_configuration s2 \<and> sent s2 = 3 \<and> 3 * 1000000000 \<le> 1000 * (steady_time s2 + 1000000000)"
proof -
  let ?first = "[Run 2 (Done No_error), End 1]" and ?connected = "Run 1 (Done No_error)"
  let ?rest = "drop 3 sample_start @ sample_transfer [0, 1, 2]"
  have "\<exists>s0 s1 s2 s3. create_session (\<lambda>_. 8) 1000000 0 0 sample_configuration = Inr s0 \<and>
    performs ?first s0 = Some s1 \<and> start_ops s1 \<noteq> [] \<and> steady_time s1 = 0 \<and>
    perform ?connected s1 = Some s2 \<and> start_ops s2 = [] \<and> performs ?rest s2 = Some s3 \<and> sent s3 = 3"
    by (simp add: sample_configuration_def sample_start_def sample_transfer_def run_simps start_ops_def)
  then obtain s0 s1 s2 s3 where s0: "create_session (\<lambda>_. 8) 1000000 0 0 sample_configuration = Inr s0"
    and s1: "performs ?first s0 = Some s1" "start_ops s1 \<noteq> []" "steady_time s1 = 0"
    and s2: "perform ?connected s1 = Some s2" "start_ops s2 = []"
    and s3: "performs ?rest s2 = Some s3" "sent s3 = 3" by blast
  have "performs (?first @ ?connected # ?rest) s0 = Some s3"
    using s3(1) by (subst performs_append, subst s1(1)) (simp only: performs.simps s2(1) option.case)
  then have "reachable sample_configuration s3" by (rule sample_runs [OF s0])
  then show ?thesis
    using sending_keeps_rate [OF sample_valid _ sample_runs [OF s0 s1(1)] s2(1) s1(2) s2(2) performs_steps [OF s3(1)]]
      s1(3) s3(2)
    by (auto simp: sample_configuration_def)
qed

section \<open>Receiving is paced\<close>

text \<open>C23.
  Pacing of the other lane: from the handler that starts the transfer on, in every schedule
  and whatever the peer sends, a session never takes bytes from its socket faster than its
  throttle grants, up to one more slice.
\<close>

theorem receiving_keeps_rate:
  assumes "valid_configuration c" and "direction c \<noteq> TX"
    and "reachable c s" and "perform a s = Some s1" and "start_ops s \<noteq> []" and "start_ops s1 = []"
    and "steps s1 s2"
  shows "int (unat (received s2)) * uint (1000000000 div bandwidth_sampling_frequency c) \<le>
    uint (size_value (receive_bandwidth c) div bandwidth_sampling_frequency c) *
      (steady_time s2 - steady_time s + uint (1000000000 div bandwidth_sampling_frequency c))"
proof -
  note inv = reachable_inv [OF assms(1,3)]
  note inv1 = perform_inv [OF inv(1) assms(4)]
  note view = perform_rx_view [OF inv(1) assms(4)]
  have started: "rx_started s s1"
    using view assms(5,6) by cases (auto simp: rx_kept_def)
  then have "receive_rate (steady_time s) s1" using rx_started_rate inv(2) assms(2) by simp
  then have rate: "receive_rate (steady_time s) s2" using steps_receive_rate [OF assms(7)] inv1 by simp
  have slices: "receive_slices_ok s2"
    using rx_view_slices [OF view reachable_receive_slices [OF assms(1,3)]]
      steps_receive_slices [OF assms(7)] inv1 by simp
  have "steady_time s \<le> steady_time s2"
    using steps_time [OF assms(7)] inv1 started by (simp add: rx_started_def)
  moreover have "configuration s2 = c" using steps_inv [OF assms(7)] inv1 inv(2) by simp
  ultimately show ?thesis
    using receive_rate_bound [OF rate slices] slices by (simp add: receive_slices_ok_def)
qed

theorem receiving_keeps_rate_witness:
  "\<exists>s2. reachable sample_configuration s2 \<and> received s2 = 3 \<and> 3 * 1000000000 \<le> 1000 * (steady_time s2 + 1000000000)"
proof -
  let ?first = "[Run 2 (Done No_error), End 1]" and ?connected = "Run 1 (Done No_error)"
  let ?rest = "drop 3 sample_start @ sample_transfer [0, 1, 2]"
  have "\<exists>s0 s1 s2 s3. create_session (\<lambda>_. 8) 1000000 0 0 sample_configuration = Inr s0 \<and>
    performs ?first s0 = Some s1 \<and> start_ops s1 \<noteq> [] \<and> steady_time s1 = 0 \<and>
    perform ?connected s1 = Some s2 \<and> start_ops s2 = [] \<and> performs ?rest s2 = Some s3 \<and> received s3 = 3"
    by (simp add: sample_configuration_def sample_start_def sample_transfer_def run_simps start_ops_def)
  then obtain s0 s1 s2 s3 where s0: "create_session (\<lambda>_. 8) 1000000 0 0 sample_configuration = Inr s0"
    and s1: "performs ?first s0 = Some s1" "start_ops s1 \<noteq> []" "steady_time s1 = 0"
    and s2: "perform ?connected s1 = Some s2" "start_ops s2 = []"
    and s3: "performs ?rest s2 = Some s3" "received s3 = 3" by blast
  have "performs (?first @ ?connected # ?rest) s0 = Some s3"
    using s3(1) by (subst performs_append, subst s1(1)) (simp only: performs.simps s2(1) option.case)
  then have "reachable sample_configuration s3" by (rule sample_runs [OF s0])
  then show ?thesis
    using receiving_keeps_rate [OF sample_valid _ sample_runs [OF s0 s1(1)] s2(1) s1(2) s2(2) performs_steps [OF s3(1)]]
      s1(3) s3(2)
    by (auto simp: sample_configuration_def)
qed

section \<open>A TCP session ends\<close>

text \<open>C20.
  Termination of a whole TCP session: when slices carry at least one byte in both directions,
  no schedule, whatever the network reports, runs more than four handlers for each byte of
  the size and seven more. With the absence of stalls, every session comes to its end.
\<close>

theorem session_terminates:
  assumes "valid_configuration c" and "protocol c = TCP" and "nonempty_slices c"
    and "reachable c s" and "performs as s = Some s'"
  shows "length (filter runs_handler as) \<le> 4 * unat (size_value (total_size c)) + 7"
proof -
  note inv = reachable_inv [OF assms(1,4)]
  have "length (filter runs_handler as) + session_work s' \<le> session_work s"
    using assms(2,3,5) inv reachable_slices [OF assms(1,4)] reachable_receive_slices [OF assms(1,4)]
    by (intro session_work_bound) simp_all
  also have "session_work s \<le> 4 * unat (size_value (total_size c)) + 7"
    by (rule reachable_work [OF assms(1,4,2)])
  finally show ?thesis by simp
qed

theorem session_terminates_witness:
  "\<exists>s0 s. reachable sample_configuration s0 \<and>
     performs (sample_start @ sample_transfer [0, 1, 2] @ sample_end) s0 = Some s \<and>
     length (filter runs_handler (sample_start @ sample_transfer [0, 1, 2] @ sample_end)) \<le> 19"
proof -
  obtain s0 s where s0: "create_session (\<lambda>_. 8) 1000000 0 0 sample_configuration = Inr s0"
    and s: "performs (sample_start @ sample_transfer [0, 1, 2] @ sample_end) s0 = Some s"
    using sample_complete_run by blast
  have reach: "reachable sample_configuration s0" using sample_runs [OF s0, of "[]"] by simp
  have sample: "protocol sample_configuration = TCP" "nonempty_slices sample_configuration"
    "size_value (total_size sample_configuration) = 3"
    by (simp_all add: sample_configuration_def nonempty_slices_def)
  show ?thesis using session_terminates [OF sample_valid sample(1,2) reach s] reach s sample(3) by auto
qed

section \<open>Every test can end\<close>

text \<open>C21.
  The time limit ends every test, for both protocols and whatever the network does: once its
  timer has been started, a session that has neither closed its socket nor failed has a live
  timer, whose handler can run at any time from the expiry time on. It makes the test fail
  with \<open>test_timeout\<close> and ends the run loop.
\<close>

theorem time_limit_ends_the_test:
  assumes "valid_configuration c" and "reachable c s" and "\<forall>p. Posted p \<notin> set (pending s)"
    and "\<not> closed (socket s)" and "timeout_expiry s \<le> u"
  shows "is_failure (finalize s) \<or>
    (\<exists>as s'. performs (Clock u (steady_time s) # as) s = Some s' \<and> length (filter runs_handler as) = 1 \<and>
       finalize s' = Tester_error test_timeout \<and> loop_ended s')"
proof (cases "is_failure (finalize s)")
  case False
  have alive: "crashed s = None"
    using reachable_inv(1) [OF assms(1,2)] by (simp add: session_inv_def base_ok_def)
  have "armed s" using reachable_timed [OF assms(1,2)] assms(4) False by (simp add: timed_def finalize_def)
  then obtain op where op: "op \<in> set (pending s)" "is_timer op" by (auto simp: armed_def list_ex_iff)
  from op(2) obtain p where "op = Wait_timeout p \<and> p \<noteq> Cancelled \<or> op = Posted p"
    by (cases op) simp_all
  then have "Wait_timeout p \<in> set (pending s)" "p \<noteq> Cancelled" using op(1) assms(3) by blast+
  from timeout_fires [OF alive this assms(5)] show ?thesis by (auto simp: loop_ended_def)
qed simp

theorem time_limit_ends_the_test_witness:
  "\<exists>s as s'. reachable sample_configuration s \<and> \<not> is_failure (finalize s) \<and>
     performs (Clock 1100000 (steady_time s) # as) s = Some s' \<and> finalize s' = Tester_error test_timeout"
proof -
  have "\<exists>s0 s. create_session (\<lambda>_. 8) 1000000 0 0 sample_configuration = Inr s0 \<and>
      performs sample_start s0 = Some s \<and> list_all (\<lambda>op. \<forall>p. op \<noteq> Posted p) (pending s) \<and>
      \<not> closed (socket s) \<and> \<not> is_failure (finalize s) \<and> timeout_expiry s \<le> 1100000"
    by (simp add: sample_start_def run_simps sample_configuration_def finalize_def)
  then obtain s0 s where s0: "create_session (\<lambda>_. 8) 1000000 0 0 sample_configuration = Inr s0"
      "performs sample_start s0 = Some s" and s: "list_all (\<lambda>op. \<forall>p. op \<noteq> Posted p) (pending s)"
      "\<not> closed (socket s)" "\<not> is_failure (finalize s)" "timeout_expiry s \<le> 1100000"
    by blast
  have reach: "reachable sample_configuration s" using sample_runs [OF s0] .
  have "\<forall>p. Posted p \<notin> set (pending s)" using s(1) by (auto simp: list_all_iff)
  from time_limit_ends_the_test [OF sample_valid reach this s(2,4)] reach s(3) show ?thesis by blast
qed

text \<open>
  A limit that is reached just before the last handler overrules success: closing cancels the
  timer, but not the handler of one that has already expired.
\<close>

lemma late_timer_overrules_success:
  "\<exists>s. reachable sample_configuration s \<and> received_stream (socket s) = [0, 1, 2] \<and> sent_stream (socket s) = ramp 0 3 \<and>
     closed (socket s) \<and> pending s = [] \<and>
     finalize s = Tester_error test_timeout"
proof -
  have "\<exists>s0 s. create_session (\<lambda>_. 8) 1000000 0 0 sample_configuration = Inr s0 \<and>
      performs (sample_start @ sample_transfer [0, 1, 2] @
        [End 2, Clock 1100000 0, End 1, Run 2 (Got Eof []), Run 0 (Signalled Operation_aborted 0),
         Run 0 (Done No_error)]) s0 = Some s \<and>
      received_stream (socket s) = [0, 1, 2] \<and> sent_stream (socket s) = ramp 0 3 \<and>
     closed (socket s) \<and> pending s = [] \<and> finalize s = Tester_error test_timeout"
    by (simp add: sample_configuration_def sample_start_def sample_transfer_def run_simps finalize_def filled
        take_drop_ramp [of 0 3 131072 0, simplified] on_timeout_def)
  then show ?thesis using sample_runs by blast
qed

section \<open>Sending refines an abstract sender\<close>

text \<open>C10.
  Refinement: seen through the abstraction \<open>sender_of\<close>, every session starts as an idle
  sender and behaves as the four-phase machine: each of its steps, whichever handler, clock,
  signal or failure it is, is one step of the machine or changes nothing.
\<close>

theorem session_refines_sender:
  assumes "valid_configuration c" and "reachable c s" and "step s s'"
  shows "(sender_moves c)\<^sup>*\<^sup>* idle_sender (sender_of s) \<and>
    (sender_of s' = sender_of s \<or> sender_moves c (sender_of s) (sender_of s'))"
proof
  obtain random tps universal steady s0 where s0: "draws_ok c random"
      "create_session random tps universal steady c = Inr s0" "steps s0 s"
    using assms(2) by (auto simp: reachable_def)
  note inv0 = create_session_inv [OF assms(1) s0(1,2)]
  show "(sender_moves c)\<^sup>*\<^sup>* idle_sender (sender_of s)"
    using steps_simulated [OF s0(3) inv0(1) created_slices [OF s0(2)]] inv0(2)
      created_sender [OF assms(1) s0(1,2)] by simp
  obtain a where "perform a s = Some s'" using assms(3) step_iff_perform by blast
  from perform_simulated [OF reachable_inv(1) [OF assms(1,2)] reachable_slices [OF assms(1,2)] this]
  show "sender_of s' = sender_of s \<or> sender_moves c (sender_of s) (sender_of s')"
    using reachable_inv(2) [OF assms(1,2)] by simp
qed

theorem session_refines_sender_witness:
  "\<exists>s. reachable sample_configuration s \<and> sender_of s = \<lparr>sender_phase = In_slice 3, moved = 0\<rparr> \<and>
     (sender_moves sample_configuration)\<^sup>*\<^sup>* idle_sender (sender_of s)"
proof -
  have "\<exists>s0 s. create_session (\<lambda>_. 8) 1000000 0 0 sample_configuration = Inr s0 \<and>
    performs sample_start s0 = Some s \<and> sender_of s = \<lparr>sender_phase = In_slice 3, moved = 0\<rparr>"
    by (simp add: sample_configuration_def sample_start_def run_simps start_ops_def tx_ops_def sender_of_def)
  then obtain s0 s where s0: "create_session (\<lambda>_. 8) 1000000 0 0 sample_configuration = Inr s0"
    and s: "performs sample_start s0 = Some s" "sender_of s = \<lparr>sender_phase = In_slice 3, moved = 0\<rparr>" by blast
  have "reachable sample_configuration s" using sample_runs [OF s0 s(1)] .
  with session_refines_sender [OF sample_valid this step.exit_asked] s(2) show ?thesis by blast
qed

end
