(* ===== verification/Command_Line.thy ===== *)
theory Command_Line
  imports Config
begin

text \<open>
  \<open>src/Executable.cpp\<close>: the options, the checks on one session's options, the
  configuration file with one session per line, and the command line itself.
  Boost.Program_options is not part of the sources: what it makes of a list of words is
  the parameter \<open>read_options\<close> of the definitions, a function of the option table, of the
  default values and of the words. Its contract is the locale \<open>options_library\<close>.
\<close>

section \<open>The option table\<close>

record option_spec =
  long_name :: string
  short_name :: char
  description :: string

text \<open>
  The variables map of a session's options: an option is counted when it has a value. The
  type of each is the one that the table declares.
\<close>

record session_options =
  opt_connect :: "string option"
  opt_listen :: "string option"
  opt_size :: "Size option"
  opt_protocol :: "Protocol option"
  opt_tx_bandwidth :: "Size option"
  opt_rx_bandwidth :: "Size option"
  opt_frequency :: "u64 option"
  opt_verify :: "Verify option"
  opt_direction :: "Direction option"
  opt_windows :: "Size option"
  opt_duration_margin :: "time_duration option"
  opt_packet_size :: "Size Range option"
  opt_shutdown_policy :: "ShutdownPolicy option"

definition option_of :: "string \<Rightarrow> char \<Rightarrow> string list \<Rightarrow> option_spec" where
  "option_of name short help = \<lparr>long_name = name, short_name = short, description = join (CHR 0x0A) help\<rparr>"

text \<open>The lines of a help text; most end with a line break, so that their last one is empty.\<close>

definition file_required :: "option_spec list" where
  "file_required =
     [option_of ''connect'' (CHR ''c'') [''Connect to following address'', ''''],
      option_of ''listen'' (CHR ''l'') [''Listen on following address'', ''''],
      option_of ''size'' (CHR ''s'') [''Amount of data to send (e.g. 8KiB, 16MiB, 1Gibit, 1GiB)'', '''']]"

definition file_optional :: "option_spec list" where
  "file_optional =
     [option_of ''protocol'' (CHR ''p'')
        [''Protocol used to transfer data. Accepted values:'', ''  - tcp'', ''  - udp'', ''''],
      option_of ''tx-bandwidth'' (CHR ''t'') [''Limit send bandwidth (e.g. 8kB, 16MB, 1Gbit, 1GB)'', ''''],
      option_of ''rx-bandwidth'' (CHR ''r'') [''Limit receive bandwidth (e.g. 8kB, 16MB, 1Gbit, 1GB)'', ''''],
      option_of ''bandwidth-sampling-frequency'' (CHR ''f'') [''Bandwidth calculation frequency Hz'', ''''],
      option_of ''verify'' (CHR ''v'')
        [''Verify received bytes. Accepted values:'', ''  - none'', ''  - first'', ''  - all'', ''''],
      option_of ''mode'' (CHR ''m'')
        [''Transfer mode. Accepted values:'', ''  - rx'', ''  - tx'', ''  - both'', ''''],
      option_of ''windows'' (CHR ''w'') [''Tcp socket buffer size (e.g. 8KiB, 16MiB)'', ''''],
      option_of ''duration-margin'' (CHR ''d'')
        [''Extra time from theoretical test time allowed to complete without timeout error'', '''']]"

definition file_udp_optional :: "option_spec list" where
  "file_udp_optional =
     [option_of ''max-datagram-size'' (CHR ''D'')
        [''UDP and TCP packet maximum size. Accepted values:'', ''  - X The maximum size is equal to X'',
         ''  - X-Y The maximum size is randomly chosen for each packet between X & Y (inclusive)'', '''']]"

definition file_tcp_optional :: "option_spec list" where
  "file_tcp_optional =
     [option_of ''shutdown-policy'' (CHR ''S'')
        [''Connection shutdown policy. Accepted values:'', ''  - send_complete'', ''  - receive_complete'',
         ''  - wait_for_peer'', '''']]"

definition file_all :: "option_spec list" where
  "file_all = file_required @ file_optional @ file_udp_optional @ file_tcp_optional"

definition DEFAULT_BANDWIDTH :: Size where
  "DEFAULT_BANDWIDTH = \<lparr>size_value = 128 * 1000 * 1000, unit_system = SI\<rparr>"

text \<open>The default values; \<open>size_of_number\<close> is the constructor of \<open>Size\<close> from one number.\<close>

definition size_of_number :: "u64 \<Rightarrow> Size" where
  "size_of_number n = \<lparr>size_value = n, unit_system = IEC\<rparr>"

definition default_options :: session_options where
  "default_options =
     \<lparr>opt_connect = None, opt_listen = None, opt_size = None,
      opt_protocol = Some TCP, opt_tx_bandwidth = Some DEFAULT_BANDWIDTH,
      opt_rx_bandwidth = Some DEFAULT_BANDWIDTH, opt_frequency = Some 1000,
      opt_verify = Some NONE, opt_direction = Some BOTH,
      opt_windows = Some (size_of_number 0), opt_duration_margin = Some Special,
      opt_packet_size = Some (range_of_value (size_of_number (push_bit 16 1 - 64))),
      opt_shutdown_policy = Some SEND_COMPLETE\<rparr>"

section \<open>The contract of the options library\<close>

text \<open>An option that was declared with a default value always has one.\<close>

definition has_defaults :: "session_options \<Rightarrow> bool" where
  "has_defaults v \<longleftrightarrow>
     opt_protocol v \<noteq> None \<and> opt_tx_bandwidth v \<noteq> None \<and> opt_rx_bandwidth v \<noteq> None \<and>
     opt_frequency v \<noteq> None \<and> opt_verify v \<noteq> None \<and> opt_direction v \<noteq> None \<and>
     opt_windows v \<noteq> None \<and> opt_duration_margin v \<noteq> None \<and> opt_packet_size v \<noteq> None \<and>
     opt_shutdown_policy v \<noteq> None"

type_synonym options_reader =
  "option_spec list \<Rightarrow> session_options \<Rightarrow> string list \<Rightarrow> failure + session_options"

section \<open>One session\<close>

text \<open>\<open>po::notify\<close> writes every value to the variable that the table names for it.\<close>

definition put_option :: "'a option \<Rightarrow> ('a \<Rightarrow> 'c \<Rightarrow> 'c) \<Rightarrow> 'c \<Rightarrow> 'c" where
  "put_option v f c = (case v of None \<Rightarrow> c | Some x \<Rightarrow> f x c)"

definition notify :: "session_options \<Rightarrow> SessionConfiguration \<Rightarrow> SessionConfiguration" where
  "notify v c =
     (let c = put_option (opt_connect v) (\<lambda>x c. c\<lparr>endpoint := x\<rparr>) c;
          c = put_option (opt_listen v) (\<lambda>x c. c\<lparr>endpoint := x\<rparr>) c;
          c = put_option (opt_size v) (\<lambda>x c. c\<lparr>total_size := x\<rparr>) c;
          c = put_option (opt_protocol v) (\<lambda>x c. c\<lparr>protocol := x\<rparr>) c;
          c = put_option (opt_tx_bandwidth v) (\<lambda>x c. c\<lparr>send_bandwidth := x\<rparr>) c;
          c = put_option (opt_rx_bandwidth v) (\<lambda>x c. c\<lparr>receive_bandwidth := x\<rparr>) c;
          c = put_option (opt_frequency v) (\<lambda>x c. c\<lparr>bandwidth_sampling_frequency := x\<rparr>) c;
          c = put_option (opt_verify v) (\<lambda>x c. c\<lparr>verify := x\<rparr>) c;
          c = put_option (opt_direction v) (\<lambda>x c. c\<lparr>direction := x\<rparr>) c;
          c = put_option (opt_windows v) (\<lambda>x c. c\<lparr>windows := x\<rparr>) c;
          c = put_option (opt_duration_margin v) (\<lambda>x c. c\<lparr>duration_margin := x\<rparr>) c;
          c = put_option (opt_packet_size v) (\<lambda>x c. c\<lparr>packet_size := x\<rparr>) c
      in put_option (opt_shutdown_policy v) (\<lambda>x c. c\<lparr>shutdown_policy := x\<rparr>) c)"

text \<open>\<open>args["name"].as<T>()\<close> throws when the option has no value.\<close>

definition as_value :: "'a option \<Rightarrow> failure + 'a" where
  "as_value v = (case v of None \<Rightarrow> Inl (Runtime_error ''bad any_cast'') | Some x \<Rightarrow> Inr x)"

definition check_options :: "session_options \<Rightarrow> SessionConfiguration \<Rightarrow> failure + SessionConfiguration" where
  "check_options v c =
     (if opt_connect v \<noteq> None \<and> opt_listen v \<noteq> None
      then Inl (Runtime_error ''--connect and --listen are mutually exclusive'')
      else and_then (as_value (opt_frequency v)) (\<lambda>frequency.
        if frequency = 0 then Inl (Runtime_error ''invalid --bandwidth-sampling-frequency'')
        else if (case opt_size v of None \<Rightarrow> True | Some z \<Rightarrow> size_value z = 0)
        then Inl (Runtime_error ''--size is required'')
        else if direction c = TX \<and> shutdown_policy c = RECEIVE_COMPLETE
        then Inl (Runtime_error ''TX mode isn't compatible with shutdown policy receive_complete'')
        else if direction c = RX \<and> shutdown_policy c = SEND_COMPLETE
        then Inl (Runtime_error ''RX mode isn't compatible with shutdown policy send_complete'')
        else if opt_connect v \<noteq> None then Inr (c\<lparr>mode := CLIENT\<rparr>)
        else if opt_listen v \<noteq> None then Inr (c\<lparr>mode := SERVER\<rparr>)
        else Inl (Runtime_error ''--connect or --listen are required'')))"

definition fill_configuration ::
  "options_reader \<Rightarrow> SessionConfiguration \<Rightarrow> string list \<Rightarrow> failure + SessionConfiguration" where
  "fill_configuration read_options c argv =
     and_then (read_options file_all default_options argv) (\<lambda>v. check_options v (notify v c))"

section \<open>The configuration file\<close>

text \<open>
  The words of a line, as two \<open>std::istream_iterator<std::string>\<close> deliver them: words are
  extracted until an extraction fails.
\<close>

lemma extract_string_shorter:
  assumes "extract_string st = (st', w)" and "\<not> failbit st'"
  shows "length (rest st') < length (rest st)"
proof -
  obtain c cs where d: "dropWhile is_space (rest st) = c # cs" and "good st"
    using assms by (auto simp: extract_string_def sentry_def split: if_splits list.splits)
  have "\<not> is_space c" using hd_dropWhile [of is_space "rest st"] d by simp
  then have "rest st' = dropWhile (\<lambda>c. \<not> is_space c) cs"
    using assms(1) d \<open>good st\<close> by (auto simp: extract_string_def sentry_def Let_def)
  also have "length \<dots> < length (c # cs)" by (simp add: length_dropWhile_le le_imp_less_Suc)
  also have "\<dots> \<le> length (rest st)" using length_dropWhile_le [of is_space "rest st"] d by simp
  finally show ?thesis .
qed

function stream_words :: "istream \<Rightarrow> string list" where
  "stream_words st =
     (case extract_string st of (st', w) \<Rightarrow> if failbit st' then [] else w # stream_words st')"
  by pat_completeness auto
termination
  by (relation "measure (\<lambda>st. length (rest st))") (auto intro: extract_string_shorter [OF sym])

declare stream_words.simps [simp del]

definition fill_from_line ::
  "options_reader \<Rightarrow> SessionConfiguration \<Rightarrow> string \<Rightarrow> failure + SessionConfiguration" where
  "fill_from_line read_options c line =
     fill_configuration read_options c (''enyx-net-bench'' # stream_words (istringstream line))"

text \<open>
  One configuration per line. All lines fill the same variable \<open>c\<close>, which is moved into the
  list after each of them: the standard leaves a moved-from string valid but unspecified,
  so its next value is an argument, \<open>moved\<close>.
\<close>

definition move_from :: "(string \<Rightarrow> string) \<Rightarrow> SessionConfiguration \<Rightarrow> SessionConfiguration" where
  "move_from moved c = c\<lparr>endpoint := moved (endpoint c)\<rparr>"

fun fill_from_lines ::
  "options_reader \<Rightarrow> (string \<Rightarrow> string) \<Rightarrow> SessionConfiguration \<Rightarrow> string list \<Rightarrow>
   failure + SessionConfiguration list" where
  "fill_from_lines read_options moved c [] = Inr []"
| "fill_from_lines read_options moved c (line # lines) =
     and_then (fill_from_line read_options c line) (\<lambda>c.
     and_then (fill_from_lines read_options moved (move_from moved c) lines) (\<lambda>cs.
     Inr (c # cs)))"

definition fill_from_file ::
  "options_reader \<Rightarrow> (string \<Rightarrow> string) \<Rightarrow> SessionConfiguration \<Rightarrow> string \<Rightarrow>
   failure + SessionConfiguration list" where
  "fill_from_file read_options moved c content =
     fill_from_lines read_options moved c (getline_tokens (CHR 0x0A) content)"

section \<open>The command line\<close>

record command_options =
  opt_file :: "string option"
  opt_cpus :: "CpuCoreIdRanges option"
  opt_help :: bool

definition cmd_optional :: "option_spec list" where
  "cmd_optional =
     [option_of ''configuration-file'' (CHR ''c'') [''A file with one session configuration per line'', ''''],
      option_of ''cpu-cores'' (CHR ''x'') [''Threads used to process network events'', ''''],
      option_of ''help'' (CHR ''h'') [''Print the command lines arguments'', '''']]"

definition default_command :: command_options where
  "default_command = \<lparr>opt_file = Some ''-'', opt_cpus = None, opt_help = False\<rparr>"

type_synonym command_reader =
  "option_spec list \<Rightarrow> command_options \<Rightarrow> string list \<Rightarrow> failure + command_options"

text \<open>The value-initialised configuration \<open>SessionConfiguration c{}\<close>.\<close>

definition zero_configuration :: SessionConfiguration where
  "zero_configuration =
     \<lparr>mode = CLIENT, verify = NONE, direction = RX, endpoint = '''',
      send_bandwidth = default_Size, receive_bandwidth = default_Size,
      bandwidth_sampling_frequency = 0, windows = default_Size, total_size = default_Size,
      packet_size = range_of_value default_Size, duration_margin = Ticks 0,
      shutdown_policy = WAIT_FOR_PEER, protocol = UDP\<rparr>"

text \<open>
  \<open>parse\<close>: the standard input and the files are arguments. An \<open>ifstream\<close> that cannot open
  its file yields no line, as an empty file does.
\<close>

definition parse ::
  "command_reader \<Rightarrow> options_reader \<Rightarrow> (string \<Rightarrow> string) \<Rightarrow> string \<Rightarrow> (string \<Rightarrow> string option) \<Rightarrow>
   string list \<Rightarrow> failure + ApplicationConfiguration" where
  "parse read_command read_options moved stdin files argv =
     and_then (read_command cmd_optional default_command argv) (\<lambda>args.
       if opt_help args then Inl (Runtime_error ''help is requested'')
       else (case opt_file args of
         None \<Rightarrow> Inl (Runtime_error ''--configuration-file argument is required'')
       | Some file \<Rightarrow>
           let content = (if file = ''-'' then stdin
                 else case files file of None \<Rightarrow> '''' | Some t \<Rightarrow> t)
           in and_then (fill_from_file read_options moved zero_configuration content) (\<lambda>cs.
                Inr \<lparr>cpus = (case opt_cpus args of None \<Rightarrow> \<lparr>ranges = []\<rparr> | Some r \<Rightarrow> r),
                     session_configurations = cs\<rparr>)))"

section \<open>What the checks let pass\<close>

lemma put_option_simps [simp]: "put_option None f c = c" "put_option (Some x) f c = f x c"
  by (simp_all add: put_option_def)

lemma as_value_simps [simp]: "as_value (Some x) = Inr x" "as_value v = Inr x \<longleftrightarrow> v = Some x"
  by (auto simp: as_value_def split: option.splits)

text \<open>The configuration that complete options describe, whatever the variable held before.\<close>

definition described :: "session_options \<Rightarrow> SessionConfiguration" where
  "described v =
     \<lparr>mode = (if opt_connect v \<noteq> None then CLIENT else SERVER), verify = the (opt_verify v),
      direction = the (opt_direction v),
      endpoint = the (case opt_listen v of None \<Rightarrow> opt_connect v | Some e \<Rightarrow> Some e),
      send_bandwidth = the (opt_tx_bandwidth v), receive_bandwidth = the (opt_rx_bandwidth v),
      bandwidth_sampling_frequency = the (opt_frequency v), windows = the (opt_windows v),
      total_size = the (opt_size v), packet_size = the (opt_packet_size v),
      duration_margin = the (opt_duration_margin v), shutdown_policy = the (opt_shutdown_policy v),
      protocol = the (opt_protocol v)\<rparr>"

text \<open>The first check that fails, if any.\<close>

definition rejection :: "session_options \<Rightarrow> string option" where
  "rejection v =
     (if opt_connect v \<noteq> None \<and> opt_listen v \<noteq> None
      then Some ''--connect and --listen are mutually exclusive''
      else if opt_frequency v = Some 0 then Some ''invalid --bandwidth-sampling-frequency''
      else if \<not> (\<exists>z. opt_size v = Some z \<and> size_value z \<noteq> 0) then Some ''--size is required''
      else if opt_direction v = Some TX \<and> opt_shutdown_policy v = Some RECEIVE_COMPLETE
      then Some ''TX mode isn't compatible with shutdown policy receive_complete''
      else if opt_direction v = Some RX \<and> opt_shutdown_policy v = Some SEND_COMPLETE
      then Some ''RX mode isn't compatible with shutdown policy send_complete''
      else if opt_connect v = None \<and> opt_listen v = None then Some ''--connect or --listen are required''
      else None)"

lemma complete_options:
  assumes "has_defaults v"
  obtains co li si pr tx rx fr ve di wi du pa po where
    "v = \<lparr>opt_connect = co, opt_listen = li, opt_size = si, opt_protocol = Some pr,
      opt_tx_bandwidth = Some tx, opt_rx_bandwidth = Some rx, opt_frequency = Some fr,
      opt_verify = Some ve, opt_direction = Some di, opt_windows = Some wi,
      opt_duration_margin = Some du, opt_packet_size = Some pa, opt_shutdown_policy = Some po\<rparr>"
proof -
  note v = assms [unfolded has_defaults_def not_None_eq]
  from v show thesis
    by (elim conjE exE) (rule that, rule session_options.equality, simp_all)
qed

lemma check_notify:
  assumes "has_defaults v"
  shows "check_options v (notify v c) =
    (case rejection v of Some m \<Rightarrow> Inl (Runtime_error m) | None \<Rightarrow> Inr (described v))"
proof -
  obtain co li si pr tx rx fr ve di wi du pa po where
    v: "v = \<lparr>opt_connect = co, opt_listen = li, opt_size = si, opt_protocol = Some pr,
      opt_tx_bandwidth = Some tx, opt_rx_bandwidth = Some rx, opt_frequency = Some fr,
      opt_verify = Some ve, opt_direction = Some di, opt_windows = Some wi,
      opt_duration_margin = Some du, opt_packet_size = Some pa, opt_shutdown_policy = Some po\<rparr>"
    by (rule complete_options [OF assms])
  have read: "opt_connect v = co" "opt_listen v = li" "opt_size v = si" "opt_frequency v = Some fr"
    "opt_direction v = Some di" "opt_shutdown_policy v = Some po"
    "direction (notify v c) = di" "shutdown_policy (notify v c) = po"
    unfolding v notify_def Let_def by (cases co; cases li; cases si; simp)+
  have result: "(notify v c)\<lparr>mode := (if co \<noteq> None then CLIENT else SERVER)\<rparr> = described v"
    if "si \<noteq> None" "co \<noteq> None \<or> li \<noteq> None"
    using that unfolding v notify_def Let_def described_def
    by (intro SessionConfiguration.equality; cases co; cases li; cases si; simp)
  show ?thesis
    unfolding check_options_def rejection_def read as_value_simps and_then_simps
    using result by (cases co; cases li; cases si) simp_all
qed

locale options_library =
  fixes read_options :: options_reader
  assumes reads_defaults: "read_options file_all default_options argv = Inr v \<Longrightarrow> has_defaults v"
begin

lemma fill_configuration_Inr:
  "fill_configuration read_options c argv = Inr c' \<longleftrightarrow>
   (\<exists>v. read_options file_all default_options argv = Inr v \<and> rejection v = None \<and> c' = described v)"
  using check_notify reads_defaults
  by (auto simp: fill_configuration_def and_then_Inr_iff split: option.splits)

lemma fill_configuration_independent:
  "fill_configuration read_options c argv = fill_configuration read_options d argv"
  using check_notify reads_defaults
  by (cases "read_options file_all default_options argv") (auto simp: fill_configuration_def)

lemma fill_from_line_independent:
  "fill_from_line read_options c line = fill_from_line read_options d line"
  unfolding fill_from_line_def by (rule fill_configuration_independent)

lemma fill_from_lines_independent:
  "fill_from_lines read_options moved c lines = map_results (fill_from_line read_options d) lines"
proof (induction lines arbitrary: c)
  case (Cons line lines)
  then show ?case using fill_from_line_independent [of c line d] by simp
qed simp

end

section \<open>A reader that satisfies the contract\<close>

text \<open>
  The documented syntax of the options that the samples use: \<open>--name value\<close>. A value is read
  by the reader of its type, and all of its text must be used.
\<close>

definition read_value :: "'a extractor \<Rightarrow> string \<Rightarrow> failure + 'a" where
  "read_value extractor w =
     and_then (extractor (istringstream w)) (\<lambda>(st, x).
       case x of
         None \<Rightarrow> Inl (Runtime_error ''invalid option value'')
       | Some y \<Rightarrow> if rest st = [] \<and> \<not> failbit st then Inr y
                  else Inl (Runtime_error ''invalid option value''))"

definition read_option :: "string \<Rightarrow> string \<Rightarrow> session_options \<Rightarrow> failure + session_options" where
  "read_option name w v =
     (if name = ''--connect'' then Inr (v\<lparr>opt_connect := Some w\<rparr>)
      else if name = ''--listen'' then Inr (v\<lparr>opt_listen := Some w\<rparr>)
      else if name = ''--size''
      then and_then (read_value (extract_Size backtrack_match) w) (\<lambda>x. Inr (v\<lparr>opt_size := Some x\<rparr>))
      else if name = ''--mode''
      then and_then (read_value extract_Direction w) (\<lambda>x. Inr (v\<lparr>opt_direction := Some x\<rparr>))
      else if name = ''--verify''
      then and_then (read_value extract_Verify w) (\<lambda>x. Inr (v\<lparr>opt_verify := Some x\<rparr>))
      else if name = ''--protocol''
      then and_then (read_value extract_Protocol w) (\<lambda>x. Inr (v\<lparr>opt_protocol := Some x\<rparr>))
      else if name = ''--shutdown-policy''
      then and_then (read_value extract_ShutdownPolicy w) (\<lambda>x. Inr (v\<lparr>opt_shutdown_policy := Some x\<rparr>))
      else Inl (Runtime_error ''unrecognised option''))"

fun read_pairs :: "session_options \<Rightarrow> string list \<Rightarrow> failure + session_options" where
  "read_pairs v (name # w # ws) = and_then (read_option name w v) (\<lambda>v. read_pairs v ws)"
| "read_pairs v [] = Inr v"
| "read_pairs v [name] = Inl (Runtime_error ''the required argument for option is missing'')"

definition sample_reader :: options_reader where
  "sample_reader specs v argv = read_pairs v (tl argv)"

lemma read_option_defaults: "read_option name w v = Inr v' \<Longrightarrow> has_defaults v \<Longrightarrow> has_defaults v'"
  by (auto simp: read_option_def has_defaults_def and_then_Inr_iff split: if_splits)

lemma read_pairs_defaults: "read_pairs v ws = Inr v' \<Longrightarrow> has_defaults v \<Longrightarrow> has_defaults v'"
  by (induction v ws rule: read_pairs.induct) (auto simp: and_then_Inr_iff dest: read_option_defaults)

lemma default_options_complete: "has_defaults default_options"
  by (simp add: has_defaults_def default_options_def)

interpretation sample_options: options_library sample_reader
  by unfold_locales (auto simp: sample_reader_def dest: read_pairs_defaults intro: default_options_complete)

end
