(* ===== verification/Cpu_Pinning.thy ===== *)
theory Cpu_Pinning
  imports Cpu_Ranges
begin

text \<open>
  \<open>src/CpuUnix.cpp\<close> and \<open>src/CpuWin.cpp\<close>: pinning the current thread to one core. The
  system calls are parameters; a result \<open>Some code\<close> is the thrown \<open>std::system_error\<close>.
\<close>

text \<open>A \<open>cpu_set_t\<close> has room for 1024 cores; setting a bit beyond leaves it as it is.\<close>

definition cpu_set :: "CpuCoreId \<Rightarrow> nat set" where
  "cpu_set core = (if unat core < 1024 then {unat core} else {})"

definition pin_unix :: "(nat set \<Rightarrow> int) \<Rightarrow> CpuCoreId \<Rightarrow> int option" where
  "pin_unix set_affinity core =
     (let failure = set_affinity (cpu_set core) in if failure \<noteq> 0 then Some failure else None)"

text \<open>Shifting by the width of the mask or more is undefined.\<close>

definition pin_windows :: "(u64 \<Rightarrow> bool) \<Rightarrow> int \<Rightarrow> CpuCoreId \<Rightarrow> failure + int option" where
  "pin_windows set_mask last_error core =
     (if 64 \<le> unat core then Inl Undefined_behaviour
      else let mask = push_bit (unat core) 1
           in Inr (if set_mask mask then None else Some last_error))"

text \<open>The system refuses an empty set, and pins to any core that it has.\<close>

definition affinity_contract :: "nat \<Rightarrow> (nat set \<Rightarrow> int) \<Rightarrow> bool" where
  "affinity_contract cores set_affinity \<longleftrightarrow> (\<forall>set. set_affinity set = 0 \<longleftrightarrow> set \<inter> {..<cores} \<noteq> {})"

lemma pin_unix_contract:
  assumes "affinity_contract cores set_affinity"
  shows "pin_unix set_affinity core = None \<longleftrightarrow> unat core < cores \<and> unat core < 1024"
  using assms by (auto simp: affinity_contract_def pin_unix_def cpu_set_def Let_def)

end
