(* ===== verification/Sockets.thy ===== *)
theory Sockets
  imports Config Errors
begin

text \<open>
  \<open>src/Socket.hpp\<close>, \<open>src/TcpSocket.hpp\<close> and \<open>src/UdpSocket.cpp\<close>: the endpoint of a
  session, and the calls of the operating system that open its socket. The name resolver
  and the outcome of the calls are parameters. What the sessions do with an open socket is
  modelled in \<open>Sessions\<close> and the theories after it.
\<close>

section \<open>Endpoints\<close>

text \<open>The expression \<open>(?:(?:([^:]+):)?([^:]+):)?([^:]+):([^:]+)\<close>.\<close>

definition not_colon :: rx where
  "not_colon = Plus_of (\<lambda>c. c \<noteq> CHR '':'')"

definition regex_endpoint :: rx where
  "regex_endpoint =
     Then (Opt (Then (Opt (Then (Group 1 not_colon) (Text '':'')))
                     (Then (Group 2 not_colon) (Text '':''))))
          (Then (Group 3 not_colon) (Then (Text '':'') (Group 4 not_colon)))"

text \<open>A query of the resolver: a service alone, or a host and a service.\<close>

datatype query = Service string | Host_service string string

definition endpoint_error :: "string \<Rightarrow> failure" where
  "endpoint_error s = Runtime_error (''invalid endpoint'' @ [CHR 0x27] @ s @ [CHR 0x27])"

definition endpoint_queries ::
  "(rx \<Rightarrow> string \<Rightarrow> captures option) \<Rightarrow> string \<Rightarrow> failure + query \<times> query" where
  "endpoint_queries regex_match s =
     (case regex_match regex_endpoint s of
        None \<Rightarrow> Inl (endpoint_error s)
      | Some m \<Rightarrow>
          let local_query = (if m 1 \<noteq> None then Host_service (str m 1) (str m 2)
                else if m 2 \<noteq> None then Service (str m 2)
                else Service ''0'')
          in Inr (local_query, Host_service (str m 3) (str m 4)))"

definition resolve ::
  "(rx \<Rightarrow> string \<Rightarrow> captures option) \<Rightarrow> (query \<Rightarrow> error_code + 'e) \<Rightarrow> string \<Rightarrow> thrown + 'e \<times> 'e" where
  "resolve regex_match lookup s =
     and_then (throws_standard (endpoint_queries regex_match s)) (\<lambda>(local_query, remote_query).
     and_then (throws_system (lookup local_query)) (\<lambda>local_end.
     and_then (throws_system (lookup remote_query)) (\<lambda>remote_end. Inr (local_end, remote_end))))"

section \<open>Opening a socket\<close>

text \<open>The calls on the socket or the acceptor, in order; the first one that fails throws.\<close>

datatype 'e socket_call =
    Open_for 'e
  | Set_reuse_address
  | Set_receive_buffer int
  | Set_send_buffer int
  | Bind 'e
  | Listen
  | Async_connect 'e
  | Async_accept

text \<open>
  The options take an \<open>int\<close>: the 64-bit size is converted to it, which keeps the low 32 bits.
\<close>

definition as_int :: "u64 \<Rightarrow> int" where
  "as_int n = sint (ucast n :: u32)"

lemma as_int_exact: "as_int n = uint n \<longleftrightarrow> uint n < 2 ^ 31"
proof -
  have "as_int n = signed_take_bit 31 (uint n)"
    by (simp add: as_int_def sint_uint unsigned_ucast_eq signed_take_bit_take_bit)
  moreover have "- (2 ^ 31) \<le> uint n" by (rule order.trans [of _ 0]) simp_all
  ultimately show ?thesis using signed_take_bit_int_eq_self_iff [of 31 "uint n"] by simp
qed

lemma as_int_range:
  "- (2 ^ 31) \<le> as_int n" "as_int n < 2 ^ 31" "as_int n mod 2 ^ 32 = uint n mod 2 ^ 32"
proof -
  have eq: "as_int n = signed_take_bit 31 (uint n)"
    by (simp add: as_int_def sint_uint unsigned_ucast_eq signed_take_bit_take_bit)
  show "- (2 ^ 31) \<le> as_int n" "as_int n < 2 ^ 31"
    unfolding eq by (rule signed_take_bit_int_greater_eq_minus_exp, rule signed_take_bit_int_less_exp)
  have "take_bit 32 (signed_take_bit 31 (uint n)) = take_bit 32 (uint n)"
    by (simp add: take_bit_signed_take_bit)
  then show "as_int n mod 2 ^ 32 = uint n mod 2 ^ 32" by (simp only: eq take_bit_eq_mod)
qed

definition setup_windows :: "SessionConfiguration \<Rightarrow> 'e socket_call list" where
  "setup_windows c =
     (if size_value (windows c) \<noteq> 0
      then [Set_receive_buffer (as_int (size_value (windows c))),
            Set_send_buffer (as_int (size_value (windows c)))]
      else [])"

definition tcp_connect :: "SessionConfiguration \<Rightarrow> 'e \<times> 'e \<Rightarrow> 'e socket_call list" where
  "tcp_connect c e =
     [Open_for (fst e), Set_reuse_address, Bind (fst e)] @ setup_windows c @ [Async_connect (snd e)]"

definition tcp_listen :: "SessionConfiguration \<Rightarrow> 'e \<times> 'e \<Rightarrow> 'e socket_call list" where
  "tcp_listen c e =
     [Open_for (snd e), Set_reuse_address] @ setup_windows c @ [Bind (snd e), Listen, Async_accept]"

definition tcp_open ::
  "(rx \<Rightarrow> string \<Rightarrow> captures option) \<Rightarrow> (query \<Rightarrow> error_code + 'e) \<Rightarrow> SessionConfiguration \<Rightarrow>
   thrown + 'e socket_call list" where
  "tcp_open regex_match lookup c =
     and_then (resolve regex_match lookup (endpoint c)) (\<lambda>e.
       Inr (case mode c of CLIENT \<Rightarrow> tcp_connect c e | SERVER \<Rightarrow> tcp_listen c e))"

text \<open>The second component is the peer's address, which every datagram is sent to.\<close>

definition udp_connect :: "SessionConfiguration \<Rightarrow> 'e \<times> 'e \<Rightarrow> 'e socket_call list \<times> 'e" where
  "udp_connect c e =
     ([Open_for (snd e)] @ setup_windows c @ [Set_reuse_address, Bind (fst e)], snd e)"

definition make_UdpSocket ::
  "(rx \<Rightarrow> string \<Rightarrow> captures option) \<Rightarrow> (query \<Rightarrow> error_code + 'e) \<Rightarrow> SessionConfiguration \<Rightarrow>
   thrown + 'e socket_call list \<times> 'e" where
  "make_UdpSocket regex_match lookup c =
     (case mode c of
        SERVER \<Rightarrow> Inl (Standard (Runtime_error ''Udp supports client mode only''))
      | CLIENT \<Rightarrow> and_then (resolve regex_match lookup (endpoint c)) (\<lambda>e. Inr (udp_connect c e)))"

text \<open>
  Performing the calls: the first one that fails throws its code. Starting an asynchronous
  operation does not fail; what becomes of it is reported to its handler.
\<close>

fun perform_calls :: "('e socket_call \<Rightarrow> error_code option) \<Rightarrow> 'e socket_call list \<Rightarrow> error_code + unit" where
  "perform_calls os [] = Inr ()"
| "perform_calls os (Async_connect e # calls) = perform_calls os calls"
| "perform_calls os (Async_accept # calls) = perform_calls os calls"
| "perform_calls os (call # calls) =
     (case os call of Some f \<Rightarrow> Inl f | None \<Rightarrow> perform_calls os calls)"

definition synchronous :: "'e socket_call \<Rightarrow> bool" where
  "synchronous call = (case call of Async_connect e \<Rightarrow> False | Async_accept \<Rightarrow> False | _ \<Rightarrow> True)"

lemma perform_calls_first:
  "perform_calls os calls = Inl f \<longleftrightarrow> (\<exists>before call after. calls = before @ call # after \<and>
     synchronous call \<and> os call = Some f \<and> (\<forall>c \<in> set before. synchronous c \<longrightarrow> os c = None))"
  (is "_ \<longleftrightarrow> ?first calls")
proof (induction calls)
  case (Cons call calls)
  have "?first (call # calls) \<longleftrightarrow>
      synchronous call \<and> os call = Some f \<or> (synchronous call \<longrightarrow> os call = None) \<and> ?first calls"
  proof
    assume "?first (call # calls)"
    then obtain before c after where c: "call # calls = before @ c # after" "synchronous c" "os c = Some f"
      "\<forall>c \<in> set before. synchronous c \<longrightarrow> os c = None" by blast
    then show "synchronous call \<and> os call = Some f \<or> (synchronous call \<longrightarrow> os call = None) \<and> ?first calls"
      by (cases before) auto
  next
    assume "synchronous call \<and> os call = Some f \<or> (synchronous call \<longrightarrow> os call = None) \<and> ?first calls"
    then show "?first (call # calls)"
    proof
      assume "synchronous call \<and> os call = Some f"
      then show ?thesis by (intro exI [of _ "[]"]) simp
    next
      assume r: "(synchronous call \<longrightarrow> os call = None) \<and> ?first calls"
      then obtain before c after where c: "calls = before @ c # after" "synchronous c" "os c = Some f"
        "\<forall>c \<in> set before. synchronous c \<longrightarrow> os c = None" by blast
      with r show ?thesis by (intro exI [of _ "call # before"] exI [of _ c] exI [of _ after]) simp
    qed
  qed
  with Cons show ?case
    by (cases call) (auto simp: synchronous_def split: option.splits)
qed simp

text \<open>
  Opening the socket of a session: the constructor of \<open>UdpSocket\<close>, or \<open>TcpSocket::open\<close>.
\<close>

definition open_socket ::
  "(rx \<Rightarrow> string \<Rightarrow> captures option) \<Rightarrow> (query \<Rightarrow> error_code + 'e) \<Rightarrow>
   ('e socket_call \<Rightarrow> error_code option) \<Rightarrow> SessionConfiguration \<Rightarrow> thrown + unit" where
  "open_socket regex_match lookup os c =
     and_then (if protocol c = TCP then tcp_open regex_match lookup c
               else map_sum id fst (make_UdpSocket regex_match lookup c)) (\<lambda>calls.
     throws_system (perform_calls os calls))"

section \<open>The reference reading of an endpoint\<close>

text \<open>The parts between the colons, the empty ones included.\<close>

fun parts :: "string \<Rightarrow> string list" where
  "parts [] = [[]]"
| "parts (c # s) =
     (if c = CHR '':'' then [] # parts s
      else case parts s of [] \<Rightarrow> [[c]] | p # ps \<Rightarrow> (c # p) # ps)"

definition endpoint_of_parts :: "string \<Rightarrow> failure + query \<times> query" where
  "endpoint_of_parts s =
     (if [] \<in> set (parts s) then Inl (endpoint_error s)
      else case parts s of
        [host, service] \<Rightarrow> Inr (Service ''0'', Host_service host service)
      | [local_service, host, service] \<Rightarrow> Inr (Service local_service, Host_service host service)
      | [local_host, local_service, host, service] \<Rightarrow>
          Inr (Host_service local_host local_service, Host_service host service)
      | _ \<Rightarrow> Inl (endpoint_error s))"

lemma parts_nonempty [simp]: "parts s \<noteq> []"
  by (induction s rule: parts.induct) (auto split: list.splits)

lemma parts_plain [simp]: "CHR '':'' \<notin> set a \<Longrightarrow> parts a = [a]"
  by (induction a rule: parts.induct) (auto split: list.splits)

lemma parts_colon [simp]: "CHR '':'' \<notin> set a \<Longrightarrow> parts (a @ CHR '':'' # s) = a # parts s"
  by (induction a) (auto split: list.splits)

lemma join_parts: "join (CHR '':'') (parts s) = s"
proof (induction s rule: parts.induct)
  case (2 c s)
  have "join (CHR '':'') ((c # p) # ps) = c # join (CHR '':'') (p # ps)" for p ps
    by (cases ps) simp_all
  with 2 show ?case by (cases "parts s") (auto simp: neq_Nil_conv split: list.splits)
qed simp

lemma parts_no_colon: "p \<in> set (parts s) \<Longrightarrow> CHR '':'' \<notin> set p"
  by (induction s arbitrary: p rule: parts.induct) (fastforce split: if_splits list.splits)+

definition word_part :: "string \<Rightarrow> bool" where
  "word_part p \<longleftrightarrow> p \<noteq> [] \<and> CHR '':'' \<notin> set p"

lemma matches_not_colon: "matches not_colon s m \<longleftrightarrow> word_part s \<and> m = Map.empty"
  by (auto simp: not_colon_def matches_simps word_part_def list_all_iff)

text \<open>The three shapes of an endpoint, with their captures.\<close>

definition endpoint_captures :: "string list \<Rightarrow> captures" where
  "endpoint_captures ps =
     (case ps of
        [c, d] \<Rightarrow> [3 \<mapsto> c, 4 \<mapsto> d]
      | [b, c, d] \<Rightarrow> [2 \<mapsto> b, 3 \<mapsto> c, 4 \<mapsto> d]
      | [a, b, c, d] \<Rightarrow> [1 \<mapsto> a, 2 \<mapsto> b, 3 \<mapsto> c, 4 \<mapsto> d]
      | _ \<Rightarrow> Map.empty)"

lemma matches_endpoint:
  "matches regex_endpoint s m \<longleftrightarrow>
   list_all word_part (parts s) \<and> length (parts s) \<in> {2, 3, 4} \<and> m = endpoint_captures (parts s)"
  (is "?lhs \<longleftrightarrow> ?rhs")
proof
  assume ?lhs
  then show ?rhs
    unfolding regex_endpoint_def matches_simps matches_not_colon
    by (auto simp: word_part_def endpoint_captures_def)
next
  assume r: ?rhs
  have part: "matches (Group n not_colon) p [n \<mapsto> p]" if "word_part p" for n p
    using matches.group [of not_colon p Map.empty n] that by (simp add: matches_not_colon)
  note sep = matches.literal [of "'':''"]
  have remote: "matches (Then (Group 3 not_colon) (Then (Text '':'') (Group 4 not_colon)))
      (c @ '':'' @ d) ([3 \<mapsto> c] ++ (Map.empty ++ [4 \<mapsto> d]))" if "word_part c" "word_part d" for c d
    by (intro matches.then_rx sep part that)
  have service: "matches (Then (Group 2 not_colon) (Text '':'')) (b @ '':'') ([2 \<mapsto> b] ++ Map.empty)"
    and host: "matches (Then (Group 1 not_colon) (Text '':'')) (b @ '':'') ([1 \<mapsto> b] ++ Map.empty)"
    if "word_part b" for b
    by (intro matches.then_rx sep part that)+
  from r consider (two) c d where "parts s = [c, d]" | (three) b c d where "parts s = [b, c, d]"
    | (four) a b c d where "parts s = [a, b, c, d]"
    by (auto simp: numeral_2_eq_2 numeral_3_eq_3 length_Suc_conv eval_nat_numeral)
  then show ?lhs
  proof cases
    case two
    then have "s = [] @ c @ '':'' @ d" using join_parts [of s] by simp
    moreover have "matches regex_endpoint ([] @ c @ '':'' @ d) (Map.empty ++ ([3 \<mapsto> c] ++ (Map.empty ++ [4 \<mapsto> d])))"
      unfolding regex_endpoint_def using r two by (intro matches.then_rx matches.opt_none remote) simp_all
    ultimately show ?thesis using r two by (simp add: endpoint_captures_def)
  next
    case three
    then have "s = ([] @ (b @ '':'')) @ c @ '':'' @ d" using join_parts [of s] by simp
    moreover have "matches regex_endpoint (([] @ (b @ '':'')) @ c @ '':'' @ d)
        ((Map.empty ++ ([2 \<mapsto> b] ++ Map.empty)) ++ ([3 \<mapsto> c] ++ (Map.empty ++ [4 \<mapsto> d])))"
      unfolding regex_endpoint_def using r three
      by (intro matches.then_rx [OF matches.opt_some] matches.then_rx [OF matches.opt_none] service remote)
        simp_all
    ultimately show ?thesis using r three by (simp add: endpoint_captures_def)
  next
    case four
    then have "s = ((a @ '':'') @ (b @ '':'')) @ c @ '':'' @ d" using join_parts [of s] by simp
    moreover have "matches regex_endpoint (((a @ '':'') @ (b @ '':'')) @ c @ '':'' @ d)
        ((([1 \<mapsto> a] ++ Map.empty) ++ ([2 \<mapsto> b] ++ Map.empty)) ++ ([3 \<mapsto> c] ++ (Map.empty ++ [4 \<mapsto> d])))"
      unfolding regex_endpoint_def using r four
      by (intro matches.then_rx [OF matches.opt_some] host service remote) simp_all
    ultimately show ?thesis using r four by (simp add: endpoint_captures_def)
  qed
qed

lemma parts_words: "list_all word_part (parts s) \<longleftrightarrow> [] \<notin> set (parts s)"
  using parts_no_colon [of _ s] by (auto simp: list_all_iff word_part_def)

context regex_engine
begin

lemma endpoint_queries_eq: "endpoint_queries regex_match s = endpoint_of_parts s"
proof (cases "list_all word_part (parts s) \<and> length (parts s) \<in> {2, 3, 4}")
  case True
  then have "regex_match regex_endpoint s = Some (endpoint_captures (parts s))"
    by (intro match_unique) (auto simp: matches_endpoint)
  moreover obtain c d where "parts s = [c, d] \<or> (\<exists>b. parts s = [b, c, d]) \<or> (\<exists>a b. parts s = [a, b, c, d])"
    using True by (auto simp: numeral_2_eq_2 numeral_3_eq_3 length_Suc_conv eval_nat_numeral)
  ultimately show ?thesis
    using True
    by (auto simp: endpoint_queries_def endpoint_of_parts_def endpoint_captures_def str_def parts_words)
next
  case False
  then have "regex_match regex_endpoint s = None"
    by (intro no_match) (auto simp: matches_endpoint)
  with False show ?thesis
    by (auto simp: endpoint_queries_def endpoint_of_parts_def parts_words split: list.split)
qed

end

end
