(* ===== verification/Application.thy ===== *)
theory Application
  imports Session_Correctness Command_Line Cpu_Pinning Sockets
begin

text \<open>
  \<open>src/Application.cpp\<close> and \<open>src/main.cpp\<close>: the sessions of a run and their partition over
  the reactors, one thread per reactor, the collection of the failures, and the exit
  status. The threads interleave: a step of the application is a step of any one of its
  sessions, and the exit flag is shared by all of them.
\<close>

section \<open>The exit status\<close>

text \<open>
  The number of a code. Those of Asio's two symbolic codes are not in the sources: they
  are arguments.
\<close>

fun code_value :: "int \<Rightarrow> int \<Rightarrow> error_code \<Rightarrow> int" where
  "code_value aborted_number eof_number No_error = 0"
| "code_value aborted_number eof_number Operation_aborted = aborted_number"
| "code_value aborted_number eof_number Eof = eof_number"
| "code_value aborted_number eof_number (System_error n) = n"
| "code_value aborted_number eof_number (Tester_error e) = error_number e"

text \<open>What \<open>main\<close> returns; \<open>None\<close> when the process does not return from it.\<close>

definition main_status :: "int \<Rightarrow> int \<Rightarrow> thrown + unit \<Rightarrow> int option" where
  "main_status aborted_number eof_number outcome =
     (case outcome of
        Inr _ \<Rightarrow> Some 0
      | Inl (System_failure e) \<Rightarrow> Some (code_value aborted_number eof_number e)
      | Inl (Standard (Runtime_error m)) \<Rightarrow> Some 1
      | Inl (Standard f) \<Rightarrow> None
      | Inl Terminated \<Rightarrow> None)"

section \<open>Creating the sessions and the threads\<close>

definition get_concurrency :: "CpuCoreIds \<Rightarrow> nat" where
  "get_concurrency core_ids = (if core_ids = [] then 1 else length core_ids)"

text \<open>
  What the \<open>i\<close>-th session is created with: its random numbers, the clocks' readings, the
  resolver and what the calls on its socket report; the matcher of regular expressions, and
  the system call that pins a thread. The type \<open>'e\<close> is that of the network's addresses.
\<close>

record 'e environment =
  env_draws :: "nat \<Rightarrow> nat \<Rightarrow> u64"
  env_ticks_per_second :: int
  env_universal :: "nat \<Rightarrow> int"
  env_steady :: "nat \<Rightarrow> int"
  env_set_affinity :: "nat set \<Rightarrow> int"
  env_regex_match :: "rx \<Rightarrow> string \<Rightarrow> captures option"
  env_lookup :: "nat \<Rightarrow> query \<Rightarrow> error_code + 'e"
  env_socket_call :: "nat \<Rightarrow> 'e socket_call \<Rightarrow> error_code option"

text \<open>Constructing and initialising a session includes the opening of its socket.\<close>

definition open_session_socket :: "'e environment \<Rightarrow> nat \<Rightarrow> SessionConfiguration \<Rightarrow> thrown + unit" where
  "open_session_socket env i conf =
     open_socket (env_regex_match env) (env_lookup env i) (env_socket_call env i) conf"

definition create_open_session :: "'e environment \<Rightarrow> nat \<Rightarrow> SessionConfiguration \<Rightarrow> thrown + Session" where
  "create_open_session env i conf =
     and_then (throws_standard (create_session (env_draws env i) (env_ticks_per_second env)
         (env_universal env i) (env_steady env i) conf)) (\<lambda>session.
     and_then (open_session_socket env i conf) (\<lambda>_. Inr session))"

text \<open>The sessions with the index of their \<open>io_service\<close>, by round robin.\<close>

fun create_sessions ::
  "'e environment \<Rightarrow> nat \<Rightarrow> nat \<Rightarrow> SessionConfiguration list \<Rightarrow> thrown + (nat \<times> Session) list" where
  "create_sessions env services i [] = Inr []"
| "create_sessions env services i (conf # confs) =
     and_then (create_open_session env i conf) (\<lambda>session.
     and_then (create_sessions env services (Suc i) confs) (\<lambda>sessions.
     Inr ((i mod services, session) # sessions)))"

text \<open>One thread per \<open>io_service\<close>, pinned when there is a core for it.\<close>

definition create_threads :: "CpuCoreIds \<Rightarrow> nat \<Rightarrow> (nat \<times> CpuCoreId option) list" where
  "create_threads core_ids services =
     map (\<lambda>i. (i, if length core_ids \<le> i then None else Some (core_ids ! i))) [0..<services]"

text \<open>
  The function of a thread starts with the pinning; nothing in the thread catches the
  exception of a failure.
\<close>

definition run_pinned :: "(nat set \<Rightarrow> int) \<Rightarrow> CpuCoreId option \<Rightarrow> bool" where
  "run_pinned set_affinity core =
     (case core of None \<Rightarrow> True | Some i \<Rightarrow> pin_unix set_affinity i = None)"

definition threads_start :: "'e environment \<Rightarrow> CpuCoreIds \<Rightarrow> bool" where
  "threads_start env core_ids =
     list_all (\<lambda>(k, core). run_pinned (env_set_affinity env) core)
       (create_threads core_ids (get_concurrency core_ids))"

section \<open>The running application\<close>

record application =
  services :: nat
  members :: "(nat \<times> Session) list"
  exit_state :: signal_state
  signalled :: bool  \<comment> \<open>the handler of \<open>src/Signal.cpp\<close> has run\<close>

text \<open>All sessions read one exit flag: when it is set, it is set for each of them.\<close>

definition see_exit :: "bool \<Rightarrow> Session \<Rightarrow> Session" where
  "see_exit asked s = (if asked then s\<lparr>process := request_exit (process s)\<rparr> else s)"

definition start_application :: "nat \<Rightarrow> (nat \<times> Session) list \<Rightarrow> application" where
  "start_application n sessions =
     \<lparr>services = n, members = sessions, exit_state = signals_at_start, signalled = False\<rparr>"

definition after_member :: "nat \<Rightarrow> Session \<Rightarrow> application \<Rightarrow> application" where
  "after_member i s app =
     (let asked = is_exit_requested (process s) in
      app\<lparr>members := map (\<lambda>(k, t). (k, see_exit asked t)) ((members app)[i := (fst (members app ! i), s)]),
          exit_state := (if asked then request_exit (exit_state app) else exit_state app)\<rparr>)"

definition after_signal :: "application \<Rightarrow> application" where
  "after_signal app =
     app\<lparr>members := map (\<lambda>(k, t). (k, see_exit True t)) (members app),
         exit_state := on_signal (exit_state app), signalled := True\<rparr>"

inductive app_step :: "application \<Rightarrow> application \<Rightarrow> bool" where
  member: "\<not> aborted (exit_state app) \<Longrightarrow> i < length (members app) \<Longrightarrow> own_step (snd (members app ! i)) s \<Longrightarrow>
    app_step app (after_member i s app)"
| signal: "\<not> aborted (exit_state app) \<Longrightarrow> app_step app (after_signal app)"

text \<open>
  The loop of \<open>Thread::run\<close> over one \<open>io_service\<close>: it ends when exit is requested, or when
  the service has stopped because no work is left for it.
\<close>

definition thread_ended :: "application \<Rightarrow> nat \<Rightarrow> bool" where
  "thread_ended app k \<longleftrightarrow>
     is_exit_requested (exit_state app) \<or> (\<forall>(j, s) \<in> set (members app). j = k \<longrightarrow> pending s = [])"

definition joined :: "application \<Rightarrow> bool" where
  "joined app \<longleftrightarrow> \<not> aborted (exit_state app) \<and> list_all (thread_ended app) [0..<services app]"

section \<open>Collecting the failures\<close>

definition first_failure :: "Session list \<Rightarrow> error_code" where
  "first_failure sessions =
     fold (\<lambda>s first. let failure = finalize s in
        if is_failure failure \<and> \<not> is_failure first then failure else first) sessions No_error"

definition collect :: "Session list \<Rightarrow> thrown + unit" where
  "collect sessions =
     (let first = first_failure sessions in
      if is_failure first then Inl (System_failure first) else Inr ())"

text \<open>\<open>Application::run\<close>: the outcomes that the scheduling of the threads allows.\<close>

inductive runs :: "'e environment \<Rightarrow> ApplicationConfiguration \<Rightarrow> thrown + unit \<Rightarrow> bool" where
  not_created: "create_sessions env (get_concurrency (to_cpu_core_list (cpus conf))) 0
      (session_configurations conf) = Inl t \<Longrightarrow> runs env conf (Inl t)"
| terminated: "create_sessions env (get_concurrency (to_cpu_core_list (cpus conf))) 0
      (session_configurations conf) = Inr sessions \<Longrightarrow>
    \<not> threads_start env (to_cpu_core_list (cpus conf)) \<Longrightarrow> runs env conf (Inl Terminated)"
| finished: "n = get_concurrency (to_cpu_core_list (cpus conf)) \<Longrightarrow>
    create_sessions env n 0 (session_configurations conf) = Inr sessions \<Longrightarrow>
    threads_start env (to_cpu_core_list (cpus conf)) \<Longrightarrow>
    app_step\<^sup>*\<^sup>* (start_application n sessions) app \<Longrightarrow> joined app \<Longrightarrow>
    runs env conf (collect (map snd (members app)))"

text \<open>\<open>Executable::run\<close> under \<open>main\<close>: a parse error is an outcome too.\<close>

definition program_runs ::
  "'e environment \<Rightarrow> failure + ApplicationConfiguration \<Rightarrow> thrown + unit \<Rightarrow> bool" where
  "program_runs env parsed outcome \<longleftrightarrow>
     (case parsed of Inl f \<Rightarrow> outcome = Inl (Standard f) | Inr conf \<Rightarrow> runs env conf outcome)"

section \<open>The partition over the services\<close>

lemma threads_start_iff:
  "threads_start env core_ids \<longleftrightarrow> (\<forall>id \<in> set core_ids. pin_unix (env_set_affinity env) id = None)"
  by (auto simp: threads_start_def create_threads_def get_concurrency_def run_pinned_def list_all_iff
      all_set_conv_all_nth)

lemma get_concurrency_pos: "0 < get_concurrency core_ids"
  by (simp add: get_concurrency_def)

lemma create_sessions_services:
  "create_sessions env n i confs = Inr ms \<Longrightarrow> map fst ms = map (\<lambda>j. j mod n) [i..<i + length confs]"
  by (induction env n i confs arbitrary: ms rule: create_sessions.induct)
    (auto simp: and_then_Inr_iff upt_conv_Cons simp del: upt_Suc)

text \<open>How many of the first \<open>m\<close> numbers leave the remainder \<open>k\<close>.\<close>

lemma remainders:
  assumes "0 < n" and "k < n"
  shows "length (filter (\<lambda>j. j mod n = k) [0..<m]) = (m + n - 1 - k) div n"
proof (induction m)
  case 0
  then show ?case using assms by simp
next
  case (Suc m)
  let ?a = "m + n - 1 - k"
  have split: "Suc ?a div n = (if n dvd Suc ?a then Suc (?a div n) else ?a div n)"
    by (simp add: div_Suc dvd_eq_mod_eq_0)
  have "int (Suc ?a) = int m - int k + int n" using assms by simp
  then have "n dvd Suc ?a \<longleftrightarrow> int n dvd int m - int k"
    by (metis dvd_add_right_iff dvd_add_triv_right_iff int_dvd_int_iff)
  also have "\<dots> \<longleftrightarrow> m mod n = k"
    using assms(2) mod_eq_dvd_iff [of "int m" "int n" "int k"] by (simp flip: zmod_int)
  finally have "n dvd Suc ?a \<longleftrightarrow> m mod n = k" .
  moreover have "Suc m + n - 1 - k = Suc ?a" using assms by simp
  ultimately show ?case using Suc split by (auto split: if_splits)
qed

section \<open>Every session of a run is a reachable one\<close>

text \<open>Calls that throw throw failures, and none of them is an asynchronous one that was cancelled.\<close>

definition throws_failures :: "'e environment \<Rightarrow> bool" where
  "throws_failures env \<longleftrightarrow>
     (\<forall>i query e. env_lookup env i query = Inl e \<longrightarrow> is_failure e \<and> e \<noteq> Operation_aborted) \<and>
     (\<forall>i call e. env_socket_call env i call = Some e \<longrightarrow> is_failure e \<and> e \<noteq> Operation_aborted)"

definition environment_ok :: "'e environment \<Rightarrow> SessionConfiguration list \<Rightarrow> bool" where
  "environment_ok env confs \<longleftrightarrow>
     (\<forall>i < length confs. draws_ok (confs ! i) (env_draws env i)) \<and> throws_failures env"

text \<open>
  What every step keeps: the sessions' own invariants, for the configurations they were
  created with, and that exit was requested by a failed session or by a signal.
\<close>

definition app_inv :: "SessionConfiguration list \<Rightarrow> application \<Rightarrow> bool" where
  "app_inv confs app \<longleftrightarrow>
     map (configuration \<circ> snd) (members app) = confs \<and>
     (\<forall>(k, s) \<in> set (members app). k < services app \<and> session_inv s \<and>
        (is_exit_requested (process s) \<longrightarrow> is_exit_requested (exit_state app))) \<and>
     (is_exit_requested (exit_state app) \<longrightarrow>
        signalled app \<or> (\<exists>(k, s) \<in> set (members app). is_failure (finalize s)))"

lemma see_exit_simps [simp]:
  "configuration (see_exit asked s) = configuration s"
  "finalize (see_exit asked s) = finalize s"
  "pending (see_exit asked s) = pending s"
  "is_exit_requested (process (see_exit asked s)) \<longleftrightarrow> asked \<or> is_exit_requested (process s)"
  by (auto simp: see_exit_def finalize_def is_exit_requested_def request_exit_def)

lemma see_exit_inv [simp]: "session_inv s \<Longrightarrow> session_inv (see_exit asked s)"
  by (simp add: see_exit_def exit_asked_inv)

lemma app_inv_member:
  assumes inv: "app_inv confs app" and i: "i < length (members app)" and own: "own_step (snd (members app ! i)) s"
  shows "app_inv confs (after_member i s app)"
proof -
  obtain k t where t: "members app ! i = (k, t)" by fastforce
  then have mem: "(k, t) \<in> set (members app)" using i nth_mem by metis
  have keeps: "keeps t s" using own_step_inv [of t s] own inv mem by (auto simp: app_inv_def t)
  then have s: "session_inv s" "configuration s = configuration t"
    and asks: "is_exit_requested (process s) \<Longrightarrow> is_exit_requested (process t) \<or> is_failure (finalize s)"
    and stays: "is_failure (finalize t) \<Longrightarrow> is_failure (finalize s)"
    by (auto simp: keeps_def own_exit_def is_exit_requested_def finalize_def)
  let ?a = "is_exit_requested (process s)"
  let ?ms = "(members app)[i := (k, s)]"
  have ms: "members (after_member i s app) = map (\<lambda>(k, t). (k, see_exit ?a t)) ?ms"
    and rest: "services (after_member i s app) = services app" "signalled (after_member i s app) = signalled app"
    and exit: "is_exit_requested (exit_state (after_member i s app)) \<longleftrightarrow> ?a \<or> is_exit_requested (exit_state app)"
    by (auto simp: after_member_def Let_def t is_exit_requested_def request_exit_def)
  have "map (configuration \<circ> snd) ?ms =
      (map (configuration \<circ> snd) (members app))[i := (configuration \<circ> snd) (members app ! i)]"
    by (simp add: map_update t s(2))
  also have "\<dots> = map (configuration \<circ> snd) (members app)"
    using list_update_id [of "map (configuration \<circ> snd) (members app)" i] i by simp
  finally have confs: "map (configuration \<circ> snd) (members (after_member i s app)) =
      map (configuration \<circ> snd) (members app)"
    by (simp add: ms comp_def case_prod_beta)
  have members_ok: "\<forall>(j, u) \<in> set ?ms. j < services app \<and> session_inv u \<and>
      (is_exit_requested (process u) \<longrightarrow> ?a \<or> is_exit_requested (exit_state app))"
    using inv s(1) mem set_update_subset_insert [of "members app" i "(k, s)"]
    by (fastforce simp: app_inv_def)
  have failed: "\<exists>(j, u) \<in> set ?ms. is_failure (finalize u)"
    if asked: "?a \<or> is_exit_requested (exit_state app)" and quiet: "\<not> signalled app"
  proof (cases "is_failure (finalize s)")
    case True
    then show ?thesis using i by (auto simp: set_update_memI intro!: bexI [of _ "(k, s)"])
  next
    case False
    then have "is_exit_requested (exit_state app)"
      using asked asks inv mem by (auto simp: app_inv_def)
    then obtain j u where u: "(j, u) \<in> set (members app)" "is_failure (finalize u)"
      using inv quiet by (auto simp: app_inv_def)
    then have "(j, u) \<noteq> (k, t)" using stays False by auto
    then have "(j, u) \<in> set ?ms"
      using u(1) t by (metis in_set_conv_nth length_list_update nth_list_update_neq)
    with u(2) show ?thesis by auto
  qed
  show ?thesis
    using inv members_ok failed unfolding app_inv_def confs rest exit
    unfolding ms by (auto simp: case_prod_beta)
qed

lemma app_inv_signal:
  "app_inv confs app \<Longrightarrow> app_inv confs (after_signal app)"
  by (auto simp: app_inv_def after_signal_def on_signal_def is_exit_requested_def request_exit_def)

lemma app_step_inv: "app_step app app' \<Longrightarrow> app_inv confs app \<Longrightarrow> app_inv confs app'"
  by (induction rule: app_step.induct) (simp_all add: app_inv_member app_inv_signal)

lemma app_steps_inv: "app_step\<^sup>*\<^sup>* app app' \<Longrightarrow> app_inv confs app \<Longrightarrow> app_inv confs app'"
  by (induction rule: rtranclp_induct) (auto intro: app_step_inv)

lemma created_process:
  "create_session random tps universal steady c = Inr s \<Longrightarrow> process s = signals_at_start"
  by (auto simp: create_session_unfold make_Session_def and_then_Inr_iff initialize_def tcp_initialize_def
      udp_initialize_def base_initialize_def start_op_def Let_def split: if_splits)

lemma create_sessions_inv:
  "create_sessions env n i confs = Inr ms \<Longrightarrow> 0 < n \<Longrightarrow> \<forall>c \<in> set confs. valid_configuration c \<Longrightarrow>
   \<forall>j < length confs. draws_ok (confs ! j) (env_draws env (i + j)) \<Longrightarrow>
   map (configuration \<circ> snd) ms = confs \<and>
   (\<forall>(k, s) \<in> set ms. k < n \<and> session_inv s \<and> \<not> is_exit_requested (process s))"
proof (induction env n i confs arbitrary: ms rule: create_sessions.induct)
  case (2 env n i conf confs)
  obtain s rest where s: "create_session (env_draws env i) (env_ticks_per_second env) (env_universal env i)
      (env_steady env i) conf = Inr s"
    and rest: "create_sessions env n (Suc i) confs = Inr rest" and ms: "ms = (i mod n, s) # rest"
    using 2(2) by (auto simp: create_open_session_def and_then_Inr_iff)
  have draws: "draws_ok conf (env_draws env i)" using 2(5) by force
  have "\<forall>j < length confs. draws_ok (confs ! j) (env_draws env (Suc i + j))"
    using 2(5) by force
  then have "map (configuration \<circ> snd) rest = confs \<and>
      (\<forall>(k, s) \<in> set rest. k < n \<and> session_inv s \<and> \<not> is_exit_requested (process s))"
    using 2(1) [OF rest] 2(3,4) by (simp add: comp_def)
  moreover have "\<not> is_exit_requested (process s)" using created_process [OF s] by (simp add: is_exit_requested_def signals_at_start_def)
  ultimately show ?case
    using create_session_inv [OF _ draws s] 2(3,4) by (simp add: ms comp_def)
qed simp

lemma start_inv:
  assumes "create_sessions env n 0 confs = Inr sessions" and "0 < n"
    and "\<forall>c \<in> set confs. valid_configuration c" and "environment_ok env confs"
  shows "app_inv confs (start_application n sessions)"
  using create_sessions_inv [OF assms(1-3)] assms(4)
  by (auto simp: app_inv_def start_application_def environment_ok_def is_exit_requested_def signals_at_start_def)

section \<open>What the opening of a socket throws\<close>

lemma endpoint_queries_error:
  "endpoint_queries regex_match s = Inl f \<Longrightarrow> f = endpoint_error s"
  by (auto simp: endpoint_queries_def Let_def split: option.splits if_splits)

lemma resolve_throws:
  assumes "resolve regex_match (env_lookup env i) s = Inl t" and "throws_failures env"
  shows "(\<exists>m. t = Standard (Runtime_error m)) \<or>
    (\<exists>e. t = System_failure e \<and> is_failure e \<and> e \<noteq> Operation_aborted)"
proof -
  have "\<exists>m. f = Runtime_error m" if "endpoint_queries regex_match s = Inl f" for f
    using endpoint_queries_error [OF that] by (simp add: endpoint_error_def)
  then show ?thesis
    using assms by (fastforce simp: resolve_def and_then_Inl_iff throws_failures_def)
qed

lemma perform_calls_throws:
  "perform_calls (env_socket_call env i) calls = Inl e \<Longrightarrow> throws_failures env \<Longrightarrow>
   is_failure e \<and> e \<noteq> Operation_aborted"
  unfolding perform_calls_first throws_failures_def by blast

lemma open_throws:
  assumes "open_session_socket env i c = Inl t" and "throws_failures env"
  shows "(\<exists>m. t = Standard (Runtime_error m)) \<or>
    (\<exists>e. t = System_failure e \<and> is_failure e \<and> e \<noteq> Operation_aborted)"
proof -
  let ?resolved = "resolve (env_regex_match env) (env_lookup env i) (endpoint c)"
  consider "?resolved = Inl t" | "t = Standard (Runtime_error ''Udp supports client mode only'')"
    | calls e where "perform_calls (env_socket_call env i) calls = Inl e" "t = System_failure e"
    using assms(1)
    by (cases "mode c"; cases ?resolved)
      (auto simp: open_session_socket_def open_socket_def tcp_open_def make_UdpSocket_def and_then_Inl_iff
        split: if_splits)
  then show ?thesis
  proof cases
    case 1
    then show ?thesis by (rule resolve_throws [OF _ assms(2)])
  next
    case (3 calls e)
    then show ?thesis using perform_calls_throws [OF _ assms(2)] by blast
  qed simp
qed

lemma create_sessions_throws:
  assumes "create_sessions env n i confs = Inl t" and "throws_failures env"
  shows "(\<exists>f. t = Standard f) \<or> (\<exists>e. t = System_failure e \<and> is_failure e \<and> e \<noteq> Operation_aborted)"
  using assms
proof (induction env n i confs rule: create_sessions.induct)
  case (2 env n i conf confs)
  then consider f where "t = Standard f" | "open_session_socket env i conf = Inl t"
    | s where "create_open_session env i conf = Inr s" "create_sessions env n (Suc i) confs = Inl t"
    by (auto simp: create_open_session_def and_then_Inl_iff)
  then show ?case
  proof cases
    case 2
    then show ?thesis using open_throws \<open>throws_failures env\<close> by blast
  next
    case 3
    then show ?thesis using 2 by blast
  qed simp
qed simp

lemma create_sessions_first_failure:
  "create_open_session env (i + length before) c = Inl t \<Longrightarrow>
   \<forall>j < length before. \<exists>s. create_open_session env (i + j) (before ! j) = Inr s \<Longrightarrow>
   create_sessions env n i (before @ c # after) = Inl t"
proof (induction before arbitrary: i)
  case (Cons b before)
  obtain s where "create_open_session env i b = Inr s" using Cons(3) by force
  moreover have "create_sessions env n (Suc i) (before @ c # after) = Inl t"
    using Cons(2,3) by (intro Cons(1)) force+
  ultimately show ?case by simp
qed simp

section \<open>The failures of a run\<close>

lemma first_failure_eq:
  "first_failure ss = (case filter is_failure (map finalize ss) of [] \<Rightarrow> No_error | e # _ \<Rightarrow> e)"
proof -
  let ?step = "\<lambda>s first. let failure = finalize s in
        if is_failure failure \<and> \<not> is_failure first then failure else first"
  have "fold ?step ss first = (if is_failure first then first else
      case filter is_failure (map finalize ss) of [] \<Rightarrow> first | e # _ \<Rightarrow> e)" for first
    by (induction ss arbitrary: first) (auto simp: Let_def)
  then show ?thesis by (simp add: first_failure_def split: list.split)
qed

lemma first_failure_cases:
  "is_failure (first_failure ss) \<Longrightarrow> first_failure ss \<in> finalize ` set ss"
  "\<not> is_failure (first_failure ss) \<longleftrightarrow> (\<forall>s \<in> set ss. \<not> is_failure (finalize s))"
proof -
  have head: "is_failure e \<and> e \<in> finalize ` set ss" if "filter is_failure (map finalize ss) = e # es" for e es
  proof -
    have "e \<in> set (filter is_failure (map finalize ss))" by (simp add: that)
    then show ?thesis by auto
  qed
  show "is_failure (first_failure ss) \<Longrightarrow> first_failure ss \<in> finalize ` set ss"
  proof (cases "filter is_failure (map finalize ss)")
    case (Cons e es)
    with head show ?thesis by (simp add: first_failure_eq)
  qed (simp add: first_failure_eq)
  show "\<not> is_failure (first_failure ss) \<longleftrightarrow> (\<forall>s \<in> set ss. \<not> is_failure (finalize s))"
  proof (cases "filter is_failure (map finalize ss)")
    case Nil
    then show ?thesis by (simp add: first_failure_eq filter_empty_conv)
  next
    case (Cons e es)
    with head show ?thesis by (auto simp: first_failure_eq)
  qed
qed

lemma collect_Inr: "collect ss = Inr () \<longleftrightarrow> (\<forall>s \<in> set ss. \<not> is_failure (finalize s))"
  by (simp add: collect_def Let_def flip: first_failure_cases(2))

lemma error_number_zero: "error_number e = 0 \<longleftrightarrow> e = success"
  by (cases e) simp_all

lemma code_value_failure:
  "is_failure e \<Longrightarrow> e \<noteq> Operation_aborted \<Longrightarrow> eof_number \<noteq> 0 \<Longrightarrow> code_value aborted_number eof_number e \<noteq> 0"
  by (cases e) (simp_all add: error_number_zero)

text \<open>Every thread has ended and nobody asked for exit: no work is left in any session.\<close>

lemma joined_pending:
  assumes "app_inv confs app" and "joined app" and "\<not> is_exit_requested (exit_state app)"
    and "(k, s) \<in> set (members app)"
  shows "pending s = []"
  using assms by (fastforce simp: app_inv_def joined_def thread_ended_def list_all_iff)

lemma failed_member_asks:
  assumes "app_inv confs app" and "(k, s) \<in> set (members app)" and "is_failure (finalize s)"
  shows "is_exit_requested (exit_state app)"
proof -
  have "session_inv s" "is_exit_requested (process s) \<Longrightarrow> is_exit_requested (exit_state app)"
    using assms(1,2) by (auto simp: app_inv_def)
  moreover have "failure_ok s" using calculation(1) by (simp add: session_inv_def base_ok_def)
  ultimately show ?thesis using assms(3) by (simp add: failure_ok_def finalize_def is_exit_requested_def)
qed

end
