(* ===== verification/Application_Claims.thy ===== *)
theory Application_Claims
  imports Application
begin

text \<open>The properties of the application and of its command line.\<close>

section \<open>A sample application\<close>

text \<open>One session on one unpinned thread; what follows brings its own steps to the application.\<close>

definition sample_environment :: "query environment" where
  "sample_environment =
     \<lparr>env_draws = \<lambda>_ _. 8, env_ticks_per_second = 1000000, env_universal = \<lambda>_. 0, env_steady = \<lambda>_. 0,
      env_set_affinity = \<lambda>set. if set \<inter> {..<8} = {} then 22 else 0,
      env_regex_match = backtrack_match, env_lookup = \<lambda>_. Inr, env_socket_call = \<lambda>_ _. None\<rparr>"

lemma sample_endpoint:
  "resolve backtrack_match Inr ''localhost:1234'' = Inr (Service ''0'', Host_service ''localhost'' ''1234'')"
  unfolding resolve_def backtracking.endpoint_queries_eq by (simp add: endpoint_of_parts_def)

lemma sample_calls:
  "tcp_open backtrack_match Inr sample_configuration =
     Inr [Open_for (Service ''0''), Set_reuse_address, Bind (Service ''0''),
          Async_connect (Host_service ''localhost'' ''1234'')]"
  by (simp add: tcp_open_def sample_configuration_def sample_endpoint tcp_connect_def setup_windows_def)

lemma sample_created_open:
  assumes "create_session (\<lambda>_. 8) 1000000 0 0 sample_configuration = Inr s"
  shows "create_open_session sample_environment i sample_configuration = Inr s"
  using assms sample_calls
  by (simp add: create_open_session_def open_session_socket_def open_socket_def sample_environment_def
      sample_configuration_def)

definition solo :: "Session \<Rightarrow> application" where
  "solo s = start_application 1 [(0, s)]"

lemma own_perform: "perform a s = Some s' \<Longrightarrow> a \<noteq> Ask_exit \<Longrightarrow> own_step s s'"
  by (cases a) (auto split: if_splits intro: own_step.intros)

lemma performs_own_exit:
  "performs as s = Some s' \<Longrightarrow> Ask_exit \<notin> set as \<Longrightarrow> session_inv s \<Longrightarrow> own_exit s s'"
proof (induction as s rule: performs.induct)
  case (2 a as s)
  then obtain t where t: "perform a s = Some t" "performs as t = Some s'" by (auto split: option.splits)
  then have "keeps s t" using 2(3,4) own_step_inv own_perform by force
  then show ?case using 2(1) [OF t(1,2)] 2(3) by (auto simp: keeps_def own_exit_def)
qed (simp add: own_exit_def)

lemma solo_step:
  assumes "own_step s t" and "\<not> is_exit_requested (process t)"
  shows "app_step (solo s) (solo t)"
proof -
  have "app_step (solo s) (after_member 0 t (solo s))"
    using assms(1) by (intro app_step.member) (simp_all add: solo_def start_application_def signals_at_start_def)
  also have "after_member 0 t (solo s) = solo t"
    using assms(2) by (simp add: after_member_def solo_def start_application_def see_exit_def)
  finally show ?thesis .
qed

lemma solo_steps:
  "performs as s = Some s' \<Longrightarrow> Ask_exit \<notin> set as \<Longrightarrow> session_inv s \<Longrightarrow>
   \<not> is_exit_requested (process s) \<Longrightarrow> \<not> is_failure (finalize s') \<Longrightarrow> app_step\<^sup>*\<^sup>* (solo s) (solo s')"
proof (induction as s rule: performs.induct)
  case (2 a as s)
  then obtain t where t: "perform a s = Some t" "performs as t = Some s'" by (auto split: option.splits)
  have own: "own_step s t" using own_perform t(1) 2(3) by auto
  then have keeps: "keeps s t" using own_step_inv 2(4) by blast
  then have inv: "session_inv t" by (simp add: keeps_def)
  have "\<not> is_failure (finalize t)"
    using performs_own_exit [OF t(2) _ inv] 2(3,6) by (auto simp: own_exit_def finalize_def)
  then have quiet: "\<not> is_exit_requested (process t)"
    using keeps 2(5) by (auto simp: keeps_def own_exit_def is_exit_requested_def finalize_def)
  have "app_step\<^sup>*\<^sup>* (solo t) (solo s')" using 2(1) [OF t(1,2)] inv quiet 2(3,6) by simp
  then show ?case using solo_step [OF own quiet] by (simp add: converse_rtranclp_into_rtranclp)
qed simp

lemma sample_application:
  "\<exists>s0 s. create_sessions sample_environment 1 0 [sample_configuration] = Inr [(0, s0)] \<and>
     app_step\<^sup>*\<^sup>* (solo s0) (solo s) \<and> pending s = [] \<and> finalize s = No_error \<and> joined (solo s) \<and>
     received_stream (socket s) = [0, 1, 2]"
proof -
  obtain s0 s where s0: "create_session (\<lambda>_. 8) 1000000 0 0 sample_configuration = Inr s0"
    and s: "performs (sample_start @ sample_transfer [0, 1, 2] @ sample_end) s0 = Some s"
      "pending s = []" "finalize s = No_error" "received_stream (socket s) = [0, 1, 2]"
    using sample_complete_run by blast
  have own: "Ask_exit \<notin> set (sample_start @ sample_transfer [0, 1, 2] @ sample_end)"
    by (simp add: sample_start_def sample_transfer_def sample_end_def)
  have inv: "session_inv s0" by (rule create_session_inv [OF sample_valid sample_draws s0])
  have "\<not> is_exit_requested (process s0)"
    using created_process [OF s0] by (simp add: is_exit_requested_def signals_at_start_def)
  then have "app_step\<^sup>*\<^sup>* (solo s0) (solo s)" using s(3) by (intro solo_steps [OF s(1) own inv]) simp_all
  moreover have "create_sessions sample_environment 1 0 [sample_configuration] = Inr [(0, s0)]"
    using sample_created_open [OF s0] by simp
  moreover have "joined (solo s)"
    using s(2) by (simp add: joined_def solo_def start_application_def signals_at_start_def thread_ended_def)
  ultimately show ?thesis using s by blast
qed

lemma sample_environment_ok: "environment_ok sample_environment [sample_configuration]"
  using sample_draws by (simp add: environment_ok_def sample_environment_def throws_failures_def)

section \<open>Runs\<close>

text \<open>C8.
  A run that returns without an exception has done its work: in every interleaving of the
  threads, when all of them have ended, no session reports a failure and the process's own
  signal handler has not run, every session has no work left and has transferred and
  verified all that its configuration asks for.
\<close>

theorem successful_run_transfers_everything:
  assumes "\<forall>c \<in> set confs. valid_configuration c" and "environment_ok env confs" and "0 < n"
    and "create_sessions env n 0 confs = Inr sessions"
    and "app_step\<^sup>*\<^sup>* (start_application n sessions) app" and "joined app" and "\<not> signalled app"
    and "collect (map snd (members app)) = Inr ()"
  shows "map (configuration \<circ> snd) (members app) = confs \<and>
    (\<forall>(k, s) \<in> set (members app). pending s = [] \<and> transferred s)"
proof -
  have inv: "app_inv confs app"
    using app_steps_inv [OF assms(5)] start_inv [OF assms(4,3,1,2)] .
  have ok: "\<not> is_failure (finalize s)" if "(k, s) \<in> set (members app)" for k s
    using assms(8) that by (force simp: collect_Inr)
  then have "\<not> is_exit_requested (exit_state app)"
    using inv assms(7) by (auto simp: app_inv_def)
  then have "pending s = [] \<and> transferred s" if "(k, s) \<in> set (members app)" for k s
    using joined_pending [OF inv assms(6) _ that] ok [OF that] inv that finished_transferred [of s]
    by (auto simp: app_inv_def finalize_def)
  then show ?thesis using inv by (auto simp: app_inv_def)
qed

theorem successful_run_transfers_everything_witness:
  "\<exists>s. received_stream (socket s) = [0, 1, 2] \<and> transferred s \<and> pending s = []"
proof -
  obtain s0 s where *: "create_sessions sample_environment 1 0 [sample_configuration] = Inr [(0, s0)]"
    "app_step\<^sup>*\<^sup>* (solo s0) (solo s)" "finalize s = No_error" "joined (solo s)"
    "received_stream (socket s) = [0, 1, 2]"
    using sample_application by blast
  moreover have "members (solo s) = [(0, s)]" "\<not> signalled (solo s)"
    by (simp_all add: solo_def start_application_def)
  ultimately show ?thesis
    using successful_run_transfers_everything [OF _ sample_environment_ok _ *(1), of "solo s"] sample_valid
    by (auto simp: collect_Inr solo_def)
qed

text \<open>C9.
  One failure ends the whole run: from the moment in which any session has failed, the run
  loops of all threads end, whatever work is left in the other sessions, and the run ends
  in an exception that carries the failure of the first failed session in the order of the
  configuration.
\<close>

theorem one_failure_ends_the_run:
  assumes "\<forall>c \<in> set confs. valid_configuration c" and "environment_ok env confs" and "0 < n"
    and "create_sessions env n 0 confs = Inr sessions"
    and "app_step\<^sup>*\<^sup>* (start_application n sessions) app" and "\<not> aborted (exit_state app)"
    and "(k, s) \<in> set (members app)" and "is_failure (finalize s)"
  shows "joined app \<and> (\<exists>before after e.
    map (finalize \<circ> snd) (members app) = before @ e # after \<and> is_failure e \<and>
    list_all (\<lambda>f. \<not> is_failure f) before \<and>
    collect (map snd (members app)) = Inl (System_failure e))"
proof
  have inv: "app_inv confs app"
    using app_steps_inv [OF assms(5)] start_inv [OF assms(4,3,1,2)] .
  show "joined app"
    using failed_member_asks [OF inv assms(7,8)] assms(6)
    by (simp add: joined_def thread_ended_def list_all_iff)
  let ?fs = "map finalize (map snd (members app))"
  have "\<exists>f \<in> set ?fs. is_failure f" using assms(7,8) by force
  from split_list_first_prop [OF this] obtain before e after
    where e: "?fs = before @ e # after" "is_failure e" "\<forall>f \<in> set before. \<not> is_failure f"
    by blast
  then have "filter is_failure ?fs = e # filter is_failure after"
    by (simp add: filter_empty_conv)
  then have "first_failure (map snd (members app)) = e" by (simp add: first_failure_eq)
  then have "collect (map snd (members app)) = Inl (System_failure e)" using e(2) by (simp add: collect_def)
  then show "\<exists>before after e. map (finalize \<circ> snd) (members app) = before @ e # after \<and> is_failure e \<and>
      list_all (\<lambda>f. \<not> is_failure f) before \<and> collect (map snd (members app)) = Inl (System_failure e)"
    using e by (auto simp: list_all_iff)
qed

theorem one_failure_ends_the_run_witness:
  "\<exists>app. joined app \<and> collect (map snd (members app)) = Inl (System_failure (Tester_error user_interrupt))"
proof -
  have "\<exists>s0 s1 s2. create_session (\<lambda>_. 8) 1000000 0 0 sample_configuration = Inr s0 \<and>
      perform (End 0) s0 = Some s1 \<and> \<not> is_exit_requested (process s1) \<and>
      perform (Run 0 (Signalled No_error 2)) s1 = Some s2 \<and> finalize s2 = Tester_error user_interrupt"
    by (simp add: sample_configuration_def run_simps finalize_def is_exit_requested_def)
  then obtain s0 s1 s2 where s0: "create_session (\<lambda>_. 8) 1000000 0 0 sample_configuration = Inr s0"
    and s1: "perform (End 0) s0 = Some s1" "\<not> is_exit_requested (process s1)"
    and s2: "perform (Run 0 (Signalled No_error 2)) s1 = Some s2" "finalize s2 = Tester_error user_interrupt"
    by blast
  let ?app = "after_member 0 s2 (solo s1)"
  have "app_step (solo s0) (solo s1)" using own_perform [OF s1(1)] s1(2) by (simp add: solo_step)
  moreover have "app_step (solo s1) ?app"
    using own_perform [OF s2(1)]
    by (intro app_step.member) (simp_all add: solo_def start_application_def signals_at_start_def)
  ultimately have "app_step\<^sup>*\<^sup>* (solo s0) ?app" by simp
  moreover have "create_sessions sample_environment 1 0 [sample_configuration] = Inr [(0, s0)]"
    using sample_created_open [OF s0] by simp
  moreover have "members ?app = [(0, see_exit (is_exit_requested (process s2)) s2)]" "\<not> aborted (exit_state ?app)"
    by (simp_all add: after_member_def Let_def solo_def start_application_def signals_at_start_def request_exit_def)
  ultimately show ?thesis
    using one_failure_ends_the_run [OF _ sample_environment_ok _, of 1 "[(0, s0)]" ?app 0
        "see_exit (is_exit_requested (process s2)) s2"] sample_valid s2(2)
    by (auto simp: solo_def Cons_eq_append_conv)
qed

text \<open>C29.
  The exit status is right: \<open>main\<close> returns 0 exactly when the run threw nothing, whatever
  the command line was, so that no failure of a session is lost on the way to the shell.
  (The number of Asio's end-of-file code is an argument; it is documented not to be 0.)
\<close>

theorem exit_status_zero_iff_success:
  assumes "\<And>conf. parsed = Inr conf \<Longrightarrow>
      (\<forall>c \<in> set (session_configurations conf). valid_configuration c) \<and>
      environment_ok env (session_configurations conf)"
    and "eof_number \<noteq> 0" and "program_runs env parsed outcome"
  shows "main_status aborted_number eof_number outcome = Some 0 \<longleftrightarrow> outcome = Inr ()"
proof (cases outcome)
  case (Inl t)
  show ?thesis
  proof (cases t)
    case (Standard f)
    with Inl show ?thesis by (cases f) (simp_all add: main_status_def)
  next
    case Terminated
    with Inl show ?thesis by (simp add: main_status_def)
  next
    case (System_failure e)
    with Inl assms(3) obtain conf where conf: "parsed = Inr conf" "runs env conf outcome"
      by (auto simp: program_runs_def split: sum.splits)
    from conf(2) have "is_failure e \<and> e \<noteq> Operation_aborted"
    proof cases
      case (finished n sessions app)
      let ?ss = "map snd (members app)"
      have "app_inv (session_configurations conf) app"
        using app_steps_inv [OF finished(5)] start_inv [OF finished(3)] assms(1) [OF conf(1)]
          get_concurrency_pos finished(2) by simp
      then have ok: "Operation_aborted \<notin> finalize ` set ?ss"
        by (auto simp: app_inv_def session_inv_def base_ok_def failure_ok_def finalize_def)
      have "is_failure (first_failure ?ss)" "e = first_failure ?ss"
        using finished(1) Inl System_failure by (simp_all add: collect_def Let_def split: if_splits)
      then show ?thesis using first_failure_cases(1) [of ?ss] ok by metis
    next
      case (not_created t)
      then show ?thesis
        using create_sessions_throws assms(1) [OF conf(1)] Inl System_failure
        by (fastforce simp: environment_ok_def)
    qed (use Inl System_failure in simp)
    then show ?thesis
      using code_value_failure [OF _ _ assms(2)] Inl System_failure by (simp add: main_status_def)
  qed
qed (simp add: main_status_def)

theorem exit_status_zero_iff_success_witness:
  "\<exists>outcome. program_runs sample_environment
     (Inr \<lparr>cpus = \<lparr>ranges = []\<rparr>, session_configurations = [sample_configuration]\<rparr>) outcome \<and>
   main_status 125 2 outcome = Some 0"
proof -
  let ?conf = "\<lparr>cpus = \<lparr>ranges = []\<rparr>, session_configurations = [sample_configuration]\<rparr>"
  obtain s0 s where s: "create_sessions sample_environment 1 0 [sample_configuration] = Inr [(0, s0)]"
    "app_step\<^sup>*\<^sup>* (solo s0) (solo s)" "finalize s = No_error" "joined (solo s)"
    using sample_application by blast
  have cores: "get_concurrency (to_cpu_core_list \<lparr>ranges = []\<rparr>) = 1"
    by (simp add: get_concurrency_def to_cpu_core_list_def ranges_sequence_def)
  have members: "members (solo s) = [(0, s)]" by (simp add: solo_def start_application_def)
  have "runs sample_environment ?conf (collect (map snd (members (solo s))))"
    using s cores
    by (intro runs.finished [of 1 _ _ "[(0, s0)]"])
      (simp_all add: solo_def threads_start_iff to_cpu_core_list_def ranges_sequence_def)
  moreover have "collect (map snd (members (solo s))) = Inr ()"
    using s(3) by (simp add: collect_Inr members)
  ultimately have run: "program_runs sample_environment (Inr ?conf) (Inr ())" by (simp add: program_runs_def)
  have "main_status 125 2 (Inr ()) = Some 0 \<longleftrightarrow> (Inr () :: thrown + unit) = Inr ()"
    by (rule exit_status_zero_iff_success [OF _ _ run]) (auto simp: sample_valid sample_environment_ok)
  with run show ?thesis by auto
qed

text \<open>C30.
  A socket that cannot be opened ends the run before any thread has started: when the
  endpoint is malformed, a name is unknown or a call fails (an address in use, say) for one
  session, and the sessions before it were created, every run ends with just that exception, and
  \<open>main\<close> returns a status that is not 0.
\<close>

theorem unopened_socket_ends_the_run:
  assumes "session_configurations conf = before @ c # after"
    and "throws_failures env" and "eof_number \<noteq> 0"
    and "\<forall>j < length before. \<exists>s. create_open_session env j (before ! j) = Inr s"
    and "create_session (env_draws env (length before)) (env_ticks_per_second env)
      (env_universal env (length before)) (env_steady env (length before)) c = Inr s"
    and "open_session_socket env (length before) c = Inl t"
  shows "(runs env conf outcome \<longleftrightarrow> outcome = Inl t) \<and>
    (\<exists>n. main_status aborted_number eof_number (Inl t) = Some n \<and> n \<noteq> 0)"
proof
  let ?n = "get_concurrency (to_cpu_core_list (cpus conf))"
  have "create_open_session env (length before) c = Inl t"
    using assms(5,6) by (simp add: create_open_session_def)
  then have "create_sessions env ?n 0 (session_configurations conf) = Inl t"
    using create_sessions_first_failure [of env 0 before c t ?n after] assms(1,4) by simp
  then show "runs env conf outcome \<longleftrightarrow> outcome = Inl t"
    by (auto elim: runs.cases intro: runs.not_created)
  from open_throws [OF assms(6,2)] show "\<exists>n. main_status aborted_number eof_number (Inl t) = Some n \<and> n \<noteq> 0"
    using code_value_failure [OF _ _ assms(3)] by (auto simp: main_status_def)
qed

definition busy_environment :: "query environment" where
  "busy_environment = sample_environment\<lparr>env_socket_call :=
     \<lambda>i call. if i = 1 \<and> call = Bind (Service ''0'') then Some (System_error 98) else None\<rparr>"

theorem unopened_socket_ends_the_run_witness:
  "runs busy_environment \<lparr>cpus = \<lparr>ranges = []\<rparr>,
       session_configurations = [sample_configuration, sample_configuration]\<rparr>
     (Inl (System_failure (System_error 98))) \<and>
   main_status 125 2 (Inl (System_failure (System_error 98))) = Some 98"
proof -
  let ?conf = "\<lparr>cpus = \<lparr>ranges = []\<rparr>, session_configurations = [sample_configuration, sample_configuration]\<rparr>"
  obtain s where s: "create_session (\<lambda>_. 8) 1000000 0 0 sample_configuration = Inr s"
    using sample_created by blast
  have tcp: "protocol sample_configuration = TCP" by (simp add: sample_configuration_def)
  have "open_session_socket busy_environment 0 sample_configuration = Inr ()"
    and busy: "open_session_socket busy_environment 1 sample_configuration = Inl (System_failure (System_error 98))"
    using sample_calls tcp
    by (simp_all add: open_session_socket_def open_socket_def busy_environment_def sample_environment_def)
  then have first: "create_open_session busy_environment 0 sample_configuration = Inr s"
    using s by (simp add: create_open_session_def busy_environment_def sample_environment_def)
  have env: "throws_failures busy_environment"
    by (simp add: throws_failures_def busy_environment_def sample_environment_def)
  have second: "create_session (env_draws busy_environment (length [sample_configuration]))
      (env_ticks_per_second busy_environment) (env_universal busy_environment (length [sample_configuration]))
      (env_steady busy_environment (length [sample_configuration])) sample_configuration = Inr s"
    using s by (simp add: busy_environment_def sample_environment_def)
  have "runs busy_environment ?conf (Inl (System_failure (System_error 98)))"
    using unopened_socket_ends_the_run [of ?conf "[sample_configuration]" sample_configuration "[]"
        busy_environment 2 s "System_failure (System_error 98)"] first second busy env by auto
  then show ?thesis by (simp add: main_status_def)
qed

section \<open>The partition\<close>

text \<open>C31.
  The sessions are spread evenly: each service gets the number of sessions divided by the
  number of services, rounded down or up. Each service is run by exactly one thread, and
  when cores are configured each thread is pinned to its own entry of the core list.
\<close>

theorem partition_is_balanced:
  assumes "create_sessions env n 0 confs = Inr sessions" and "n = get_concurrency core_ids" and "k < n"
  shows "length (filter (\<lambda>m. fst m = k) sessions) \<in> {length confs div n, Suc (length confs div n)} \<and>
    map fst (create_threads core_ids n) = [0..<n] \<and>
    (core_ids \<noteq> [] \<longrightarrow> map snd (create_threads core_ids n) = map Some core_ids)"
proof (intro conjI impI)
  have "length (filter (\<lambda>m. fst m = k) sessions) = length (filter (\<lambda>j. j = k) (map fst sessions))"
    by (simp add: filter_map comp_def)
  also have "\<dots> = length (filter (\<lambda>j. j mod n = k) [0..<length confs])"
    using create_sessions_services [OF assms(1)] by (simp add: filter_map comp_def)
  also have "\<dots> = (length confs + (n - 1 - k)) div n"
    using remainders [of n k "length confs"] assms(3) by simp
  finally have count: "length (filter (\<lambda>m. fst m = k) sessions) = (length confs + (n - 1 - k)) div n" .
  have "length confs div n \<le> (length confs + (n - 1 - k)) div n" by (simp add: div_le_mono)
  moreover have "(length confs + (n - 1 - k)) div n \<le> (length confs + n) div n"
    by (intro div_le_mono) simp
  moreover have "(length confs + n) div n = Suc (length confs div n)"
    using div_add_self2 [of n "length confs"] assms(3) by simp
  ultimately show "length (filter (\<lambda>m. fst m = k) sessions) \<in> {length confs div n, Suc (length confs div n)}"
    unfolding count by (simp add: le_Suc_eq)
  show "map fst (create_threads core_ids n) = [0..<n]" by (simp add: create_threads_def comp_def)
  show "map snd (create_threads core_ids n) = map Some core_ids" if "core_ids \<noteq> []"
    using that assms(2) by (auto simp: create_threads_def get_concurrency_def intro!: nth_equalityI)
qed

theorem partition_is_balanced_witness:
  "\<exists>ss. create_sessions sample_environment 2 0 (replicate 3 sample_configuration) = Inr ss \<and>
     length (filter (\<lambda>m. fst m = 0) ss) \<in> {1, 2} \<and> map snd (create_threads [4, 7] 2) = [Some 4, Some 7]"
proof -
  obtain s where "create_session (\<lambda>_. 8) 1000000 0 0 sample_configuration = Inr s"
    using sample_created by blast
  then have ss: "create_sessions sample_environment 2 0 (replicate 3 sample_configuration) =
      Inr [(0, s), (1, s), (0, s)]"
    by (simp add: sample_created_open numeral_3_eq_3)
  show ?thesis
    using partition_is_balanced [OF ss, of "[4, 7]" 0] ss by (simp add: get_concurrency_def)
qed

section \<open>The command line\<close>

definition sample_words :: "string list" where
  "sample_words = [''enyx-net-bench'', ''--connect'', ''localhost:1234'', ''--size'', ''3B'']"

definition sample_session_options :: session_options where
  "sample_session_options =
     default_options\<lparr>opt_connect := Some ''localhost:1234'',
       opt_size := Some \<lparr>size_value = 3, unit_system = IEC\<rparr>\<rparr>"

lemma sample_size:
  "read_value (extract_Size backtrack_match) ''3B'' = Inr \<lparr>size_value = 3, unit_system = IEC\<rparr>"
proof -
  have "map_of unit_table ''B'' = Some (IEC, 0, False)" by code_simp
  moreover have "show_nat 3 = ''3''" by code_simp
  ultimately have "size_of_text ''3B'' = Inr \<lparr>size_value = 3, unit_system = IEC\<rparr>"
    using size_of_text_numeral [of "''B''" IEC 0 False 3] by (simp add: size_number_def)
  then show ?thesis
    by (simp add: read_value_def extract_Size_def sentry_word extract_string_word is_space_def
        backtracking.parse_size_is_reference)
qed

lemma sample_words_read:
  "sample_reader file_all default_options sample_words = Inr sample_session_options"
  by (simp add: sample_reader_def read_option_def sample_size sample_words_def sample_session_options_def)

lemma sample_words_filled:
  "fill_configuration sample_reader c sample_words = Inr (described sample_session_options)"
  by (simp add: sample_options.fill_configuration_Inr sample_words_read)
    (simp add: sample_session_options_def rejection_def default_options_def)

lemma sample_line_words:
  "stream_words (istringstream ''--connect localhost:1234 --size 3B'') = tl sample_words"
  by code_simp

text \<open>C32.
  What the command line checks, and what it leaves open. Options that have been read are
  accepted if and only if exactly one of the two addresses and a positive size are given, the
  sampling frequency is not 0, and the shutdown policy fits the direction; nothing else is
  checked. The configuration then holds the values as they were read. It satisfies all that
  the sessions rely on exactly when in addition both bandwidths are positive, the size is not
  within a buffer of 2^64, and the datagram sizes of a UDP session are positive, in order and
  fit the buffer.
\<close>

theorem accepted_configurations:
  assumes "options_library read_options" and "read_options file_all default_options argv = Inr v"
  shows "((\<exists>c'. fill_configuration read_options c argv = Inr c') \<longleftrightarrow>
      (opt_connect v = None \<longleftrightarrow> opt_listen v \<noteq> None) \<and>
      (\<exists>z. opt_size v = Some z \<and> size_value z \<noteq> 0) \<and> opt_frequency v \<noteq> Some 0 \<and>
      \<not> (opt_direction v = Some TX \<and> opt_shutdown_policy v = Some RECEIVE_COMPLETE) \<and>
      \<not> (opt_direction v = Some RX \<and> opt_shutdown_policy v = Some SEND_COMPLETE)) \<and>
    (\<forall>c'. fill_configuration read_options c argv = Inr c' \<longrightarrow>
      c' = described v \<and> size_value (total_size c') \<noteq> 0 \<and> bandwidth_sampling_frequency c' \<noteq> 0 \<and>
      \<not> (direction c' = TX \<and> shutdown_policy c' = RECEIVE_COMPLETE) \<and>
      \<not> (direction c' = RX \<and> shutdown_policy c' = SEND_COMPLETE) \<and>
      (valid_configuration c' \<longleftrightarrow>
         unat (size_value (total_size c')) + 131072 \<le> 2 ^ 64 \<and>
         size_value (send_bandwidth c') \<noteq> 0 \<and> size_value (receive_bandwidth c') \<noteq> 0 \<and>
         (protocol c' = UDP \<longrightarrow>
            0 < size_value (range_low (packet_size c')) \<and>
            size_value (range_low (packet_size c')) \<le> size_value (range_high (packet_size c')) \<and>
            unat (size_value (range_high (packet_size c'))) \<le> 131072 - 255)))"
proof
  have filled: "fill_configuration read_options c argv = Inr c' \<longleftrightarrow> rejection v = None \<and> c' = described v" for c'
    using options_library.fill_configuration_Inr [OF assms(1)] assms(2) by auto
  show "(\<exists>c'. fill_configuration read_options c argv = Inr c') \<longleftrightarrow>
      (opt_connect v = None \<longleftrightarrow> opt_listen v \<noteq> None) \<and>
      (\<exists>z. opt_size v = Some z \<and> size_value z \<noteq> 0) \<and> opt_frequency v \<noteq> Some 0 \<and>
      \<not> (opt_direction v = Some TX \<and> opt_shutdown_policy v = Some RECEIVE_COMPLETE) \<and>
      \<not> (opt_direction v = Some RX \<and> opt_shutdown_policy v = Some SEND_COMPLETE)"
    by (auto simp: filled rejection_def)
  have "has_defaults v" using options_library.reads_defaults [OF assms] .
  then have "size_value (total_size (described v)) \<noteq> 0 \<and> bandwidth_sampling_frequency (described v) \<noteq> 0 \<and>
      \<not> (direction (described v) = TX \<and> shutdown_policy (described v) = RECEIVE_COMPLETE) \<and>
      \<not> (direction (described v) = RX \<and> shutdown_policy (described v) = SEND_COMPLETE)" if "rejection v = None"
    using that by (auto simp: rejection_def described_def has_defaults_def split: if_splits)
  then show "\<forall>c'. fill_configuration read_options c argv = Inr c' \<longrightarrow>
      c' = described v \<and> size_value (total_size c') \<noteq> 0 \<and> bandwidth_sampling_frequency c' \<noteq> 0 \<and>
      \<not> (direction c' = TX \<and> shutdown_policy c' = RECEIVE_COMPLETE) \<and>
      \<not> (direction c' = RX \<and> shutdown_policy c' = SEND_COMPLETE) \<and>
      (valid_configuration c' \<longleftrightarrow>
         unat (size_value (total_size c')) + 131072 \<le> 2 ^ 64 \<and>
         size_value (send_bandwidth c') \<noteq> 0 \<and> size_value (receive_bandwidth c') \<noteq> 0 \<and>
         (protocol c' = UDP \<longrightarrow>
            0 < size_value (range_low (packet_size c')) \<and>
            size_value (range_low (packet_size c')) \<le> size_value (range_high (packet_size c')) \<and>
            unat (size_value (range_high (packet_size c'))) \<le> 131072 - 255))"
    unfolding filled by (auto simp: valid_configuration_def)
qed

theorem accepted_configurations_witness:
  "\<exists>c. fill_configuration sample_reader zero_configuration sample_words = Inr c \<and> valid_configuration c"
proof -
  note accepted = accepted_configurations [OF sample_options.options_library_axioms sample_words_read]
  then obtain c where filled: "fill_configuration sample_reader zero_configuration sample_words = Inr c"
    by (auto simp: sample_session_options_def default_options_def)
  then have c: "c = described sample_session_options" using accepted by blast
  have "unat (size_value (total_size c)) + 131072 \<le> 2 ^ 64" "size_value (send_bandwidth c) \<noteq> 0"
    "size_value (receive_bandwidth c) \<noteq> 0" "protocol c \<noteq> UDP"
    by (simp_all add: c described_def sample_session_options_def default_options_def DEFAULT_BANDWIDTH_def)
  then have "valid_configuration c" using accepted filled by blast
  with filled show ?thesis by blast
qed

text \<open>
  The last two examples of \<open>README.md\<close> give an address and two bandwidths only: options without
  a size, which are always rejected.
\<close>

lemma size_is_required:
  assumes "options_library read_options"
    and "read_options file_all default_options argv = Inr (default_options\<lparr>opt_connect := Some address,
      opt_tx_bandwidth := Some tx, opt_rx_bandwidth := Some rx\<rparr>)"
  shows "fill_configuration read_options c argv = Inl (Runtime_error ''--size is required'')"
  using check_notify [OF options_library.reads_defaults [OF assms], of c]
  by (simp add: fill_configuration_def assms(2)) (simp add: rejection_def default_options_def)

text \<open>C33.
  The lines of the configuration file do not influence each other, although they all fill
  the same variable, which is moved from after each line: every line yields the
  configuration that it would yield alone, whatever the moved-from string holds.
\<close>

theorem session_lines_are_independent:
  assumes "options_library read_options"
  shows "fill_from_file read_options moved c content =
    map_results (fill_from_line read_options zero_configuration) (getline_tokens (CHR 0x0A) content)"
  unfolding fill_from_file_def by (rule options_library.fill_from_lines_independent [OF assms])

theorem session_lines_are_independent_witness:
  "\<exists>d. fill_from_file sample_reader (\<lambda>_. ''moved'') zero_configuration
       (''--connect localhost:1234 --size 3B'' @ CHR 0x0A # ''--connect localhost:1234 --size 3B'') =
     Inr [d, d]"
proof -
  let ?line = "''--connect localhost:1234 --size 3B''"
  have "getline_tokens (CHR 0x0A) (?line @ CHR 0x0A # ?line) = [?line, ?line]" by code_simp
  moreover have "fill_from_line sample_reader zero_configuration ?line = Inr (described sample_session_options)"
    using sample_words_filled [of zero_configuration]
    by (simp add: fill_from_line_def sample_line_words sample_words_def)
  ultimately show ?thesis
    using session_lines_are_independent [OF sample_options.options_library_axioms] by simp
qed

text \<open>C36.
  The default values fit together: an address and a size are enough, and describe a
  two-way TCP session that satisfies all that the sessions rely on. A session that only
  receives needs an explicit shutdown policy, because the default policy is rejected for it.
\<close>

theorem defaults_fit_two_way_sessions:
  assumes "size_value z \<noteq> 0" and "unat (size_value z) + 131072 \<le> 2 ^ 64"
    and "read_options file_all default_options argv =
      Inr (default_options\<lparr>opt_connect := Some address, opt_size := Some z, opt_direction := Some d\<rparr>)"
  shows "if d = RX
    then fill_configuration read_options c argv =
      Inl (Runtime_error ''RX mode isn't compatible with shutdown policy send_complete'')
    else \<exists>c'. fill_configuration read_options c argv = Inr c' \<and> valid_configuration c' \<and>
      mode c' = CLIENT \<and> protocol c' = TCP \<and> endpoint c' = address \<and> total_size c' = z"
proof -
  let ?v = "default_options\<lparr>opt_connect := Some address, opt_size := Some z, opt_direction := Some d\<rparr>"
  have complete: "has_defaults ?v" by (simp add: has_defaults_def default_options_def)
  have "fill_configuration read_options c argv =
      (case rejection ?v of Some m \<Rightarrow> Inl (Runtime_error m) | None \<Rightarrow> Inr (described ?v))"
    using check_notify [OF complete] assms(3) by (simp add: fill_configuration_def)
  moreover have "rejection ?v =
      (if d = RX then Some ''RX mode isn't compatible with shutdown policy send_complete'' else None)"
    using assms(1) by (simp add: rejection_def default_options_def)
  moreover have "d \<noteq> RX \<Longrightarrow> valid_configuration (described ?v)"
    using assms(1,2)
    by (simp add: valid_configuration_def described_def default_options_def DEFAULT_BANDWIDTH_def
        range_of_value_def size_of_number_def)
  moreover have "mode (described ?v) = CLIENT \<and> protocol (described ?v) = TCP \<and>
      endpoint (described ?v) = address \<and> total_size (described ?v) = z"
    by (simp add: described_def default_options_def)
  ultimately show ?thesis by auto
qed

theorem defaults_fit_two_way_sessions_witness:
  "\<exists>c. fill_configuration sample_reader zero_configuration sample_words = Inr c \<and> protocol c = TCP \<and>
     endpoint c = ''localhost:1234''"
proof -
  have "sample_reader file_all default_options sample_words =
      Inr (default_options\<lparr>opt_connect := Some ''localhost:1234'',
        opt_size := Some \<lparr>size_value = 3, unit_system = IEC\<rparr>, opt_direction := Some BOTH\<rparr>)"
    by (simp add: sample_reader_def read_option_def sample_size sample_words_def default_options_def)
  then show ?thesis
    using defaults_fit_two_way_sessions [where read_options = sample_reader and argv = sample_words and
        address = "''localhost:1234''" and z = "\<lparr>size_value = 3, unit_system = IEC\<rparr>" and d = BOTH and
        c = zero_configuration]
    by auto
qed

text \<open>C37.
  A configuration file that cannot be opened goes unnoticed: it reads as an empty file, the
  program runs no session at all, and its only outcome is success.
\<close>

theorem missing_configuration_file_is_success:
  assumes "read_command cmd_optional default_command argv =
      Inr \<lparr>opt_file = Some file, opt_cpus = cores, opt_help = False\<rparr>"
    and "file \<noteq> ''-''" and "files file = None" and "cores = None"
  shows "program_runs env (parse read_command read_options moved stdin files argv) outcome \<longleftrightarrow> outcome = Inr ()"
proof -
  let ?conf = "\<lparr>cpus = (case cores of None \<Rightarrow> \<lparr>ranges = []\<rparr> | Some r \<Rightarrow> r), session_configurations = []\<rparr>"
  let ?n = "get_concurrency (to_cpu_core_list (cpus ?conf))"
  have parsed: "parse read_command read_options moved stdin files argv = Inr ?conf"
    using assms by (simp add: parse_def fill_from_file_def)
  have none: "members app = []" if "app_step\<^sup>*\<^sup>* (start_application ?n []) app" for app
  proof -
    have "app_inv [] (start_application ?n [])"
      by (simp add: app_inv_def start_application_def is_exit_requested_def signals_at_start_def)
    then show ?thesis using app_steps_inv [OF that] by (auto simp: app_inv_def)
  qed
  have empty: "collect (map snd []) = Inr ()" by (simp add: collect_Inr)
  have start: "threads_start env (to_cpu_core_list (cpus ?conf))"
    using assms(4) by (simp add: threads_start_iff to_cpu_core_list_def ranges_sequence_def)
  have "runs env ?conf outcome \<longleftrightarrow> outcome = Inr ()"
  proof
    assume "runs env ?conf outcome"
    then show "outcome = Inr ()" using none empty start by cases auto
  next
    have "joined (start_application ?n [])"
      by (simp add: joined_def thread_ended_def start_application_def signals_at_start_def list_all_iff)
    moreover have "create_sessions env ?n 0 (session_configurations ?conf) = Inr []" by simp
    ultimately have "runs env ?conf (collect (map snd (members (start_application ?n []))))"
      using runs.finished [OF refl _ start rtranclp.rtrancl_refl] by blast
    then show "runs env ?conf outcome" if "outcome = Inr ()"
      using that empty by (simp add: start_application_def)
  qed
  then show ?thesis by (simp add: program_runs_def parsed)
qed

theorem missing_configuration_file_is_success_witness:
  "{outcome. program_runs sample_environment
     (parse (\<lambda>_ d argv. Inr (d\<lparr>opt_file := Some (hd argv)\<rparr>)) sample_reader id '''' (\<lambda>_. None) [''absent''])
     outcome} = {Inr ()}"
  using missing_configuration_file_is_success [of "\<lambda>_ d argv. Inr (d\<lparr>opt_file := Some (hd argv)\<rparr>)"
      "[''absent'']" "''absent''" None "\<lambda>_. None", where env = sample_environment]
  by (simp add: default_command_def)

text \<open>C40.
  A core that a thread cannot be pinned to ends the process: the exception leaves the
  thread's function, and no failure is reported and no exit status returned. When the
  sessions can be created, this happens exactly when a configured core is not among the
  system's cores.
\<close>

theorem unpinnable_core_terminates:
  assumes "affinity_contract cores (env_set_affinity env)" and "cores \<le> 1024"
    and "create_sessions env (get_concurrency (to_cpu_core_list (cpus conf))) 0 (session_configurations conf) = Inr sessions"
  shows "(runs env conf (Inl Terminated) \<longleftrightarrow> (\<exists>id \<in> set (to_cpu_core_list (cpus conf)). cores \<le> unat id)) \<and>
    (runs env conf (Inl Terminated) \<longrightarrow>
       (\<forall>outcome. runs env conf outcome \<longrightarrow> main_status aborted_number eof_number outcome = None))"
proof -
  have starts: "threads_start env (to_cpu_core_list (cpus conf)) \<longleftrightarrow>
      (\<forall>id \<in> set (to_cpu_core_list (cpus conf)). unat id < cores)"
    using pin_unix_contract [OF assms(1)] assms(2) by (auto simp: threads_start_iff)
  have ends: "runs env conf (Inl Terminated) \<longleftrightarrow> \<not> threads_start env (to_cpu_core_list (cpus conf))"
  proof
    show "runs env conf (Inl Terminated) \<Longrightarrow> \<not> threads_start env (to_cpu_core_list (cpus conf))"
      using assms(3) by (elim runs.cases) (auto simp: collect_def Let_def split: if_splits)
  qed (rule runs.terminated [OF assms(3)])
  have only: "outcome = Inl Terminated"
    if "\<not> threads_start env (to_cpu_core_list (cpus conf))" "runs env conf outcome" for outcome
    using that(2) that(1) assms(3) by cases auto
  have none: "main_status aborted_number eof_number (Inl Terminated) = None" by (simp add: main_status_def)
  show ?thesis
  proof
    show "runs env conf (Inl Terminated) \<longleftrightarrow> (\<exists>id \<in> set (to_cpu_core_list (cpus conf)). cores \<le> unat id)"
      unfolding ends starts by (auto simp: not_less)
    show "runs env conf (Inl Terminated) \<longrightarrow>
        (\<forall>outcome. runs env conf outcome \<longrightarrow> main_status aborted_number eof_number outcome = None)"
      using only none unfolding ends by blast
  qed
qed

theorem unpinnable_core_terminates_witness:
  "runs sample_environment \<lparr>cpus = \<lparr>ranges = [range_of_value 9]\<rparr>, session_configurations = []\<rparr> (Inl Terminated)"
proof -
  let ?conf = "\<lparr>cpus = \<lparr>ranges = [range_of_value 9]\<rparr>, session_configurations = []\<rparr> :: ApplicationConfiguration"
  have cores: "to_cpu_core_list \<lparr>ranges = [range_of_value 9]\<rparr> = [9]"
    by (simp add: to_cpu_core_list_def ranges_sequence_def as_sequence_def sequence_loop.simps [of 9 9] range_of_value_def)
  have "affinity_contract 8 (env_set_affinity sample_environment)"
    by (simp add: affinity_contract_def sample_environment_def)
  from unpinnable_core_terminates [OF this, of ?conf "[]"] show ?thesis by (simp add: cores)
qed

end
