(* ===== verification/Handler_Memory.thy ===== *)
theory Handler_Memory
  imports Prelude
begin

text \<open>
  \<open>src/HandlerAllocator.hpp\<close>: one block of memory that all handlers of a lane share, the
  allocator that hands it out, and the handler that carries the allocator. Addresses are
  numbers; the memories live at addresses of a store.
\<close>

section \<open>The memory\<close>

record HandlerMemory =
  storage_address :: nat  \<comment> \<open>\<open>&storage_\<close>\<close>
  in_use :: bool

definition storage_size :: u64 where
  "storage_size = 1024"

definition new_memory :: "nat \<Rightarrow> HandlerMemory" where
  "new_memory address = \<lparr>storage_address = address, in_use = False\<rparr>"

definition allocate :: "u64 \<Rightarrow> HandlerMemory \<Rightarrow> failure + nat \<times> HandlerMemory" where
  "allocate bytes m =
     (if in_use m then Inl Assertion_failed
      else if storage_size < bytes then Inl Assertion_failed
      else Inr (storage_address m, m))"

definition deallocate :: "nat \<Rightarrow> HandlerMemory \<Rightarrow> failure + HandlerMemory" where
  "deallocate pointer m =
     (if pointer \<noteq> storage_address m then Inl Assertion_failed else Inr (m\<lparr>in_use := False\<rparr>))"

section \<open>The allocator and the handler\<close>

text \<open>An allocator refers to a memory; the store maps references to memories.\<close>

record HandlerAllocator =
  memory_ref :: nat

type_synonym memories = "nat \<Rightarrow> HandlerMemory"

definition allocator_equal :: "HandlerAllocator \<Rightarrow> HandlerAllocator \<Rightarrow> bool" where
  "allocator_equal a b \<longleftrightarrow> memory_ref a = memory_ref b"

definition allocator_differ :: "HandlerAllocator \<Rightarrow> HandlerAllocator \<Rightarrow> bool" where
  "allocator_differ a b \<longleftrightarrow> memory_ref a \<noteq> memory_ref b"

definition allocator_allocate ::
  "u64 \<Rightarrow> u64 \<Rightarrow> HandlerAllocator \<Rightarrow> memories \<Rightarrow> failure + nat \<times> memories" where
  "allocator_allocate handler_size n a ms =
     and_then (allocate (handler_size * n) (ms (memory_ref a))) (\<lambda>(p, m).
       Inr (p, ms(memory_ref a := m)))"

definition allocator_deallocate :: "nat \<Rightarrow> HandlerAllocator \<Rightarrow> memories \<Rightarrow> failure + memories" where
  "allocator_deallocate p a ms =
     and_then (deallocate p (ms (memory_ref a))) (\<lambda>m. Inr (ms(memory_ref a := m)))"

record 'h CustomAllocHandler =
  handler_memory :: nat
  handler_function :: 'h

definition get_allocator :: "'h CustomAllocHandler \<Rightarrow> HandlerAllocator" where
  "get_allocator h = \<lparr>memory_ref = handler_memory h\<rparr>"

definition call_handler :: "('args \<Rightarrow> 's \<Rightarrow> 's) CustomAllocHandler \<Rightarrow> 'args \<Rightarrow> 's \<Rightarrow> 's" where
  "call_handler h args s = handler_function h args s"

definition make_handler :: "nat \<Rightarrow> 'h \<Rightarrow> 'h CustomAllocHandler" where
  "make_handler m h = \<lparr>handler_memory = m, handler_function = h\<rparr>"

section \<open>Sequences of uses\<close>

text \<open>A use of the allocator of one memory; the result collects the addresses handed out.\<close>

datatype memory_use = Allocate u64 u64 | Deallocate nat

fun use_memory :: "memory_use list \<Rightarrow> HandlerAllocator \<Rightarrow> memories \<Rightarrow> failure + nat list \<times> memories" where
  "use_memory [] a ms = Inr ([], ms)"
| "use_memory (Allocate handler_size n # us) a ms =
     and_then (allocator_allocate handler_size n a ms) (\<lambda>(p, ms).
     and_then (use_memory us a ms) (\<lambda>(ps, ms). Inr (p # ps, ms)))"
| "use_memory (Deallocate p # us) a ms =
     and_then (allocator_deallocate p a ms) (\<lambda>ms. use_memory us a ms)"

fun allocation_count :: "memory_use list \<Rightarrow> nat" where
  "allocation_count [] = 0"
| "allocation_count (Allocate handler_size n # us) = Suc (allocation_count us)"
| "allocation_count (Deallocate p # us) = allocation_count us"

fun fits :: "nat \<Rightarrow> memory_use \<Rightarrow> bool" where
  "fits address (Allocate handler_size n) \<longleftrightarrow> handler_size * n \<le> storage_size"
| "fits address (Deallocate p) \<longleftrightarrow> p = address"

text \<open>What the assertions mean to enforce: at most one allocation is live at any time.\<close>

fun disciplined :: "bool \<Rightarrow> memory_use list \<Rightarrow> bool" where
  "disciplined live [] \<longleftrightarrow> True"
| "disciplined live (Allocate handler_size n # us) \<longleftrightarrow> \<not> live \<and> disciplined True us"
| "disciplined live (Deallocate p # us) \<longleftrightarrow> live \<and> disciplined False us"

lemma use_memory_free:
  "\<not> in_use (ms (memory_ref a)) \<Longrightarrow> list_all (fits (storage_address (ms (memory_ref a)))) us \<Longrightarrow>
   use_memory us a ms = Inr (replicate (allocation_count us) (storage_address (ms (memory_ref a))), ms)"
proof (induction us a ms rule: use_memory.induct)
  case (2 handler_size n us a ms)
  then show ?case by (simp add: allocator_allocate_def allocate_def not_less)
next
  case (3 p us a ms)
  then have same: "(ms (memory_ref a))\<lparr>in_use := False\<rparr> = ms (memory_ref a)" by simp
  have "ms(memory_ref a := (ms (memory_ref a))\<lparr>in_use := False\<rparr>) = ms"
    unfolding same by (rule fun_upd_triv)
  with 3 have "allocator_deallocate p a ms = Inr ms"
    by (simp add: allocator_deallocate_def deallocate_def)
  with 3 show ?case by simp
qed simp

end
