(* ===== verification/Printing.thy ===== *)
theory Printing
  imports Sessions Complex_Main
begin

text \<open>
  The text output of \<open>src/Size.cpp\<close>, \<open>src/Statistics.cpp\<close>, \<open>src/SessionConfiguration.cpp\<close>
  and of \<open>Session::finalize\<close>,
  on a stream in a good state. The arithmetic of \<open>long double\<close> and its text are a
  parameter, and so are the texts of Boost's dates and durations.
\<close>

section \<open>Sizes\<close>

record 'f floating =
  of_u64 :: "u64 \<Rightarrow> 'f"
  divide_by :: "'f \<Rightarrow> u64 \<Rightarrow> 'f"
  at_least_one :: "'f \<Rightarrow> bool"
  show_fixed_1 :: "'f \<Rightarrow> string"  \<comment> \<open>\<open>std::fixed << std::setprecision(1)\<close>\<close>

definition units_iec :: "string list" where
  "units_iec = [''bit'', ''Kibit'', ''Mibit'', ''Gibit'', ''Tibit'', ''Pibit'', ''Eibit'']"

definition units_si :: "string list" where
  "units_si = [''bit'', ''kbit'', ''Mbit'', ''Gbit'', ''Tbit'', ''Pbit'', ''Ebit'']"

text \<open>The loop that scales the value, over the units that are left.\<close>

fun scale :: "'f floating \<Rightarrow> u64 \<Rightarrow> 'f \<Rightarrow> string list \<Rightarrow> 'f \<times> string" where
  "scale ops factor value [] = (value, '''')"
| "scale ops factor value [unit] = (value, unit)"
| "scale ops factor value (unit # next_unit # units) =
     (if at_least_one ops (divide_by ops value factor)
      then scale ops factor (divide_by ops value factor) (next_unit # units)
      else (value, unit))"

definition print_Size :: "'f floating \<Rightarrow> Size \<Rightarrow> string" where
  "print_Size ops z =
     (let factor = (if unit_system z = SI then 1000 else 1024);
          units = (if unit_system z = SI then units_si else units_iec);
          (value, unit) = scale ops factor (of_u64 ops (size_value z * 8)) units
      in show_fixed_1 ops value @ unit @ ''('' @ show_nat (unat (size_value z * 8)) @ hd units @ '')'')"

section \<open>Statistics\<close>

definition print_bandwidth :: "'f floating \<Rightarrow> Size \<Rightarrow> int option \<Rightarrow> string" where
  "print_bandwidth ops bytes_count total_milliseconds =
     (case compute_bandwidth (size_value bytes_count) total_milliseconds of
        None \<Rightarrow> ''undefined''
      | Some n \<Rightarrow> print_Size ops (bytes_count\<lparr>size_value := n\<rparr>) @ ''/s'')"

definition print_Statistics ::
  "'f floating \<Rightarrow> (int option \<Rightarrow> string) \<Rightarrow> (time_duration \<Rightarrow> int option) \<Rightarrow> Statistics \<Rightarrow> string" where
  "print_Statistics ops show_date milliseconds st =
     ''started: '' @ show_date (start_date st) @ [CHR 0x0A] @
     ''received_bytes_count: '' @ print_Size ops (received_bytes_count st) @ [CHR 0x0A] @
     ''receive_bandwidth: '' @
       print_bandwidth ops (received_bytes_count st) (milliseconds (receive_duration st)) @ [CHR 0x0A] @
     ''sent_bytes_count: '' @ print_Size ops (sent_bytes_count st) @ [CHR 0x0A] @
     ''send_bandwidth: '' @
       print_bandwidth ops (sent_bytes_count st) (milliseconds (send_duration st)) @ [CHR 0x0A]"

section \<open>The report at the end of a session\<close>

text \<open>A code is printed as its category and its number; the codes of other categories are Boost's.\<close>

definition print_error_code :: "(error_code \<Rightarrow> string) \<Rightarrow> error_code \<Rightarrow> string" where
  "print_error_code show_other code =
     (case code of
        Tester_error e \<Rightarrow> category_name @ '':'' @ show_nat (nat (error_number e))
      | _ \<Rightarrow> show_other code)"

text \<open>What \<open>finalize\<close> writes before it returns the failure.\<close>

definition finalize_report ::
  "'f floating \<Rightarrow> (int option \<Rightarrow> string) \<Rightarrow> (time_duration \<Rightarrow> int option) \<Rightarrow> (error_code \<Rightarrow> string) \<Rightarrow>
   Session \<Rightarrow> string" where
  "finalize_report ops show_date milliseconds show_other s =
     print_Statistics ops show_date milliseconds (statistics s) @ [CHR 0x0A] @
     ''status: '' @ print_error_code show_other (session_failure s) @ [CHR 0x0A]"

section \<open>A session's configuration\<close>

definition print_SessionConfiguration ::
  "'f floating \<Rightarrow> (time_duration \<Rightarrow> string) \<Rightarrow> SessionConfiguration \<Rightarrow> string" where
  "print_SessionConfiguration ops show_duration c =
     ''mode: '' @ print_Mode (mode c) @ [CHR 0x0A] @
     ''direction: '' @ print_Direction (direction c) @ [CHR 0x0A] @
     ''endpoint: '' @ endpoint c @ [CHR 0x0A] @
     ''send_bandwidth: '' @ print_Size ops (send_bandwidth c) @ ''/s'' @ [CHR 0x0A] @
     ''receive_bandwidth: '' @ print_Size ops (receive_bandwidth c) @ ''/s'' @ [CHR 0x0A] @
     ''bandwidth_sampling_frequency: '' @ show_nat (unat (bandwidth_sampling_frequency c)) @ ''Hz'' @ [CHR 0x0A] @
     ''verify: '' @ print_Verify (verify c) @ [CHR 0x0A] @
     (if size_value (windows c) \<noteq> 0
      then ''windows: '' @ print_Size ops (windows c) @ [CHR 0x0A]
      else ''windows: default system value'' @ [CHR 0x0A]) @
     ''size: '' @ print_Size ops (total_size c) @ [CHR 0x0A] @
     (if is_special (duration_margin c)
      then ''duration_margin: default'' @ [CHR 0x0A]
      else ''duration_margin: '' @ show_duration (duration_margin c) @ [CHR 0x0A]) @
     ''shutdown_policy: '' @ print_ShutdownPolicy (shutdown_policy c) @ [CHR 0x0A]"

section \<open>The contract of \<open>long double\<close>\<close>

text \<open>
  What the output of sizes relies on: an extended format with a significand of 64 bits, as
  on the x86 systems. It holds every 64-bit integer; a quotient is rounded to nearest, so that
  it is off by at most one part in 2^64, and does not fall below an integer that the true
  quotient reaches; the fixed notation with one digit rounds to the nearest tenth. \<open>number\<close> is
  the number that a value stands for.
\<close>

locale long_double =
  fixes ops :: "'f floating" and number :: "'f \<Rightarrow> rat"
  assumes converts: "number (of_u64 ops n) = of_nat (unat n)"
    and divides: "number x = 0 \<or> 1 \<le> number x \<Longrightarrow> 0 < unat n \<Longrightarrow> unat n \<le> 1024 \<Longrightarrow>
      \<bar>number (divide_by ops x n) - number x / of_nat (unat n)\<bar> \<le> number x / of_nat (unat n) / 2 ^ 64"
    and reaches: "1 \<le> number x \<Longrightarrow> 0 < unat n \<Longrightarrow> unat n \<le> 1024 \<Longrightarrow> m < 2 ^ 64 \<Longrightarrow>
      of_nat (m * unat n) \<le> number x \<Longrightarrow> of_nat m \<le> number (divide_by ops x n)"
    and compares: "at_least_one ops x \<longleftrightarrow> 1 \<le> number x"
    and shows_tenths: "number x = 0 \<or> 1 \<le> number x \<Longrightarrow> \<exists>t. show_fixed_1 ops x =
      show_nat (t div 10) @ ''.'' @ show_nat (t mod 10) \<and> \<bar>of_nat t / 10 - number x\<bar> \<le> 1 / 20"

text \<open>The error of \<open>j\<close> roundings, relative to the result.\<close>

definition rounding_error :: "nat \<Rightarrow> rat" where
  "rounding_error j = (1 + 1 / 2 ^ 64) ^ j - 1"

lemma rounding_error_Suc: "rounding_error (Suc j) = rounding_error j + (1 + rounding_error j) / 2 ^ 64"
  by (simp add: rounding_error_def field_simps)

lemma rounding_error_mono: "i \<le> j \<Longrightarrow> rounding_error i \<le> rounding_error j"
  unfolding rounding_error_def by (simp add: power_increasing del: power_Suc)

lemma rounding_error_pos: "0 \<le> rounding_error j"
  using rounding_error_mono [of 0 j] by (simp add: rounding_error_def)

lemma rounding_error_6: "(1 - 1 / 2 ^ 60) * (1 + rounding_error 6) < 1" "1024 * rounding_error 6 \<le> 1 / 2 ^ 50"
  by (simp_all add: rounding_error_def power_divide)

context long_double
begin

text \<open>
  Where the loop stands after \<open>j\<close> divisions of \<open>bits\<close>: close to the true quotient, and not below
  a power of the factor that it reaches.
\<close>

definition scaled :: "nat \<Rightarrow> nat \<Rightarrow> nat \<Rightarrow> 'f \<Rightarrow> bool" where
  "scaled factor bits j x \<longleftrightarrow>
     (number x = 0 \<or> 1 \<le> number x) \<and> (0 < j \<longrightarrow> factor ^ j \<le> bits) \<and>
     \<bar>number x - of_nat bits / of_nat factor ^ j\<bar> \<le> of_nat bits / of_nat factor ^ j * rounding_error j \<and>
     (\<forall>k. factor ^ (j + k) \<le> bits \<and> j + k \<le> 6 \<longrightarrow> of_nat (factor ^ k) \<le> number x)"

lemma divided_near:
  assumes n: "unat n = F" and "scaled F bits j x" and "0 < F" and "F \<le> 1024"
  shows "\<bar>number (divide_by ops x n) - of_nat bits / of_nat F ^ Suc j\<bar>
    \<le> of_nat bits / of_nat F ^ Suc j * rounding_error (Suc j)"
proof -
  let ?f = "of_nat F :: rat" and ?q = "number (divide_by ops x n)"
  let ?true = "of_nat bits / ?f ^ j" and ?e = "rounding_error j"
  have f: "0 < ?f" using assms(3) by simp
  have x: "\<bar>number x - ?true\<bar> \<le> ?true * ?e" "number x = 0 \<or> 1 \<le> number x"
    using assms(2) by (simp_all add: scaled_def)
  have 1: "\<bar>?q - number x / ?f\<bar> \<le> number x / ?f / 2 ^ 64"
    using divides [OF x(2), of n] assms(3,4) by (simp only: n)
  have "number x \<le> ?true + ?true * ?e" using x(1) by linarith
  then have "number x \<le> ?true * (1 + ?e)" by (simp only: distrib_left mult_1_right)
  then have 2: "number x / ?f / 2 ^ 64 \<le> ?true * (1 + ?e) / ?f / 2 ^ 64"
    using f by (intro divide_right_mono) simp_all
  have "\<bar>number x / ?f - ?true / ?f\<bar> = \<bar>number x - ?true\<bar> / ?f"
    using f by (simp only: diff_divide_distrib [symmetric] abs_div_pos)
  also have "\<dots> \<le> ?true * ?e / ?f" using f x(1) by (intro divide_right_mono) simp_all
  finally have "\<bar>?q - ?true / ?f\<bar> \<le> ?true * (1 + ?e) / ?f / 2 ^ 64 + ?true * ?e / ?f" using 1 2 by linarith
  also have "\<dots> = ?true / ?f * rounding_error (Suc j)"
    unfolding rounding_error_Suc using f by (simp add: field_simps)
  finally show ?thesis by (simp add: field_simps)
qed

lemma quotient_reaches:
  assumes n: "unat n = F" and x: "scaled F bits j x" and F: "1 < F" "F \<le> 1024" and j: "j < 6"
  shows "1 \<le> number (divide_by ops x n) \<longleftrightarrow> F ^ Suc j \<le> bits"
proof
  assume big: "F ^ Suc j \<le> bits"
  then have "of_nat (F ^ 1) \<le> number x" using x j unfolding scaled_def by (metis Suc_eq_plus1 Suc_leI)
  then have near: "of_nat F \<le> number x" by simp
  moreover have "(1 :: rat) \<le> of_nat F" using F(1) by simp
  ultimately have "1 \<le> number x" by linarith
  then show "1 \<le> number (divide_by ops x n)" using reaches [of x n 1] F near by (simp add: n)
next
  let ?f = "of_nat F :: rat" and ?q = "number (divide_by ops x n)"
  assume one: "1 \<le> ?q"
  show "F ^ Suc j \<le> bits"
  proof (rule ccontr)
    assume "\<not> F ^ Suc j \<le> bits"
    then have "bits + 1 \<le> F ^ Suc j" by simp
    then have "of_nat (bits + 1) \<le> (of_nat (F ^ Suc j) :: rat)" by (simp only: of_nat_le_iff)
    then have less: "of_nat bits + 1 \<le> ?f ^ Suc j" by simp
    have f: "0 < ?f ^ Suc j" using F(1) by simp
    have "F ^ Suc j \<le> 1024 ^ Suc j" using F(2) by (rule power_mono) simp
    also have "(1024 :: nat) ^ Suc j \<le> 1024 ^ 6" using j by (intro power_increasing) simp_all
    finally have "of_nat (F ^ Suc j) \<le> (of_nat (1024 ^ 6) :: rat)" by (simp only: of_nat_le_iff)
    then have "?f ^ Suc j \<le> 2 ^ 60" by simp
    then have "1 / 2 ^ 60 \<le> 1 / ?f ^ Suc j" using f by (intro divide_left_mono) simp_all
    moreover have "of_nat bits / ?f ^ Suc j \<le> (?f ^ Suc j - 1) / ?f ^ Suc j"
      using less f by (intro divide_right_mono) simp_all
    then have "of_nat bits / ?f ^ Suc j \<le> 1 - 1 / ?f ^ Suc j"
      using f F(1) by (simp add: diff_divide_distrib)
    ultimately have part: "of_nat bits / ?f ^ Suc j \<le> 1 - 1 / 2 ^ 60" by linarith
    have "0 < F" using F(1) by simp
    from divided_near [OF n x this F(2)]
    have "?q \<le> of_nat bits / ?f ^ Suc j + of_nat bits / ?f ^ Suc j * rounding_error (Suc j)" by linarith
    also have "\<dots> = of_nat bits / ?f ^ Suc j * (1 + rounding_error (Suc j))" by (simp only: distrib_left mult_1_right)
    also have "\<dots> \<le> (1 - 1 / 2 ^ 60) * (1 + rounding_error 6)"
      using part j rounding_error_pos [of "Suc j"] by (intro mult_mono add_left_mono rounding_error_mono) simp_all
    finally show False using one rounding_error_6(1) by linarith
  qed
qed

lemma scaled_step:
  assumes n: "unat n = F" and x: "scaled F bits j x" and F: "1 < F" "F \<le> 1024" and j: "j < 6"
    and big: "F ^ Suc j \<le> bits"
  shows "scaled F bits (Suc j) (divide_by ops x n)"
proof -
  have powers: "of_nat (F ^ k) \<le> number x" if "F ^ (j + k) \<le> bits" "j + k \<le> 6" for k
    using x that unfolding scaled_def by blast
  have "of_nat F \<le> number x" using powers [of 1] big j by simp
  moreover have "(1 :: rat) \<le> of_nat F" using F(1) by simp
  ultimately have one: "1 \<le> number x" by linarith
  have "of_nat (F ^ k) \<le> number (divide_by ops x n)" if k: "F ^ (Suc j + k) \<le> bits \<and> Suc j + k \<le> 6" for k
  proof -
    have "F ^ k \<le> 1024 ^ k" using F(2) by (rule power_mono) simp
    also have "(1024 :: nat) ^ k \<le> 1024 ^ 6" using k by (intro power_increasing) simp_all
    also have "\<dots> < 2 ^ 64" by simp
    finally have "F ^ k < 2 ^ 64" .
    moreover have "of_nat (F ^ k * F) \<le> number x" using powers [of "Suc k"] k by (simp add: mult.commute)
    ultimately show ?thesis using reaches [of x n "F ^ k"] one F by (simp only: n)
  qed
  moreover have "1 \<le> number (divide_by ops x n)" using quotient_reaches [OF n x F j] big by simp
  ultimately show ?thesis
    using divided_near [OF n x _ F(2)] F(1) big unfolding scaled_def by simp
qed

text \<open>The loop ends in the largest unit that the number of bits reaches.\<close>

lemma scale_scaled:
  assumes n: "unat n = F" and F: "1 < F" "F \<le> 1024"
  shows "scaled F bits j x \<Longrightarrow> j + length units = 7 \<Longrightarrow> units \<noteq> [] \<Longrightarrow>
    \<exists>i w. i < length units \<and> scale ops n x units = (w, units ! i) \<and> scaled F bits (j + i) w \<and>
      (j + i < 6 \<longrightarrow> bits < F ^ Suc (j + i))"
proof (induction units arbitrary: j x rule: induct_list012)
  case (2 u)
  then show ?case by (intro exI [of _ 0] exI [of _ x]) simp
next
  case (3 u u' us)
  have j: "j < 6" using 3(4) by simp
  note reached = quotient_reaches [OF n 3(3) F j]
  show ?case
  proof (cases "F ^ Suc j \<le> bits")
    case True
    have "Suc j + length (u' # us) = 7" "u' # us \<noteq> []" using 3(4) by simp_all
    from 3(2) [OF scaled_step [OF n 3(3) F j True] this] obtain i w where
      i: "i < length (u' # us)" "scale ops n (divide_by ops x n) (u' # us) = (w, (u' # us) ! i)"
        "scaled F bits (Suc j + i) w" "Suc j + i < 6 \<longrightarrow> bits < F ^ Suc (Suc j + i)"
      by blast
    have "scale ops n x (u # u' # us) = (w, (u # u' # us) ! Suc i)" using i(2) True reached by (simp add: compares)
    with i show ?thesis by (intro exI [of _ "Suc i"] exI [of _ w]) simp
  next
    case False
    then have "scale ops n x (u # u' # us) = (x, (u # u' # us) ! 0)" using reached by (simp add: compares)
    with False 3(3) show ?thesis by (intro exI [of _ 0] exI [of _ x]) simp
  qed
qed simp

lemma print_Size_near:
  fixes z defines "F \<equiv> (if unit_system z = SI then 1000 else 1024 :: nat)" and "bits \<equiv> 8 * unat (size_value z)"
  assumes small: "unat (size_value z) < 2 ^ 61"
  shows "\<exists>i t. i < 7 \<and>
    print_Size ops z = show_nat (t div 10) @ ''.'' @ show_nat (t mod 10) @
      (if unit_system z = SI then units_si else units_iec) ! i @ ''('' @ show_nat bits @ ''bit)'' \<and>
    (0 < i \<longrightarrow> F ^ i \<le> bits) \<and> (i < 6 \<longrightarrow> bits < F ^ Suc i) \<and>
    \<bar>of_nat t / 10 - of_nat bits / of_nat F ^ i\<bar> \<le> (1 / 20 + 1 / 2 ^ 50 :: rat)"
proof -
  let ?n = "(if unit_system z = SI then 1000 else 1024) :: u64"
  let ?units = "if unit_system z = SI then units_si else units_iec"
  let ?x = "of_u64 ops (size_value z * 8)"
  have units: "length ?units = 7" "?units \<noteq> []" "hd ?units = ''bit''"
    by (simp_all add: units_si_def units_iec_def)
  have F: "unat ?n = F" "1 < F" "F \<le> 1024" by (simp_all add: F_def)
  have bits: "unat (size_value z * 8) = bits"
    unfolding bits_def using small by (subst unat_mult_lem [THEN iffD1]) simp_all
  have x: "number ?x = of_nat bits" by (simp only: converts bits)
  then have "scaled F bits 0 ?x" by (auto simp: scaled_def rounding_error_def)
  from scale_scaled [OF F this _ units(2)] units(1) obtain i w where
    i: "i < 7" "scale ops ?n ?x ?units = (w, ?units ! i)" "scaled F bits i w" "i < 6 \<longrightarrow> bits < F ^ Suc i"
    by auto
  let ?true = "of_nat bits / of_nat F ^ i :: rat"
  obtain t where t: "show_fixed_1 ops w = show_nat (t div 10) @ ''.'' @ show_nat (t mod 10)"
    "\<bar>of_nat t / 10 - number w\<bar> \<le> 1 / 20"
    using shows_tenths i(3) unfolding scaled_def by blast
  have "bits \<le> 1024 * F ^ i"
  proof (cases "i < 6")
    case True
    then have "bits \<le> F * F ^ i" using i(4) by simp
    also have "\<dots> \<le> 1024 * F ^ i" using F(3) by (rule mult_right_mono) simp
    finally show ?thesis .
  next
    case False
    then have "i = 6" using i(1) by simp
    then show ?thesis using small by (simp add: F_def bits_def)
  qed
  then have "of_nat bits \<le> (of_nat (1024 * F ^ i) :: rat)" by (simp only: of_nat_le_iff)
  then have true: "0 \<le> ?true" "?true \<le> 1024" using F(2) by (simp_all add: pos_divide_le_eq)
  have "\<bar>number w - ?true\<bar> \<le> ?true * rounding_error i" using i(3) by (simp add: scaled_def)
  also have "\<dots> \<le> 1024 * rounding_error 6"
    using true i(1) rounding_error_pos by (intro mult_mono rounding_error_mono) simp_all
  finally have "\<bar>of_nat t / 10 - ?true\<bar> \<le> 1 / 20 + 1 / 2 ^ 50" using t(2) rounding_error_6(2) by linarith
  moreover have "print_Size ops z = show_nat (t div 10) @ ''.'' @ show_nat (t mod 10) @
      ?units ! i @ ''('' @ show_nat bits @ ''bit)''"
    unfolding print_Size_def Let_def i(2) prod.case units(3) by (simp add: bits t(1))
  moreover have "0 < i \<longrightarrow> F ^ i \<le> bits" using i(3) by (simp add: scaled_def)
  ultimately show ?thesis using i(1,4) by (intro exI [of _ i] exI [of _ t]) simp
qed

end

section \<open>A model of the extended format\<close>

text \<open>
  Rational numbers, with every quotient rounded to 64 significant bits: the significand starts
  at the highest bit of the quotient, found among the bits of its multiple by 2^20. (The
  quotients of the loop are at least 1/1024.)
\<close>

fun bit_length :: "nat \<Rightarrow> nat" where
  "bit_length n = (if n = 0 then 0 else Suc (bit_length (n div 2)))"

declare bit_length.simps [simp del]

lemma bit_length_bounds: "0 < n \<Longrightarrow> 2 ^ (bit_length n - 1) \<le> n \<and> n < 2 ^ bit_length n \<and> 0 < bit_length n"
proof (induction n rule: bit_length.induct)
  case (1 n)
  then have len: "bit_length n = Suc (bit_length (n div 2))" by (subst bit_length.simps) simp
  show ?case
  proof (cases "n div 2 = 0")
    case True
    then have "n = 1" using 1(2) by (cases n) auto
    then show ?thesis by (simp add: bit_length.simps)
  next
    case False
    then obtain k where k: "bit_length (n div 2) = Suc k" "2 ^ k \<le> n div 2" "n div 2 < 2 ^ Suc k"
      using 1 by (cases "bit_length (n div 2)") auto
    then show ?thesis unfolding len by auto
  qed
qed

definition round_64 :: "rat \<Rightarrow> rat" where
  "round_64 r = (let k = bit_length (nat \<lfloor>r * 2 ^ 20\<rfloor>) in of_int (round (r * 2 ^ 84 / 2 ^ k)) * 2 ^ k / 2 ^ 84)"

definition extended :: "rat floating" where
  "extended =
     \<lparr>of_u64 = (\<lambda>n. of_nat (unat n)), divide_by = (\<lambda>x n. round_64 (x / of_nat (unat n))),
      at_least_one = (\<lambda>x. 1 \<le> x),
      show_fixed_1 = (\<lambda>x. let t = nat (round (10 * x)) in show_nat (t div 10) @ ''.'' @ show_nat (t mod 10))\<rparr>"

lemma round_64_0: "round_64 0 = 0"
  by (simp add: round_64_def)

lemma round_64_scale:
  assumes "1 / 2 ^ 20 \<le> r"
  obtains k where "round_64 r = of_int (round (r * 2 ^ 84 / 2 ^ k)) * 2 ^ k / 2 ^ 84"
    and "2 ^ k \<le> r * 2 ^ 21" and "r * 2 ^ 20 < 2 ^ k"
proof -
  let ?n = "nat \<lfloor>r * 2 ^ 20\<rfloor>"
  have one: "1 \<le> r * 2 ^ 20" using assms by simp
  then have n: "0 < ?n" "of_nat ?n \<le> r * 2 ^ 20" "r * 2 ^ 20 < of_nat (?n + 1)" by (simp, simp, linarith)
  note len = bit_length_bounds [OF n(1)]
  let ?k = "bit_length ?n"
  have "(2 :: nat) ^ ?k = 2 * 2 ^ (?k - 1)" using len by (metis Suc_diff_1 power_Suc)
  then have "(2 :: nat) ^ ?k \<le> 2 * ?n" using len by simp
  then have "of_nat (2 ^ ?k) \<le> (of_nat (2 * ?n) :: rat)" by (simp only: of_nat_le_iff)
  then have 1: "2 ^ ?k \<le> r * 2 ^ 21" using n(2) by simp
  have "?n + 1 \<le> 2 ^ ?k" using len by (simp only: Suc_eq_plus1 [symmetric] Suc_le_eq)
  then have "of_nat (?n + 1) \<le> (of_nat (2 ^ ?k) :: rat)" by (simp only: of_nat_le_iff)
  then have 2: "r * 2 ^ 20 < 2 ^ ?k" using n(3) by simp
  show thesis by (rule that [of ?k]) (use 1 2 in \<open>simp_all add: round_64_def Let_def\<close>)
qed

lemma round_64_near:
  assumes "1 / 2 ^ 20 \<le> r"
  shows "\<bar>round_64 r - r\<bar> \<le> r / 2 ^ 64"
proof -
  obtain k where k: "round_64 r = of_int (round (r * 2 ^ 84 / 2 ^ k)) * 2 ^ k / 2 ^ 84" "2 ^ k \<le> r * 2 ^ 21"
    using round_64_scale [OF assms] by blast
  let ?x = "r * 2 ^ 84 / 2 ^ k"
  have "round_64 r - r = (of_int (round ?x) - ?x) * (2 ^ k / 2 ^ 84)" by (simp add: k(1) field_simps)
  then have "\<bar>round_64 r - r\<bar> = \<bar>of_int (round ?x) - ?x\<bar> * (2 ^ k / 2 ^ 84)" by (simp only: abs_mult) simp
  also have "\<dots> \<le> 1 / 2 * (2 ^ k / 2 ^ 84)" using of_int_round_abs_le [of ?x] by (intro mult_right_mono) simp_all
  also have "\<dots> \<le> 1 / 2 * (r * 2 ^ 21 / 2 ^ 84)" using k(2) by (intro mult_left_mono divide_right_mono) simp_all
  also have "\<dots> = r / 2 ^ 64" by simp
  finally show ?thesis .
qed

lemma round_64_reaches:
  assumes "1 / 2 ^ 20 \<le> r" and m: "m < 2 ^ 64" and r: "of_nat m \<le> r"
  shows "of_nat m \<le> round_64 r"
proof -
  obtain k where k: "round_64 r = of_int (round (r * 2 ^ 84 / 2 ^ k)) * 2 ^ k / 2 ^ 84" "2 ^ k \<le> r * 2 ^ 21"
    "r * 2 ^ 20 < 2 ^ k"
    using round_64_scale [OF assms(1)] by blast
  have round: "of_int i \<le> (of_int (round x) :: rat)" if "of_int i \<le> x" for i :: int and x :: rat
    using round_mono [OF that] by simp
  show ?thesis
  proof (cases "k \<le> 84")
    case True
    then have split: "(2 :: rat) ^ 84 = 2 ^ (84 - k) * 2 ^ k" by (simp flip: power_add)
    have "of_int (int m * 2 ^ (84 - k)) \<le> r * 2 ^ 84 / 2 ^ k"
      using r unfolding split by simp
    from round [OF this] have "of_nat m * 2 ^ (84 - k) \<le> (of_int (round (r * 2 ^ 84 / 2 ^ k)) :: rat)"
      by simp
    then have "of_nat m * 2 ^ (84 - k) * 2 ^ k / 2 ^ 84 \<le> round_64 r"
      unfolding k(1) by (intro divide_right_mono mult_right_mono) simp_all
    then show ?thesis unfolding split by simp
  next
    case False
    then have "(2 :: rat) ^ 85 \<le> 2 ^ k" by (intro power_increasing) simp_all
    have "of_int (2 ^ 63) \<le> r * 2 ^ 84 / 2 ^ k" using k(2) by (simp add: le_divide_eq)
    from round [OF this] have "2 ^ 63 \<le> (of_int (round (r * 2 ^ 84 / 2 ^ k)) :: rat)" by simp
    then have "2 ^ 63 * 2 ^ 85 / 2 ^ 84 \<le> round_64 r"
      unfolding k(1) using \<open>2 ^ 85 \<le> 2 ^ k\<close> by (intro divide_right_mono mult_mono) simp_all
    moreover have "of_nat m \<le> (of_nat (2 ^ 64) :: rat)" using m by (simp only: of_nat_le_iff)
    ultimately show ?thesis by simp
  qed
qed

lemma quotient_large:
  fixes x :: rat
  assumes "1 \<le> x" and "0 < n" and "n \<le> (1024 :: nat)"
  shows "1 / 2 ^ 20 \<le> x / of_nat n"
proof -
  have "(of_nat n :: rat) \<le> of_nat 1024" using assms(3) by (simp only: of_nat_le_iff)
  then have "1 / 2 ^ 20 * of_nat n \<le> x" using assms(1) by simp
  then show ?thesis using assms(2) by (simp add: le_divide_eq)
qed

interpretation extended: long_double extended "\<lambda>x. x"
proof
  show "of_u64 extended n = of_nat (unat n)" for n by (simp add: extended_def)
  show "\<bar>divide_by extended x n - x / of_nat (unat n)\<bar> \<le> x / of_nat (unat n) / 2 ^ 64"
    if "x = 0 \<or> 1 \<le> x" "0 < unat n" "unat n \<le> 1024" for x n
    using that round_64_near [OF quotient_large [of x "unat n"]] by (auto simp: extended_def round_64_0)
  show "of_nat m \<le> divide_by extended x n"
    if "1 \<le> x" "0 < unat n" "unat n \<le> 1024" "m < 2 ^ 64" "of_nat (m * unat n) \<le> x" for x n m
  proof -
    obtain k where k: "unat n = k" by simp
    then have "of_nat m \<le> x / of_nat k" using that by (simp add: pos_le_divide_eq)
    moreover have "1 / 2 ^ 20 \<le> x / of_nat k" using that k by (intro quotient_large) simp_all
    ultimately have "of_nat m \<le> round_64 (x / of_nat k)" using round_64_reaches that(4) by blast
    then show ?thesis by (simp only: extended_def floating.simps k)
  qed
  show "at_least_one extended x \<longleftrightarrow> 1 \<le> x" for x by (simp add: extended_def)
  show "\<exists>t. show_fixed_1 extended x = show_nat (t div 10) @ ''.'' @ show_nat (t mod 10) \<and>
      \<bar>of_nat t / 10 - x\<bar> \<le> 1 / 20" if "x = 0 \<or> 1 \<le> x" for x
  proof (intro exI conjI)
    have "0 \<le> round (10 * x)" using that by (auto simp: round_def)
    then have "of_nat (nat (round (10 * x))) = (of_int (round (10 * x)) :: rat)" by simp
    then show "\<bar>of_nat (nat (round (10 * x))) / 10 - x\<bar> \<le> 1 / 20"
      using of_int_round_abs_le [of "10 * x"] by linarith
  qed (simp add: extended_def Let_def)
qed

end
