(* ===== verification/System_Claims.thy ===== *)
theory System_Claims
  imports Sockets Handler_Memory Printing Command_Line
begin

text \<open>The properties of the sockets, of the handlers' memory and of the printed sizes.\<close>

section \<open>Endpoints and sockets\<close>

text \<open>C25.
  With any matcher that keeps its contract, an endpoint is read as its text split at the
  colons: host and service of the peer, in front of them the local service, and in front of
  that the local host. Every other number of parts, and every empty part, is rejected.
\<close>

theorem endpoint_equals_reference:
  assumes "regex_engine regex_match"
  shows "endpoint_queries regex_match s = endpoint_of_parts s"
  by (rule regex_engine.endpoint_queries_eq [OF assms])

theorem endpoint_equals_reference_witness:
  "endpoint_queries backtrack_match ''127.0.0.1:80:localhost:1234'' =
     Inr (Host_service ''127.0.0.1'' ''80'', Host_service ''localhost'' ''1234'') \<and>
   endpoint_queries backtrack_match ''::1:80'' = Inl (endpoint_error ''::1:80'')"
  unfolding endpoint_equals_reference [OF backtracking.regex_engine_axioms]
  by (simp add: endpoint_of_parts_def)

text \<open>C38.
  The calls that open a TCP socket, in order: a client binds before the buffers are set and
  then connects, a server sets the buffers before it binds, listens and accepts, so that
  both set them in time. If a size is configured, both the receive and the send buffer get
  it, as the number that is left of it in 32 bits with a sign; it is the configured size
  exactly below 2 GiB.
\<close>

theorem socket_buffers_are_set_first:
  assumes "tcp_open regex_match lookup c = Inr calls"
  shows "\<exists>local remote n.
      (let buffers = (if size_value (windows c) = 0 then [] else [Set_receive_buffer n, Set_send_buffer n])
       in calls = (case mode c of
            CLIENT \<Rightarrow> [Open_for local, Set_reuse_address, Bind local] @ buffers @ [Async_connect remote]
          | SERVER \<Rightarrow> [Open_for remote, Set_reuse_address] @ buffers @ [Bind remote, Listen, Async_accept])) \<and>
      - (2 ^ 31) \<le> n \<and> n < 2 ^ 31 \<and> n mod 2 ^ 32 = uint (size_value (windows c)) mod 2 ^ 32 \<and>
      (n = uint (size_value (windows c)) \<longleftrightarrow> uint (size_value (windows c)) < 2 ^ 31)"
proof -
  obtain e where "calls = (case mode c of CLIENT \<Rightarrow> tcp_connect c e | SERVER \<Rightarrow> tcp_listen c e)"
    using assms by (auto simp: tcp_open_def and_then_Inr_iff)
  then show ?thesis
    using as_int_exact [of "size_value (windows c)"] as_int_range [of "size_value (windows c)"]
    by (intro exI [of _ "fst e"] exI [of _ "snd e"] exI [of _ "as_int (size_value (windows c))"])
      (cases "mode c"; simp add: tcp_connect_def tcp_listen_def setup_windows_def Let_def)
qed

theorem socket_buffers_are_set_first_witness:
  "\<exists>calls. tcp_open backtrack_match Inr
     (zero_configuration\<lparr>endpoint := ''h:1'', windows := \<lparr>size_value = 5 * 2 ^ 30, unit_system = IEC\<rparr>\<rparr>) = Inr calls \<and>
   Set_receive_buffer (2 ^ 30) \<in> set calls \<and> Set_send_buffer (2 ^ 30) \<in> set calls"
proof -
  let ?c = "zero_configuration\<lparr>endpoint := ''h:1'', windows := \<lparr>size_value = 5 * 2 ^ 30, unit_system = IEC\<rparr>\<rparr>"
  have "endpoint_queries backtrack_match ''h:1'' = Inr (Service ''0'', Host_service ''h'' ''1'')"
    unfolding backtracking.endpoint_queries_eq by (simp add: endpoint_of_parts_def)
  then obtain calls where calls: "tcp_open backtrack_match Inr ?c = Inr calls"
    by (simp add: tcp_open_def resolve_def zero_configuration_def)
  have c: "mode ?c = CLIENT" "size_value (windows ?c) \<noteq> 0" "uint (size_value (windows ?c)) mod 2 ^ 32 = 2 ^ 30"
    by (simp_all add: zero_configuration_def)
  obtain local remote n where n: "calls = [Open_for local, Set_reuse_address, Bind local] @
      [Set_receive_buffer n, Set_send_buffer n] @ [Async_connect remote]"
    "- (2 ^ 31) \<le> n" "n < 2 ^ 31" "n mod 2 ^ 32 = 2 ^ 30"
    using socket_buffers_are_set_first [OF calls] c unfolding Let_def by auto
  have "n = 2 ^ 30"
  proof (cases "0 \<le> n")
    case True
    then show ?thesis using n(3,4) mod_pos_pos_trivial [of n "2 ^ 32"] by simp
  next
    case False
    then have "(n + 2 ^ 32) mod 2 ^ 32 = n + 2 ^ 32" using n(2) by (intro mod_pos_pos_trivial) simp_all
    then show ?thesis using n(2,4) by simp
  qed
  with n(1) calls show ?thesis by simp
qed

section \<open>The memory of the handlers\<close>

text \<open>C39.
  The assertion that a memory is free cannot fail, because no allocation marks it: any
  sequence of uses whose blocks fit succeeds, whether or not it keeps to one live block at
  a time, and every allocation gets the same address. That a session's lanes never have two
  operations under way is therefore the only protection against two handlers in one block.
\<close>

theorem handler_memory_never_refuses:
  assumes "list_all (fits address) us" and "ms (memory_ref a) = new_memory address"
  shows "use_memory us a ms = Inr (replicate (allocation_count us) address, ms)"
  using use_memory_free [of ms a us] assms by (simp add: new_memory_def)

theorem handler_memory_never_refuses_witness:
  "use_memory [Allocate 100 1, Allocate 200 1] \<lparr>memory_ref = 0\<rparr> (\<lambda>_. new_memory 7) =
     Inr ([7, 7], \<lambda>_. new_memory 7) \<and> \<not> disciplined False [Allocate 100 1, Allocate 200 1]"
  using handler_memory_never_refuses
    [of 7 "[Allocate 100 1, Allocate 200 1]" "\<lambda>_. new_memory 7" "\<lparr>memory_ref = 0\<rparr>"]
  by (simp add: storage_size_def)

section \<open>Printed sizes\<close>

text \<open>C26.
  The text of a size below 2 EiB ends with its exact number of bits. Before it stands the
  same amount in the largest unit of its system that it reaches, chosen correctly although
  the divisions of \<open>long double\<close> round, as a number with one decimal digit that is the true
  quotient rounded to a tenth, up to 2^-50. The assumption is the contract of an extended
  format of 64 significant bits. Rounding to a tenth can show the factor itself, as in
  \<open>1000.0kbit\<close> for 999960 bits.
\<close>

theorem printed_size_is_nearest:
  assumes "long_double ops number" and "unat (size_value z) < 2 ^ 61"
  shows "let factor = (if unit_system z = SI then 1000 else 1024); bits = 8 * unat (size_value z)
    in \<exists>i t. i < 7 \<and>
      print_Size ops z = show_nat (t div 10) @ ''.'' @ show_nat (t mod 10) @
        (if unit_system z = SI then units_si else units_iec) ! i @ ''('' @ show_nat bits @ ''bit)'' \<and>
      (0 < i \<longrightarrow> factor ^ i \<le> bits) \<and> (i < 6 \<longrightarrow> bits < factor ^ Suc i) \<and>
      \<bar>of_nat t / 10 - of_nat bits / of_nat factor ^ i\<bar> \<le> (1 / 20 + 1 / 2 ^ 50 :: rat)"
  unfolding Let_def by (rule long_double.print_Size_near [OF assms])

theorem printed_size_is_nearest_witness:
  "\<exists>t. print_Size extended \<lparr>size_value = 1500000, unit_system = SI\<rparr> =
     show_nat (t div 10) @ ''.'' @ show_nat (t mod 10) @ ''Mbit('' @ show_nat 12000000 @ ''bit)'' \<and>
     \<bar>of_nat t / 10 - 12\<bar> \<le> (1 / 20 + 1 / 2 ^ 50 :: rat)"
proof -
  obtain i t where i: "i < 7" "0 < i \<longrightarrow> (1000 :: nat) ^ i \<le> 12000000" "i < 6 \<longrightarrow> 12000000 < (1000 :: nat) ^ Suc i"
    and t: "print_Size extended \<lparr>size_value = 1500000, unit_system = SI\<rparr> =
       show_nat (t div 10) @ ''.'' @ show_nat (t mod 10) @ units_si ! i @ ''('' @ show_nat 12000000 @ ''bit)''"
      "\<bar>of_nat t / 10 - 12000000 / 1000 ^ i\<bar> \<le> (1 / 20 + 1 / 2 ^ 50 :: rat)"
    using printed_size_is_nearest [OF extended.long_double_axioms, of "\<lparr>size_value = 1500000, unit_system = SI\<rparr>"]
    by (auto simp: Let_def)
  have "i \<in> {0, 1, 2, 3, 4, 5, 6}" using i(1) by auto
  then have "i = 2" using i(2,3) by auto
  then show ?thesis using t by (auto simp: units_si_def)
qed

text \<open>The factor itself can be shown; and from 2 EiB on the number of bits wraps.\<close>

lemma printed_size_shows_factor:
  assumes "long_double ops number"
  shows "print_Size ops \<lparr>size_value = 124995, unit_system = SI\<rparr> = ''1000.0kbit(999960bit)''"
proof -
  obtain i t where i: "i < 7" "0 < i \<longrightarrow> (1000 :: nat) ^ i \<le> 999960" "i < 6 \<longrightarrow> 999960 < (1000 :: nat) ^ Suc i"
    and t: "print_Size ops \<lparr>size_value = 124995, unit_system = SI\<rparr> =
       show_nat (t div 10) @ ''.'' @ show_nat (t mod 10) @ units_si ! i @ ''('' @ show_nat 999960 @ ''bit)''"
      "\<bar>of_nat t / 10 - 999960 / 1000 ^ i\<bar> \<le> (1 / 20 + 1 / 2 ^ 50 :: rat)"
    using long_double.print_Size_near [OF assms, of "\<lparr>size_value = 124995, unit_system = SI\<rparr>"] by auto
  have "i \<in> {0, 1, 2, 3, 4, 5, 6}" using i(1) by auto
  then have 1: "i = 1" using i(2,3) by auto
  have "of_nat t / 10 - 999960 / 1000 \<le> (1 / 20 + 1 / 2 ^ 50 :: rat)"
    "- (of_nat t / 10 - 999960 / 1000) \<le> (1 / 20 + 1 / 2 ^ 50 :: rat)"
    using t(2) unfolding 1 power_one_right by (simp_all only: abs_le_iff)
  then have "(9999 :: rat) < of_nat t" "of_nat t < (10001 :: rat)" by simp_all
  then have "t = 10000" by simp
  moreover have "digit_char 0 = CHR ''0''" "digit_char 1 = CHR ''1''" "digit_char 6 = CHR ''6''" "digit_char 9 = CHR ''9''"
    by code_simp+
  then have "show_nat 1000 = ''1000''" "show_nat 0 = ''0''" "show_nat 999960 = ''999960''"
    by (simp_all add: show_nat.simps)
  ultimately show ?thesis using t(1) 1 by (simp add: units_si_def)
qed

lemma printed_size_wraps:
  "print_Size extended \<lparr>size_value = 2 ^ 61, unit_system = IEC\<rparr> = ''0.0bit(0bit)''"
proof -
  have "show_nat 0 = ''0''" by code_simp
  then show ?thesis by (simp add: print_Size_def extended_def units_iec_def round_64_0)
qed

end
