(* ===== verification/Peer_Progress.thy ===== *)
theory Peer_Progress
  imports Peer_Safety
begin

text \<open>
  Two matching sessions do not deadlock, unless each waits for the other one to shut down
  first: as long as they have not both closed, some handler of one of them can run, if need
  be after its clock has advanced. Since the number of handlers is bounded, they complete.
\<close>

section \<open>Who can move\<close>

fun quiet_performs :: "action list \<Rightarrow> Session \<Rightarrow> Session \<Rightarrow> Session option" where
  "quiet_performs [] s p = Some s"
| "quiet_performs (a # as) s p =
     (if undisturbed s p a
      then (case perform a s of None \<Rightarrow> None | Some s' \<Rightarrow> quiet_performs as s' p)
      else None)"

definition can_move :: "Session \<Rightarrow> Session \<Rightarrow> bool" where
  "can_move s p \<longleftrightarrow>
     (\<exists>as i ev s'. quiet_performs (as @ [Run i ev]) s p = Some s' \<and> list_all (\<lambda>a. \<not> runs_handler a) as)"

lemma delivers_cong:
  "socket t = socket s \<Longrightarrow> send_buffer t = send_buffer s \<Longrightarrow> delivers t p (completed op) ev = delivers s p op ev"
  by (cases "(s, p, op, ev)" rule: delivers.cases) simp_all

text \<open>An operation that waits can end once the clocks are late enough, and its handler can run.\<close>

lemma waiting_moves:
  assumes i: "i < length (pending s)" and alive: "crashed s = None" and pr: "protocol (configuration s) = TCP"
    and waits: "progress_of (pending s ! i) = Waiting"
    and kind: "\<And>q. pending s ! i \<noteq> Wait_signal q" "\<And>q. pending s ! i \<noteq> Wait_timeout q"
    and ev: "allowed TCP (completed (pending s ! i)) ev" "delivers s p (pending s ! i) ev"
  shows "can_move s p"
proof -
  define t where "t = max (steady_time s) (max (expiry (receive_throttle s)) (expiry (send_throttle s)))"
  define s1 where "s1 = s\<lparr>universal_time := universal_time s, steady_time := t\<rparr>"
  have fields: "pending s1 = pending s" "crashed s1 = None" "socket s1 = socket s" "send_buffer s1 = send_buffer s"
    "configuration s1 = configuration s" "steady_time s1 = t" "receive_throttle s1 = receive_throttle s"
    "send_throttle s1 = send_throttle s"
    by (simp_all add: s1_def alive)
  have "perform (Clock (universal_time s) t) s = Some s1" by (simp add: t_def s1_def)
  moreover have "may_complete s1 (pending s ! i)"
    using kind(2) by (cases "pending s ! i") (auto simp: fields t_def)
  then have "perform (End i) s1 = Some (end_wait i s1)" using i waits by (simp add: fields)
  moreover have "undisturbed s1 p (End i)" using kind by (simp add: fields split: operation.split)
  moreover have op: "pending (end_wait i s1) ! i = completed (pending s ! i)" "i < length (pending (end_wait i s1))"
    "crashed (end_wait i s1) = None" "configuration (end_wait i s1) = configuration s"
    using i by (simp_all add: end_wait_def fields)
  have "perform (Run i ev) (end_wait i s1) = Some (run_handler i ev (end_wait i s1))"
    using ev(1) pr i by (simp add: op fields)
  moreover have "undisturbed (end_wait i s1) p (Run i ev)"
    using ev(2) delivers_cong [of "end_wait i s1" s p "pending s ! i" ev] op(1)
    by (simp add: fields end_wait_def)
  ultimately have "quiet_performs ([Clock (universal_time s) t, End i] @ [Run i ev]) s p =
      Some (run_handler i ev (end_wait i s1))" by simp
  moreover have "list_all (\<lambda>a. \<not> runs_handler a) [Clock (universal_time s) t, End i]" by simp
  ultimately show ?thesis unfolding can_move_def by blast
qed

lemma ready_moves:
  assumes "i < length (pending s)" and "crashed s = None" and "protocol (configuration s) = TCP"
    and "allowed TCP (pending s ! i) ev" and "delivers s p (pending s ! i) ev"
  shows "can_move s p"
proof -
  have "quiet_performs ([] @ [Run i ev]) s p = Some (run_handler i ev s)"
    "list_all (\<lambda>a. \<not> runs_handler a) []"
    using assms by simp_all
  then show ?thesis unfolding can_move_def by blast
qed

lemma operation_moves:
  assumes op: "op \<in> set (pending s)" and alive: "crashed s = None" and pr: "protocol (configuration s) = TCP"
    and kind: "\<And>q. op \<noteq> Wait_signal q" "\<And>q. op \<noteq> Wait_timeout q"
    and ev: "progress_of op \<noteq> Cancelled" "allowed TCP (completed op) ev" "delivers s p op ev"
  shows "can_move s p"
proof -
  obtain i where i: "i < length (pending s)" "pending s ! i = op" using op by (auto simp: in_set_conv_nth)
  show ?thesis
  proof (cases "progress_of op")
    case Waiting
    then show ?thesis using waiting_moves [OF i(1) alive pr, of ev p] i(2) kind ev by simp
  next
    case Completed
    then have "completed op = op" by (cases op) simp_all
    then show ?thesis using ready_moves [OF i(1) alive pr, of ev p] i(2) ev by simp
  qed (use ev in simp)
qed

section \<open>Each kind of operation\<close>

lemma start_moves:
  assumes ok: "linked s p" and start: "start_ops s \<noteq> []"
  shows "can_move s p"
proof -
  note alive = half_alive [OF ok]
  obtain op where "op \<in> set (start_ops s)" using start by (cases "start_ops s") auto
  then obtain q where op: "Connect q \<in> set (pending s)"
    using alive(2) by (auto simp: start_ops_def starts_iff)
  show ?thesis
  proof (cases "q = Cancelled")
    case False
    then show ?thesis
      using operation_moves [OF op alive(1,2), where ev = "Done No_error"] by (simp add: allowed_def)
  next
    case True
    obtain i where i: "i < length (pending s)" "pending s ! i = Connect Cancelled"
      using op True by (auto simp: in_set_conv_nth)
    then show ?thesis
      using ready_moves [OF i(1) alive(1,2), of "Done Operation_aborted"] by (simp add: allowed_def)
  qed
qed

lemma tx_moves:
  assumes ok: "linked s p" and tx: "tx_ops s \<noteq> []"
  shows "can_move s p"
proof -
  note alive = half_alive [OF ok] and streams = half_streams [OF half_alive(4) [OF ok]]
  have member: "op \<in> set (pending s)" if "tx_ops s = [op]" for op
  proof -
    have "op \<in> set (tx_ops s)" using that by simp
    then show ?thesis by (simp add: tx_ops_def)
  qed
  show ?thesis
    using alive(3)
  proof (cases rule: tx_lane_split)
    case (slice q)
    then show ?thesis
      using operation_moves [OF member alive(1,2), of "Wait_send_slice q" "Done No_error" p]
      by (simp add: allowed_def tx_op_ok_def)
  next
    case (send q left offset n)
    have "prefix (received_stream (socket p)) (available s)" using alive(5) by (simp add: half_ok_def)
    then have "delivers s p (Send q left offset n) (Wrote No_error n)"
      using send(2) by (simp add: available_def under_way_tx)
    then show ?thesis
      using operation_moves [OF member alive(1,2), of "Send q left offset n" "Wrote No_error n" p] send
      by (simp add: allowed_def tx_op_ok_def)
  qed (use tx in auto)
qed

lemma tx_complete:
  assumes ok: "linked s p" and "start_ops s = []" and "tx_ops s = []"
  shows "is_send_complete s" and "send_goal s"
  using half_alive(3) [OF ok] half_alive(4) [OF ok] assms(2,3)
  by (auto simp: session_inv_def tx_lane_ok_def half_ok_def split: if_splits)

lemma rx_lane_split:
  assumes ok: "linked s p" and start: "start_ops s = []"
  obtains (complete) "rx_ops s = []" "is_receive_complete s"
    | (slice) q where "rx_ops s = [Wait_receive_slice q]" "rx_op_ok s (Wait_receive_slice q)"
    | (receive) q left n where "rx_ops s = [Receive q left n]" "rx_op_ok s (Receive q left n)"
    | (eof) q where "rx_ops s = [Receive_eof q]" "rx_op_ok s (Receive_eof q)" "\<not> is_receive_complete s"
proof -
  have lane: "rx_lane_ok s" and fine: "\<not> is_failure (session_failure s)"
    using half_alive(3,4) [OF ok] start by (simp_all add: session_inv_def half_ok_def)
  show thesis
  proof (cases "rx_ops s")
    case Nil
    then show thesis using lane fine complete by (auto simp: rx_lane_ok_def split: if_splits)
  next
    case (Cons op ops)
    then have "ops = []" "rx_op_ok s op" "\<not> is_receive_complete s" using lane by (auto simp: rx_lane_ok_def)
    then show thesis using Cons slice receive eof by (cases op) (auto simp: rx_op_ok_def)
  qed
qed

lemma rx_member: "rx_ops s = [op] \<Longrightarrow> op \<in> set (pending s)"
proof -
  assume "rx_ops s = [op]"
  then have "op \<in> set (rx_ops s)" by simp
  then show ?thesis by (simp add: rx_ops_def)
qed

lemma slice_moves:
  assumes ok: "linked s p" and "rx_ops s = [Wait_receive_slice q]" and "rx_op_ok s (Wait_receive_slice q)"
  shows "can_move s p"
  using operation_moves [OF rx_member [OF assms(2)] half_alive(1,2) [OF ok], of "Done No_error" p] assms(3)
  by (simp add: allowed_def rx_op_ok_def)

text \<open>Once the peer has sent everything, there is something to receive.\<close>

lemma receive_moves:
  assumes ok: "linked s p" and rx: "rx_ops s = [Receive q left n]" and op: "rx_op_ok s (Receive q left n)"
    and peer: "send_goal p"
  shows "can_move s p"
proof -
  note alive = half_alive [OF ok]
  obtain m where m: "available p = ramp 0 m" using available_ramp [OF alive(5)] by blast
  have lt: "received s < goal s" and dir: "direction (configuration s) \<noteq> TX"
    and n: "n = min BUFFER_SIZE left" "left \<noteq> 0" and q: "q \<noteq> Cancelled"
    using op by (auto simp: rx_op_ok_def)
  have "sent p = goal s"
    using peer dir matching_directions(1) [OF ok] matching_goal [OF ok] by (auto simp: send_goal_def)
  moreover have "prefix (sent_stream (socket p)) (available p)" by (simp add: available_def)
  ultimately have "unat (goal s) \<le> m"
    using half_streams(1) [OF alive(5)] m prefix_ramp [of "sent_stream (socket p)" m] by simp
  then have more: "unat (received s) < m" using lt by (simp add: word_less_nat_alt)
  let ?b = "word_of_nat (unat (received s)) :: u8"
  have "received_stream (socket s) @ [?b] = ramp 0 (Suc (unat (received s)))"
    using half_received(1) [OF alive(4,5)] by (simp add: ramp_def)
  then have "prefix (received_stream (socket s) @ [?b]) (available p)"
    using m more prefix_ramp [of "ramp 0 (Suc (unat (received s)))" m] by simp
  then have "delivers s p (Receive q left n) (Got No_error [?b])" by simp
  moreover have "n \<noteq> 0" using n by (simp add: min_def BUFFER_SIZE_value)
  then have "1 \<le> unat n" by (simp add: unat_gt_0 Suc_le_eq)
  ultimately show ?thesis
    using operation_moves [OF rx_member [OF rx] alive(1,2), of "Got No_error [?b]" p] q by (simp add: allowed_def)
qed

lemma eof_moves:
  assumes ok: "linked s p" and rx: "rx_ops s = [Receive_eof q]" and op: "rx_op_ok s (Receive_eof q)"
    and ended: "stream_ended p"
  shows "can_move s p"
proof -
  note alive = half_alive [OF ok]
  have "prefix (sent_stream (socket p)) (received_stream (socket s))"
  proof (cases "direction (configuration s) = TX")
    case True
    then show ?thesis using matching_directions(1) [OF ok] alive(5) by (simp add: half_ok_def)
  next
    case False
    then have "goal s \<le> received s" using op by (auto simp: rx_op_ok_def receive_goal_def)
    then have "unat (sent p) \<le> unat (received s)"
      using half_streams(2) [OF alive(5)] matching_goal [OF ok] by (simp add: word_le_nat_alt)
    then show ?thesis
      using half_streams(1) [OF alive(5)] half_received(1) [OF alive(4,5)] prefix_ramp by simp
  qed
  then have "delivers s p (Receive_eof q) (Got Eof [])" using ended by simp
  then show ?thesis
    using operation_moves [OF rx_member [OF rx] alive(1,2), of "Got Eof []" p] op
    by (simp add: allowed_def rx_op_ok_def)
qed

section \<open>No deadlock\<close>

lemma eof_peer_moves:
  assumes ok: "linked s p" and wait: "\<not> both_wait (configuration s) (configuration p)"
    and start: "start_ops s = []" "start_ops p = []" and tx: "tx_ops s = []" "tx_ops p = []"
    and s: "rx_ops s = [Receive_eof q]" "rx_op_ok s (Receive_eof q)"
    and p: "is_receive_complete p \<or> (\<exists>q. rx_ops p = [Receive_eof q] \<and> rx_op_ok p (Receive_eof q))"
  shows "can_move s p \<or> can_move p s"
proof (cases "stream_ended p")
  case True
  then show ?thesis using eof_moves [OF ok s] by simp
next
  case False
  note sym = linked_sym [OF ok]
  have eof: "awaits_eof t" if "rx_ops t = [Receive_eof r]" for t r
    using rx_member [OF that] by (auto simp: awaits_eof_def list_ex_iff intro!: bexI [of _ "Receive_eof r"])
  have "\<not> shutdown_due p"
    using False half_alive(5) [OF ok] by (auto simp: half_ok_def punctual_def stream_ended_def)
  then have wp: "shutdown_policy (configuration p) = WAIT_FOR_PEER" "\<not> is_receive_complete p"
    using tx_complete(1) [OF sym start(2) tx(2)] p eof
    by (auto simp: shutdown_due_def split: ShutdownPolicy.splits)
  then obtain r where r: "rx_ops p = [Receive_eof r]" "rx_op_ok p (Receive_eof r)" using p by blast
  have "shutdown_due s"
    using wait wp(1) tx_complete(1) [OF ok start(1) tx(1)] eof [OF s(1)]
    by (auto simp: shutdown_due_def both_wait_def split: ShutdownPolicy.splits)
  then have "stream_ended s" using half_alive(4) [OF ok] by (simp add: half_ok_def punctual_def stream_ended_def)
  then show ?thesis using eof_moves [OF sym r] by simp
qed

lemma no_deadlock:
  assumes ok: "linked s p" and wait: "\<not> both_wait (configuration s) (configuration p)"
    and unfinished: "\<not> (closed (socket s) \<and> closed (socket p))"
  shows "can_move s p \<or> can_move p s"
proof (rule ccontr)
  assume stuck: "\<not> (can_move s p \<or> can_move p s)"
  note sym = linked_sym [OF ok]
  have start: "start_ops s = []" "start_ops p = []" using start_moves [OF ok] start_moves [OF sym] stuck by auto
  have tx: "tx_ops s = []" "tx_ops p = []" using tx_moves [OF ok] tx_moves [OF sym] stuck by auto
  note sent = tx_complete [OF ok start(1) tx(1)] tx_complete [OF sym start(2) tx(2)]
  have s: "is_receive_complete s \<or> (\<exists>q. rx_ops s = [Receive_eof q] \<and> rx_op_ok s (Receive_eof q))"
    using ok start(1)
  proof (cases rule: rx_lane_split)
    case (slice q)
    then show ?thesis using slice_moves [OF ok] stuck by blast
  next
    case (receive q left n)
    then show ?thesis using receive_moves [OF ok receive sent(4)] stuck by blast
  qed auto
  have p: "is_receive_complete p \<or> (\<exists>q. rx_ops p = [Receive_eof q] \<and> rx_op_ok p (Receive_eof q))"
    using sym start(2)
  proof (cases rule: rx_lane_split)
    case (slice q)
    then show ?thesis using slice_moves [OF sym] stuck by blast
  next
    case (receive q left n)
    then show ?thesis using receive_moves [OF sym receive sent(2)] stuck by blast
  qed auto
  have "\<not> (\<exists>q. rx_ops s = [Receive_eof q] \<and> rx_op_ok s (Receive_eof q))"
    using eof_peer_moves [OF ok wait start tx _ _ p] stuck by blast
  moreover have "\<not> (\<exists>q. rx_ops p = [Receive_eof q] \<and> rx_op_ok p (Receive_eof q))"
    using eof_peer_moves [OF sym _ start(2,1) tx(2,1) _ _ s] wait both_wait_sym stuck by blast
  ultimately have "is_receive_complete s" "is_receive_complete p" using s p by blast+
  then have "closed (socket s)" "closed (socket p)"
    using sent half_base [OF half_alive(4) [OF ok]] half_base [OF half_alive(5) [OF ok]]
    by (simp_all add: base_ok_def closing_ok_def)
  with unfinished show False by simp
qed

section \<open>Completion\<close>

lemma quiet_lift_left:
  "quiet_performs as s p = Some s' \<Longrightarrow> pair_performs (map (Pair Left_peer) as) (s, p) = Some (s', p)"
  by (induction as s p rule: quiet_performs.induct) (auto split: if_split_asm option.splits)

lemma quiet_lift_right:
  "quiet_performs as p s = Some p' \<Longrightarrow> pair_performs (map (Pair Right_peer) as) (s, p) = Some (s, p')"
  by (induction as p s rule: quiet_performs.induct) (auto split: if_split_asm option.splits)

lemma pair_performs_append:
  "pair_performs (xs @ ys) sp = (case pair_performs xs sp of None \<Rightarrow> None | Some t \<Rightarrow> pair_performs ys t)"
  by (induction xs sp rule: pair_performs.induct) (simp_all split: option.split)

definition throttles_ok :: "Session \<Rightarrow> bool" where
  "throttles_ok s \<longleftrightarrow> slices_ok s \<and> receive_slices_ok s \<and> nonempty_slices (configuration s)"

lemma throttles_step:
  assumes "session_inv s" and "throttles_ok s" and "perform a s = Some s'"
  shows "throttles_ok s'"
  using assms perform_inv [OF assms(1,3)] tx_view_slices [OF perform_view [OF assms(1,3)]]
    rx_view_slices [OF perform_rx_view [OF assms(1,3)]]
  by (simp add: throttles_ok_def)

lemma throttles_work:
  assumes "session_inv s" and "throttles_ok s" and "protocol (configuration s) = TCP" and "perform a s = Some s'"
  shows "session_work s' + (if runs_handler a then 1 else 0) \<le> session_work s"
  using perform_work [OF assms(1) _ _ _ assms(3,4)] assms(2) by (simp add: throttles_ok_def)

definition pair_work :: "Session \<times> Session \<Rightarrow> nat" where
  "pair_work sp = session_work (fst sp) + session_work (snd sp)"

lemma pair_perform_work:
  assumes ok: "pair_ok (fst sp) (snd sp)" and thr: "throttles_ok (fst sp)" "throttles_ok (snd sp)"
    and act: "pair_perform x sp = Some sp'"
  shows "pair_work sp' + (if runs_handler (snd x) then 1 else 0) \<le> pair_work sp"
    and "throttles_ok (fst sp')" and "throttles_ok (snd sp')"
proof -
  note alive = half_alive [OF pair_linked [OF ok]] half_alive [OF linked_sym [OF pair_linked [OF ok]]]
  have "pair_work sp' + (if runs_handler (snd x) then 1 else 0) \<le> pair_work sp \<and>
    throttles_ok (fst sp') \<and> throttles_ok (snd sp')"
    using act
  proof (cases rule: pair_perform_split)
    case (left a s p s')
    then show ?thesis
      using thr alive throttles_work [of s a s'] throttles_step [of s a s'] by (simp add: pair_work_def)
  next
    case (right a s p p')
    then show ?thesis
      using thr alive throttles_work [of p a p'] throttles_step [of p a p'] by (simp add: pair_work_def)
  qed
  then show "pair_work sp' + (if runs_handler (snd x) then 1 else 0) \<le> pair_work sp"
    "throttles_ok (fst sp')" "throttles_ok (snd sp')" by simp_all
qed

definition pair_handlers :: "(side \<times> action) list \<Rightarrow> nat" where
  "pair_handlers xs = length (filter (\<lambda>x. runs_handler (snd x)) xs)"

lemma pair_performs_work:
  assumes "pair_ok (fst sp) (snd sp)" and "throttles_ok (fst sp)" "throttles_ok (snd sp)"
    and "pair_performs xs sp = Some sp'"
  shows "pair_handlers xs + pair_work sp' \<le> pair_work sp \<and> throttles_ok (fst sp') \<and> throttles_ok (snd sp')"
  using assms
proof (induction xs sp rule: pair_performs.induct)
  case (2 x xs sp)
  then obtain t where t: "pair_perform x sp = Some t" "pair_performs xs t = Some sp'"
    by (auto split: option.splits)
  note work = pair_perform_work [OF 2(2-4) t(1)]
  then have "pair_handlers xs + pair_work sp' \<le> pair_work t \<and> throttles_ok (fst sp') \<and> throttles_ok (snd sp')"
    using 2(1) [OF t(1)] pair_perform_ok [OF 2(2) t(1)] t(2) by simp
  then show ?case using work(1) by (auto simp: pair_handlers_def split: if_splits)
qed (simp add: pair_handlers_def)

lemma can_move_pair:
  assumes "can_move s p \<or> can_move p s"
  obtains xs sp' where "pair_performs xs (s, p) = Some sp'" "pair_handlers xs \<noteq> 0"
proof -
  have count: "pair_handlers (map (Pair side) as) = length (filter runs_handler as)" for side as
    by (induction as) (simp_all add: pair_handlers_def)
  have runs: "pair_handlers (map (Pair side) (as @ [Run i ev])) \<noteq> 0" for side as i ev
    unfolding count by simp
  from assms show thesis
  proof
    assume "can_move s p"
    then show thesis unfolding can_move_def using quiet_lift_left that runs by blast
  next
    assume "can_move p s"
    then show thesis unfolding can_move_def using quiet_lift_right that runs by blast
  qed
qed

text \<open>
  As long as something can move, the pair comes to what it lacks: every move spends some of
  the work that is left.
\<close>

lemma pair_reaches:
  assumes "pair_ok (fst sp) (snd sp)" and "throttles_ok (fst sp)" "throttles_ok (snd sp)"
    and kept: "\<And>sp xs sp'. I sp \<Longrightarrow> pair_ok (fst sp) (snd sp) \<Longrightarrow> pair_performs xs sp = Some sp' \<Longrightarrow> I sp'"
    and moves: "\<And>sp. I sp \<Longrightarrow> pair_ok (fst sp) (snd sp) \<Longrightarrow> \<not> G sp \<Longrightarrow>
      can_move (fst sp) (snd sp) \<or> can_move (snd sp) (fst sp)"
    and "I sp"
  shows "\<exists>xs sp'. pair_performs xs sp = Some sp' \<and> G sp'"
  using assms(1-3,6)
proof (induction "pair_work sp" arbitrary: sp rule: less_induct)
  case less
  show ?case
  proof (cases "G sp")
    case True
    then have "pair_performs [] sp = Some sp \<and> G sp" by simp
    then show ?thesis by blast
  next
    case False
    obtain xs t where t: "pair_performs xs sp = Some t" "pair_handlers xs \<noteq> 0"
      using can_move_pair [OF moves [OF less(5,2) False]] by auto
    note work = pair_performs_work [OF less(2-4) t(1)]
    have smaller: "pair_work t < pair_work sp" using work t(2) by simp
    have ok: "pair_ok (fst t) (snd t)" using pair_performs_ok [OF less(2) t(1)] .
    obtain ys sp' where "pair_performs ys t = Some sp'" "G sp'"
      using less(1) [OF smaller ok] work kept [OF less(5,2) t(1)] by blast
    then have "pair_performs (xs @ ys) sp = Some sp' \<and> G sp'"
      using t(1) by (simp add: pair_performs_append)
    then show ?thesis by blast
  qed
qed

lemma completes:
  assumes "pair_ok (fst sp) (snd sp)" and "throttles_ok (fst sp)" "throttles_ok (snd sp)"
    and "\<not> both_wait (configuration (fst sp)) (configuration (snd sp))"
  shows "\<exists>xs sp'. pair_performs xs sp = Some sp' \<and> closed (socket (fst sp')) \<and> closed (socket (snd sp'))"
proof (rule pair_reaches [OF assms(1-3), where I = "\<lambda>sp. \<not> both_wait (configuration (fst sp)) (configuration (snd sp))"])
  fix sp xs sp'
  assume "\<not> both_wait (configuration (fst sp)) (configuration (snd sp))" and "pair_ok (fst sp) (snd sp)"
    and "pair_performs xs sp = Some sp'"
  then show "\<not> both_wait (configuration (fst sp')) (configuration (snd sp'))"
    using pair_performs_configuration by metis
next
  fix sp
  assume "\<not> both_wait (configuration (fst sp)) (configuration (snd sp))" and "pair_ok (fst sp) (snd sp)"
    and "\<not> (closed (socket (fst sp)) \<and> closed (socket (snd sp)))"
  then show "can_move (fst sp) (snd sp) \<or> can_move (snd sp) (fst sp)"
    using no_deadlock pair_linked by blast
qed (rule assms(4))

text \<open>What holds of every pair that two matching sessions can come to.\<close>

lemma pair_reachable_throttles:
  assumes match: "matching c d" and slices: "nonempty_slices c" "nonempty_slices d" and reach: "pair_reachable c d sp"
  shows "throttles_ok (fst sp)" and "throttles_ok (snd sp)"
  using reachable_slices [of c "fst sp"] reachable_slices [of d "snd sp"] reachable_receive_slices [of c "fst sp"]
    reachable_receive_slices [of d "snd sp"] pair_reachable_each [OF match reach] match slices
    pair_reachable_ok(2,3) [OF match reach]
  by (simp_all add: throttles_ok_def matching_def)

lemma pair_reachable_work:
  assumes match: "matching c d" and reach: "pair_reachable c d sp"
  shows "pair_work sp \<le> 8 * unat (size_value (total_size c)) + 14"
  using reachable_work [of c "fst sp"] reachable_work [of d "snd sp"] pair_reachable_each [OF match reach] match
  by (simp add: pair_work_def matching_def)

end
