(* ===== verification/Echo_Peer.thy ===== *)
theory Echo_Peer
  imports Peer_Progress
begin

text \<open>
  A two-way TCP session whose peer echoes: it sends back what it receives, and ends its
  stream when the session has ended its own, as the peer of \<open>tests/TestNetTester.cpp\<close> does.
  The network is as in \<open>Peers\<close>. Such a peer is the session's own image, so that the lemmas
  on linked sessions apply to the session and itself. They hold for every shutdown policy:
  what comes back from an echo has been sent before, so that even \<open>receive_complete\<close> shuts
  down a stream only after its last byte.
\<close>

section \<open>Safety\<close>

fun echo_performs :: "action list \<Rightarrow> Session \<Rightarrow> Session option" where
  "echo_performs [] s = Some s"
| "echo_performs (a # as) s =
     (if undisturbed s s a
      then (case perform a s of None \<Rightarrow> None | Some s' \<Rightarrow> echo_performs as s')
      else None)"

definition echo_reachable :: "SessionConfiguration \<Rightarrow> Session \<Rightarrow> bool" where
  "echo_reachable c s \<longleftrightarrow> (\<exists>s0 as. created c s0 \<and> echo_performs as s0 = Some s)"

definition echo_ok :: "Session \<Rightarrow> bool" where
  "echo_ok s \<longleftrightarrow> echoed (configuration s) \<and> half_ok s s"

lemma echo_linked: "echo_ok s \<Longrightarrow> linked s s"
  by (simp add: echo_ok_def linked_def)

lemma added_lane:
  assumes "added a s \<noteq> []"
  obtains i ev where "a = Run i ev" "\<not> is_tx (pending s ! i)"
proof -
  obtain i ev where a: "a = Run i ev" using assms by (cases a) (simp_all add: added_def)
  moreover have "\<not> is_tx (pending s ! i)"
    using assms a by (cases "pending s ! i") (simp_all add: added_def)
  ultimately show thesis using that by blast
qed

text \<open>What has been received stays within what is available, although both change.\<close>

lemma echo_available:
  assumes ok: "echo_ok s" and quiet: "undisturbed s s a" and act: "perform a s = Some s'"
  shows "prefix (received_stream (socket s')) (available s')"
proof -
  note linked = echo_linked [OF ok]
  note inv = half_alive(3) [OF linked] and streams = perform_streams(1) [OF act half_alive(2) [OF linked]]
  note inv' = perform_inv [OF inv act, THEN conjunct1]
  show ?thesis
  proof (cases "added a s = []")
    case True
    then show ?thesis using available_kept [OF linked quiet act] streams by simp
  next
    case False
    then obtain i ev where a: "a = Run i ev" "\<not> is_tx (pending s ! i)" by (rule added_lane)
    note new = added_available [OF linked quiet act]
    have run: "pending s ! i \<in> set (pending s)" using perform_run(2) [OF act [unfolded a(1)] half_alive(2) [OF linked]] .
    have "available s' = available s"
      using perform_view [OF inv act]
    proof cases
      case started
      then have "available s = []" using inv fresh_available [OF inv] by (simp add: session_inv_def)
      then show ?thesis using new False by simp
    next
      case (moved op t)
      then show ?thesis using a run by simp
    qed (use a in \<open>auto intro!: available_same [OF inv inv'] simp: tx_kept_def\<close>)
    then show ?thesis using new streams by simp
  qed
qed

lemma echo_step:
  assumes ok: "echo_ok s" and quiet: "undisturbed s s a" and act: "perform a s = Some s'"
  shows "echo_ok s'"
proof -
  note linked = echo_linked [OF ok]
  note inv' = perform_inv [OF half_alive(3) [OF linked] act]
  have both: "direction (configuration s) = BOTH" using ok by (simp add: echo_ok_def echoed_def)
  have "shutdown_policy (configuration s) = WAIT_FOR_PEER \<Longrightarrow> \<not> send_shut_down (socket s')"
    using waits_for_peer [OF linked quiet act] by blast
  then have "half_ok s' s'"
    using inv' no_failure [OF linked quiet act] still_punctual [OF linked act] both
      echo_available [OF ok quiet act]
    by (simp add: half_ok_def)
  then show ?thesis using ok inv' by (simp add: echo_ok_def)
qed

lemma echo_performs_ok:
  "echo_ok s \<Longrightarrow> echo_performs as s = Some s' \<Longrightarrow> echo_ok s'"
  by (induction as s rule: echo_performs.induct) (auto split: if_split_asm option.splits dest: echo_step)

lemma echo_performs_performs: "echo_performs as s = Some s' \<Longrightarrow> performs as s = Some s'"
  by (induction as s rule: echo_performs.induct) (auto split: if_split_asm option.splits)

lemma performs_reach: "reachable c s \<Longrightarrow> performs as s = Some s' \<Longrightarrow> reachable c s'"
proof (induction as s rule: performs.induct)
  case (2 a as s)
  then obtain t where t: "perform a s = Some t" "performs as t = Some s'" by (auto split: option.splits)
  show ?case using 2(1) [OF t(1) performs_reachable [OF 2(2) t(1)] t(2)] .
qed simp

lemma echo_reachable_ok:
  assumes "echoed c" and "echo_reachable c s"
  shows "echo_ok s" and "configuration s = c" and "reachable c s"
proof -
  obtain s0 as where new: "created c s0" and run: "echo_performs as s0 = Some s"
    using assms(2) by (auto simp: echo_reachable_def)
  have valid: "valid_configuration c" using assms(1) by (simp add: echoed_def)
  note facts = created_facts [OF valid new]
  have "half_ok s0 s0"
    using facts by (simp add: half_ok_def punctual_def shutdown_due_def new_socket_def split: ShutdownPolicy.splits)
  then have "echo_ok s0" using assms(1) facts(2) by (simp add: echo_ok_def)
  from echo_performs_ok [OF this run] show "echo_ok s" .
  show reach: "reachable c s" using performs_reach [OF facts(9) echo_performs_performs [OF run]] .
  show "configuration s = c" using reachable_inv(2) [OF valid reach] .
qed

lemma echo_faithful:
  assumes "echo_ok s"
  shows "finalize s = No_error" and "mismatches s = []" and "closed (socket s) \<Longrightarrow> transferred s"
proof -
  note half = half_alive(4) [OF echo_linked [OF assms]]
  show "finalize s = No_error" using half by (simp add: half_ok_def finalize_def)
  show "mismatches s = []"
    using half half_base [OF half] by (auto simp: half_ok_def base_ok_def failure_ok_def)
  show "closed (socket s) \<Longrightarrow> transferred s" using half closed_transferred by (simp add: half_ok_def)
qed

section \<open>Completion\<close>

text \<open>The clocks and the ends of operations leave the image of a session as it is.\<close>

lemma delivers_image:
  "socket p = socket q \<Longrightarrow> available p = available q \<Longrightarrow> delivers s p op ev = delivers s q op ev"
  by (cases "(s, p, op, ev)" rule: delivers.cases) (simp_all add: stream_ended_def)

lemma available_not_run:
  assumes "perform a s = Some s'" and "\<not> runs_handler a"
  shows "available s' = available s"
proof -
  have "map (bytes_of b) ((pending s)[i := completed (pending s ! i)]) = map (bytes_of b) (pending s)"
    if "i < length (pending s)" for b i
    using list_update_id [of "map (bytes_of b) (pending s)" i] that by (simp add: map_update)
  then have "available (end_wait i s) = available s" if "i < length (pending s)" for i
    using that by (simp add: available_def under_way_def end_wait_def)
  then show ?thesis
    using assms by (cases a) (auto simp: available_def under_way_def split: if_split_asm)
qed

lemma quiet_echo:
  "quiet_performs (as @ [Run i ev]) s p = Some s' \<Longrightarrow> list_all (\<lambda>a. \<not> runs_handler a) as \<Longrightarrow>
   socket p = socket s \<Longrightarrow> available p = available s \<Longrightarrow> echo_performs (as @ [Run i ev]) s = Some s'"
proof (induction as arbitrary: s)
  case Nil
  then show ?case using delivers_image [of p s s "pending s ! i" ev] by (simp split: if_split_asm)
next
  case (Cons a as)
  then obtain t where t: "perform a s = Some t" "quiet_performs (as @ [Run i ev]) t p = Some s'"
    and quiet: "undisturbed s p a"
    by (auto split: if_split_asm option.splits)
  have "\<not> runs_handler a" using Cons(3) by simp
  then have "\<And>i ev. a \<noteq> Run i ev" and "undisturbed s s a" using quiet by (cases a; simp)+
  moreover have "socket t = socket s" "available t = available s"
    using perform_not_run(1) [OF t(1)] available_not_run [OF t(1)] \<open>\<not> runs_handler a\<close> calculation(1) by simp_all
  ultimately show ?case using Cons t by simp
qed

lemma echo_moves:
  assumes ok: "echo_ok s" and policy: "shutdown_policy (configuration s) \<noteq> WAIT_FOR_PEER"
    and open_yet: "\<not> closed (socket s)"
  obtains as s' where "echo_performs as s = Some s'" "filter runs_handler as \<noteq> []"
proof -
  have "can_move s s"
    using no_deadlock [OF echo_linked [OF ok]] policy open_yet by (auto simp: both_wait_def)
  then obtain as i ev s' where move: "quiet_performs (as @ [Run i ev]) s s = Some s'"
    "list_all (\<lambda>a. \<not> runs_handler a) as"
    by (auto simp: can_move_def)
  then show thesis using that [OF quiet_echo [OF move]] by simp
qed

lemma echo_performs_append:
  "echo_performs (as @ bs) s = (case echo_performs as s of None \<Rightarrow> None | Some t \<Rightarrow> echo_performs bs t)"
  by (induction as s rule: echo_performs.induct) (simp_all split: option.split)

lemma performs_kept:
  "session_inv s \<Longrightarrow> throttles_ok s \<Longrightarrow> performs as s = Some s' \<Longrightarrow>
   throttles_ok s' \<and> configuration s' = configuration s"
proof (induction as s rule: performs.induct)
  case (2 a as s)
  then obtain t where t: "perform a s = Some t" "performs as t = Some s'" by (auto split: option.splits)
  then show ?case using 2(1) [OF t(1)] throttles_step [OF 2(2,3) t(1)] perform_inv [OF 2(2) t(1)] by simp
qed simp

lemma echo_work:
  assumes "echo_ok s" and "throttles_ok s" and "echo_performs as s = Some s'"
  shows "length (filter runs_handler as) + session_work s' \<le> session_work s"
  using session_work_bound [OF half_alive(3) [OF echo_linked [OF assms(1)]] _ _ _ _ echo_performs_performs [OF assms(3)]]
    assms(2) half_alive(2) [OF echo_linked [OF assms(1)]]
  by (simp add: throttles_ok_def)

lemma echo_completes:
  assumes "echo_ok s" and "throttles_ok s" and "shutdown_policy (configuration s) \<noteq> WAIT_FOR_PEER"
  shows "\<exists>as s'. echo_performs as s = Some s' \<and> closed (socket s')"
  using assms
proof (induction "session_work s" arbitrary: s rule: less_induct)
  case less
  show ?case
  proof (cases "closed (socket s)")
    case True
    then have "echo_performs [] s = Some s \<and> closed (socket s)" by simp
    then show ?thesis by blast
  next
    case False
    obtain as t where t: "echo_performs as s = Some t" "filter runs_handler as \<noteq> []"
      by (rule echo_moves [OF less(2,4) False])
    have inv: "session_inv s" using half_alive(3) [OF echo_linked [OF less(2)]] .
    have run: "performs as s = Some t" using echo_performs_performs [OF t(1)] .
    note kept = performs_kept [OF inv less(3) run]
    have smaller: "session_work t < session_work s"
      using echo_work [OF less(2,3) t(1)] t(2) [folded length_greater_0_conv] by linarith
    have "shutdown_policy (configuration t) \<noteq> WAIT_FOR_PEER" using kept less(4) by simp
    from less(1) [OF smaller echo_performs_ok [OF less(2) t(1)] kept [THEN conjunct1] this]
    obtain bs s' where "echo_performs bs t = Some s'" "closed (socket s')" by blast
    then have "echo_performs (as @ bs) s = Some s' \<and> closed (socket s')"
      using t(1) by (simp add: echo_performs_append)
    then show ?thesis by blast
  qed
qed

end
