(* ===== verification/Peer_Claims.thy ===== *)
theory Peer_Claims
  imports Echo_Peer
begin

text \<open>
  The properties of two sessions at the ends of one connection, and of a session whose peer
  echoes: what the program promises when it is run against itself or against an echo server.
\<close>

section \<open>A sample connection\<close>

text \<open>A server at the other end of the client of \<open>Session_Correctness\<close>, with any shutdown policy.\<close>

definition with_policy :: "ShutdownPolicy \<Rightarrow> SessionConfiguration" where
  "with_policy policy = sample_configuration\<lparr>shutdown_policy := policy\<rparr>"

definition peer_with_policy :: "ShutdownPolicy \<Rightarrow> SessionConfiguration" where
  "peer_with_policy policy = sample_configuration\<lparr>mode := SERVER, shutdown_policy := policy\<rparr>"

abbreviation left_does :: "action list \<Rightarrow> (side \<times> action) list" where
  "left_does as \<equiv> map (Pair Left_peer) as"

abbreviation right_does :: "action list \<Rightarrow> (side \<times> action) list" where
  "right_does as \<equiv> map (Pair Right_peer) as"

text \<open>Both start and send their three bytes; then each receives those of the other.\<close>

definition exchange :: "(side \<times> action) list" where
  "exchange =
     left_does sample_start @ right_does sample_start @
     left_does [End 3, Run 3 (Wrote No_error 3)] @ right_does [End 3, Run 3 (Wrote No_error 3)] @
     left_does [End 2, Run 2 (Got No_error [0, 1, 2])] @ right_does [End 2, Run 2 (Got No_error [0, 1, 2])]"

lemma sample_peers:
  assumes "policy \<noteq> RECEIVE_COMPLETE"
  shows "matching (with_policy policy) (peer_with_policy policy)"
  using assms
  by (auto simp: matching_def valid_configuration_def with_policy_def peer_with_policy_def sample_configuration_def)

lemma sample_pair_reachable:
  assumes "create_session (\<lambda>_. 8) 1000000 0 0 (with_policy policy) = Inr s"
    and "create_session (\<lambda>_. 8) 1000000 0 0 (peer_with_policy policy') = Inr p"
    and "pair_performs xs (s, p) = Some sp"
  shows "pair_reachable (with_policy policy) (peer_with_policy policy') sp"
proof -
  have "draws_ok (with_policy policy) (\<lambda>_. 8)" "draws_ok (peer_with_policy policy') (\<lambda>_. 8)"
    using sample_draws by (simp_all add: draws_ok_def with_policy_def peer_with_policy_def)
  then show ?thesis using assms unfolding pair_reachable_def created_def by blast
qed

lemmas pair_simps = run_simps with_policy_def peer_with_policy_def sample_configuration_def sample_start_def
  available_def under_way_def stream_ended_def

lemma first_bytes: "ramp 0 3 = [0, 1, 2]"
  by (simp add: ramp_def upt_rec)

lemma sample_exchange:
  "\<exists>s0 p0 s p. create_session (\<lambda>_. 8) 1000000 0 0 (with_policy policy) = Inr s0 \<and>
     create_session (\<lambda>_. 8) 1000000 0 0 (peer_with_policy policy') = Inr p0 \<and>
     pair_performs exchange (s0, p0) = Some (s, p) \<and>
     received_stream (socket s) = [0, 1, 2] \<and> received_stream (socket p) = [0, 1, 2] \<and>
     sent s = 3 \<and> sent p = 3"
  by (simp add: exchange_def pair_simps filled take_drop_ramp [of 0 3 131072 0, simplified] first_bytes)

section \<open>Matching sessions\<close>

text \<open>C4.
  Two matching sessions at the ends of a faithful connection never fail, in any schedule
  without interruption and timeout: neither reports an error or a mismatch, and each has
  received a beginning of what the other one has sent.
\<close>

theorem matching_sessions_never_fail:
  assumes "matching c d" and "pair_reachable c d (s, p)"
  shows "finalize s = No_error \<and> finalize p = No_error \<and> mismatches s = [] \<and> mismatches p = [] \<and>
    prefix (received_stream (socket s)) (available p) \<and> prefix (received_stream (socket p)) (available s) \<and>
    available s = ramp 0 (length (available s)) \<and> available p = ramp 0 (length (available p))"
proof -
  have "pair_ok s p" using pair_reachable_ok(1) [OF assms] by simp
  then have half: "half_ok s p" "half_ok p s" by (simp_all add: pair_ok_def)
  have "mismatches s = []" "mismatches p = []"
    using half half_base [OF half(1)] half_base [OF half(2)]
    by (auto simp: half_ok_def base_ok_def failure_ok_def)
  moreover obtain m n where "available s = ramp 0 m" "available p = ramp 0 n"
    using available_ramp [OF half(1)] available_ramp [OF half(2)] by metis
  ultimately show ?thesis using half by (simp add: half_ok_def finalize_def)
qed

theorem matching_sessions_never_fail_witness:
  "\<exists>s p. pair_reachable (with_policy SEND_COMPLETE) (peer_with_policy SEND_COMPLETE) (s, p) \<and>
     received_stream (socket s) = [0, 1, 2] \<and> finalize s = No_error \<and> finalize p = No_error"
proof -
  obtain s p where "pair_reachable (with_policy SEND_COMPLETE) (peer_with_policy SEND_COMPLETE) (s, p)"
    "received_stream (socket s) = [0, 1, 2]"
    using sample_exchange [of SEND_COMPLETE SEND_COMPLETE] sample_pair_reachable by blast
  then show ?thesis using matching_sessions_never_fail [OF sample_peers] by blast
qed

text \<open>C2.
  Two matching sessions complete, when slices carry at least one byte and not both of them
  wait for the other one to shut down first. No schedule runs more than eight handlers for
  each byte and fourteen more; as long as the two have not both closed their sockets, some
  handler can still run; and once they have, each has sent and received everything.
\<close>

theorem matching_sessions_complete:
  assumes "matching c d" and "nonempty_slices c" and "nonempty_slices d" and "\<not> both_wait c d"
    and "pair_reachable c d sp"
  shows "(\<forall>xs sp'. pair_performs xs sp = Some sp' \<longrightarrow>
        pair_handlers xs \<le> 8 * unat (size_value (total_size c)) + 14) \<and>
    (if closed (socket (fst sp)) \<and> closed (socket (snd sp))
     then transferred (fst sp) \<and> transferred (snd sp)
     else \<exists>xs sp'. pair_performs xs sp = Some sp' \<and> pair_handlers xs \<noteq> 0) \<and>
    (\<exists>xs sp'. pair_performs xs sp = Some sp' \<and> closed (socket (fst sp')) \<and> closed (socket (snd sp')))"
proof -
  note ok = pair_reachable_ok(1) [OF assms(1,5)] and conf = pair_reachable_ok(2,3) [OF assms(1,5)]
  note thr = pair_reachable_throttles [OF assms(1-3,5)]
  have "pair_work sp \<le> 8 * unat (size_value (total_size c)) + 14"
    by (rule pair_reachable_work [OF assms(1,5)])
  then have bound: "pair_handlers xs \<le> 8 * unat (size_value (total_size c)) + 14"
    if "pair_performs xs sp = Some sp'" for xs sp'
    using pair_performs_work [OF ok thr that] by simp
  have finished: "transferred (fst sp) \<and> transferred (snd sp)"
    if "closed (socket (fst sp)) \<and> closed (socket (snd sp))"
    using that ok closed_transferred by (simp add: pair_ok_def half_ok_def)
  have more: "\<exists>xs sp'. pair_performs xs sp = Some sp' \<and> pair_handlers xs \<noteq> 0"
    if "\<not> (closed (socket (fst sp)) \<and> closed (socket (snd sp)))"
    using can_move_pair [OF no_deadlock [OF pair_linked [OF ok] _ that]] assms(4) conf by (metis prod.collapse)
  have "\<exists>xs sp'. pair_performs xs sp = Some sp' \<and> closed (socket (fst sp')) \<and> closed (socket (snd sp'))"
    using completes [OF ok thr] assms(4) conf by simp
  with bound finished more show ?thesis by simp
qed

lemma sample_slices: "nonempty_slices (with_policy policy)" "nonempty_slices (peer_with_policy policy)"
  by (simp_all add: nonempty_slices_def with_policy_def peer_with_policy_def sample_configuration_def)

theorem matching_sessions_complete_witness:
  "\<exists>s p xs sp'. pair_reachable (with_policy SEND_COMPLETE) (peer_with_policy SEND_COMPLETE) (s, p) \<and>
     received_stream (socket s) = [0, 1, 2] \<and> pair_performs xs (s, p) = Some sp' \<and>
     closed (socket (fst sp')) \<and> closed (socket (snd sp'))"
proof -
  obtain s p where "pair_reachable (with_policy SEND_COMPLETE) (peer_with_policy SEND_COMPLETE) (s, p)"
    "received_stream (socket s) = [0, 1, 2]"
    using sample_exchange [of SEND_COMPLETE SEND_COMPLETE] sample_pair_reachable by blast
  moreover have "\<not> both_wait (with_policy SEND_COMPLETE) (peer_with_policy SEND_COMPLETE)"
    by (simp add: both_wait_def with_policy_def)
  ultimately show ?thesis using matching_sessions_complete [OF sample_peers sample_slices] by blast
qed

section \<open>A peer that echoes\<close>

text \<open>C5.
  A two-way TCP session whose peer echoes completes under the policies \<open>send_complete\<close> and
  \<open>receive_complete\<close>: in every schedule without interruption and timeout it never fails
  and sees no mismatch, it runs at most four handlers for each byte and seven more, until
  it has closed its socket some handler can still run, and then it has sent and received
  everything. So \<open>receive_complete\<close> fits a peer that answers what it has been sent.
\<close>

theorem echoed_session_completes:
  assumes "echoed c" and "nonempty_slices c" and "shutdown_policy c \<noteq> WAIT_FOR_PEER" and "echo_reachable c s"
  shows "finalize s = No_error \<and> mismatches s = [] \<and>
    (\<forall>as s'. echo_performs as s = Some s' \<longrightarrow>
       length (filter runs_handler as) \<le> 4 * unat (size_value (total_size c)) + 7) \<and>
    (if closed (socket s) then transferred s
     else \<exists>as s'. echo_performs as s = Some s' \<and> filter runs_handler as \<noteq> []) \<and>
    (\<exists>as s'. echo_performs as s = Some s' \<and> closed (socket s'))"
proof -
  note ok = echo_reachable_ok [OF assms(1,4)]
  have valid: "valid_configuration c" "protocol c = TCP" using assms(1) by (simp_all add: echoed_def)
  have thr: "throttles_ok s"
    using reachable_slices [OF valid(1) ok(3)] reachable_receive_slices [OF valid(1) ok(3)] assms(2) ok(2)
    by (simp add: throttles_ok_def)
  have policy: "shutdown_policy (configuration s) \<noteq> WAIT_FOR_PEER" using assms(3) ok(2) by simp
  have "\<forall>as s'. echo_performs as s = Some s' \<longrightarrow>
       length (filter runs_handler as) \<le> 4 * unat (size_value (total_size c)) + 7"
    using echo_work [OF ok(1) thr] reachable_work [OF valid(1) ok(3) valid(2)] by fastforce
  moreover have "\<exists>as s'. echo_performs as s = Some s' \<and> filter runs_handler as \<noteq> []" if "\<not> closed (socket s)"
    by (rule echo_moves [OF ok(1) policy that]) blast
  ultimately show ?thesis
    using echo_faithful [OF ok(1)] echo_completes [OF ok(1) thr policy] by simp
qed

lemma sample_echo:
  "\<exists>s0 s. create_session (\<lambda>_. 8) 1000000 0 0 (with_policy RECEIVE_COMPLETE) = Inr s0 \<and>
     echo_performs (sample_start @ [End 3, Run 3 (Wrote No_error 3)] @ [End 2, Run 2 (Got No_error [0, 1, 2])])
       s0 = Some s \<and> received_stream (socket s) = [0, 1, 2] \<and> send_shut_down (socket s)"
  by (simp add: pair_simps filled take_drop_ramp [of 0 3 131072 0, simplified] first_bytes)

theorem echoed_session_completes_witness:
  "\<exists>s as s'. echo_reachable (with_policy RECEIVE_COMPLETE) s \<and> received_stream (socket s) = [0, 1, 2] \<and>
     send_shut_down (socket s) \<and> finalize s = No_error \<and> echo_performs as s = Some s' \<and> closed (socket s')"
proof -
  let ?c = "with_policy RECEIVE_COMPLETE"
  obtain s0 s where s0: "create_session (\<lambda>_. 8) 1000000 0 0 ?c = Inr s0"
    and s: "echo_performs (sample_start @ [End 3, Run 3 (Wrote No_error 3)] @ [End 2, Run 2 (Got No_error [0, 1, 2])])
      s0 = Some s" "received_stream (socket s) = [0, 1, 2]" "send_shut_down (socket s)"
    using sample_echo by blast
  have "draws_ok ?c (\<lambda>_. 8)" using sample_draws by (simp add: draws_ok_def with_policy_def)
  then have reach: "echo_reachable ?c s" using s0 s(1) unfolding echo_reachable_def created_def by blast
  have c: "echoed ?c" "shutdown_policy ?c \<noteq> WAIT_FOR_PEER"
    by (simp_all add: echoed_def valid_configuration_def with_policy_def sample_configuration_def)
  show ?thesis using echoed_session_completes [OF c(1) sample_slices(1) c(2) reach] reach s by blast
qed

section \<open>Shutdown policies that do not fit\<close>

text \<open>C16.
  Two sessions that both wait for their peer never complete: in every schedule neither shuts
  down sending nor closes its socket, even when all bytes have arrived. Only the time limit
  or a signal ends such a test, and then it has failed. The checks of the command line
  cannot see it, since each of them sees one end.
\<close>

theorem waiting_peers_deadlock:
  assumes "matching c d" and "both_wait c d" and "pair_reachable c d (s, p)"
  shows "\<not> send_shut_down (socket s) \<and> \<not> send_shut_down (socket p) \<and>
    \<not> closed (socket s) \<and> \<not> closed (socket p)"
proof -
  note conf = pair_reachable_ok(2,3) [OF assms(1,3)]
  have "pair_ok s p" using pair_reachable_ok(1) [OF assms(1,3)] by simp
  then have half: "half_ok s p" "half_ok p s" by (simp_all add: pair_ok_def)
  have "\<not> send_shut_down (socket s)" "\<not> send_shut_down (socket p)"
    using half conf assms(2) by (auto simp: half_ok_def both_wait_def)
  then show ?thesis using ended_shut [OF half(1)] ended_shut [OF half(2)] by (simp add: stream_ended_def)
qed

theorem waiting_peers_deadlock_witness:
  "\<exists>s p. pair_reachable (with_policy WAIT_FOR_PEER) (peer_with_policy WAIT_FOR_PEER) (s, p) \<and>
     received_stream (socket s) = [0, 1, 2] \<and> received_stream (socket p) = [0, 1, 2] \<and>
     sent s = 3 \<and> sent p = 3 \<and> \<not> closed (socket s) \<and> \<not> closed (socket p)"
proof -
  obtain s p where reach: "pair_reachable (with_policy WAIT_FOR_PEER) (peer_with_policy WAIT_FOR_PEER) (s, p)"
    and all: "received_stream (socket s) = [0, 1, 2]" "received_stream (socket p) = [0, 1, 2]" "sent s = 3" "sent p = 3"
    using sample_exchange [of WAIT_FOR_PEER WAIT_FOR_PEER] sample_pair_reachable by blast
  have "both_wait (with_policy WAIT_FOR_PEER) (peer_with_policy WAIT_FOR_PEER)"
    by (simp add: both_wait_def with_policy_def peer_with_policy_def)
  with waiting_peers_deadlock [OF sample_peers this reach] reach all show ?thesis by auto
qed

text \<open>
  A client that shuts down sending as soon as it has received everything, and has sent
  nothing yet: the peer finds the end of the stream too early, and the client's own send
  fails.
\<close>

definition early_shutdown :: "(side \<times> action) list" where
  "early_shutdown =
     left_does sample_start @ right_does sample_start @ right_does [End 3, Run 3 (Wrote No_error 3)] @
     left_does [End 2, Run 2 (Got No_error [0, 1, 2])] @
     left_does [End 2, Run 2 (Wrote (System_error EPIPE) 0)] @ right_does [End 2, Run 2 (Got Eof [])]"

text \<open>
  The policy \<open>receive_complete\<close> does not fit a session that also sends, although the command
  line accepts it: a connection of two valid sessions of the same size, the network faithful
  and nobody interrupting, can fail at both ends, because the session that has received
  everything shuts down a stream that it is still sending.
\<close>

theorem receive_complete_cuts_stream:
  "\<exists>s p. valid_configuration (with_policy RECEIVE_COMPLETE) \<and>
     valid_configuration (peer_with_policy SEND_COMPLETE) \<and>
     pair_reachable (with_policy RECEIVE_COMPLETE) (peer_with_policy SEND_COMPLETE) (s, p) \<and>
     finalize s = System_error EPIPE \<and> finalize p = Tester_error unexpected_eof \<and> sent s = 0"
proof -
  have "\<exists>s0 p0 s p. create_session (\<lambda>_. 8) 1000000 0 0 (with_policy RECEIVE_COMPLETE) = Inr s0 \<and>
     create_session (\<lambda>_. 8) 1000000 0 0 (peer_with_policy SEND_COMPLETE) = Inr p0 \<and>
     pair_performs early_shutdown (s0, p0) = Some (s, p) \<and>
     finalize s = System_error EPIPE \<and> finalize p = Tester_error unexpected_eof \<and> sent s = 0"
    by (simp add: early_shutdown_def pair_simps filled take_drop_ramp [of 0 3 131072 0, simplified] first_bytes
        finalize_def abort_with_def make_error_code_def EPIPE_def)
  moreover have "valid_configuration (with_policy RECEIVE_COMPLETE)" "valid_configuration (peer_with_policy SEND_COMPLETE)"
    by (simp_all add: valid_configuration_def with_policy_def peer_with_policy_def sample_configuration_def)
  ultimately show ?thesis using sample_pair_reachable by blast
qed

end
