(* ===== verification/Run_End.thy ===== *)
theory Run_End
  imports Peer_Progress
begin

text \<open>
  The end of a run loop: a closed socket is not enough, since \<open>Thread::run\<close> goes on until no
  work is left for its service. Closing cancels the waits for a signal and for the time
  limit; here it is shown that only their handlers are then left, that these can run, and
  that two matching sessions come to the end of both run loops.
\<close>

section \<open>The waits outside of the lanes\<close>

text \<open>
  What an undisturbed session has pending besides its lanes. The first flag tells whether the
  function posted by \<open>initialize\<close> may still be pending, the second one whether the socket
  is closed. No signal arrives and no time limit is reached; after the closing none is
  waited for, unless the timer starts only then.
\<close>

fun calm_op :: "bool \<Rightarrow> bool \<Rightarrow> operation \<Rightarrow> bool" where
  "calm_op early over (Wait_signal p) \<longleftrightarrow> p \<noteq> Completed \<and> (over \<longrightarrow> early \<or> p \<noteq> Waiting)"
| "calm_op early over (Wait_timeout p) \<longleftrightarrow> p \<noteq> Completed \<and> (over \<longrightarrow> early \<or> p \<noteq> Waiting)"
| "calm_op early over (Posted p) \<longleftrightarrow> early"
| "calm_op early over _ \<longleftrightarrow> True"

definition calm :: "bool \<Rightarrow> Session \<Rightarrow> bool" where
  "calm early s \<longleftrightarrow> list_all (calm_op early (closed (socket s))) (pending s)"

named_theorems calm_intros \<open>operations that leave a session calm\<close>

lemma calm_cancel [simp]:
  "calm_op early over (cancel_receive_slice op) = calm_op early over op"
  "calm_op early over (cancel_send_slice op) = calm_op early over op"
  by (cases op; simp; rename_tac p; case_tac p; simp)+

lemma calm_cancel_io [simp]: "calm_op early over (cancel_io op) = calm_op early over op"
  by (cases op rule: cancel_io.cases) simp_all

lemma calm_cancel_timeout: "calm_op early over op \<Longrightarrow> calm_op early over (cancel_timeout op)"
  by (cases op; simp; rename_tac p; case_tac p; simp)

lemma calm_cancel_all:
  "calm_op early over op \<Longrightarrow> calm_op early True (cancel_timeout (cancel_signal op))"
  by (cases op; simp; rename_tac p; case_tac p; simp)

lemma list_all_map_cancel [simp]: "(\<And>op. P (f op) = P op) \<Longrightarrow> list_all P (map f ops) = list_all P ops"
  by (induction ops) simp_all

lemma calm_same:
  "pending s' = pending s \<Longrightarrow> socket s' = socket s \<Longrightarrow> calm early s \<Longrightarrow> calm early s'"
  by (simp add: calm_def)

lemma calm_start_op [calm_intros]:
  "calm early s \<Longrightarrow> calm_op False True op \<Longrightarrow> calm early (start_op op s)"
  by (cases op) (auto simp: calm_def start_op_def)

lemma calm_delays [calm_intros]:
  "calm early s \<Longrightarrow> calm early (delay_receive s)" "calm early s \<Longrightarrow> calm early (delay_send s)"
  by (simp_all add: calm_def delay_receive_def delay_send_def start_op_def)

lemma calm_updates [calm_intros]:
  "calm early s \<Longrightarrow> calm early (s\<lparr>statistics := st\<rparr>)" "calm early s \<Longrightarrow> calm early (s\<lparr>receive_throttle := th\<rparr>)"
  "calm early s \<Longrightarrow> calm early (s\<lparr>send_throttle := th\<rparr>)"
  "calm early s \<Longrightarrow> calm early (s\<lparr>is_receive_complete := b\<rparr>)" "calm early s \<Longrightarrow> calm early (s\<lparr>is_send_complete := b\<rparr>)"
  "calm early s \<Longrightarrow> calm early (crash f s)" "calm early s \<Longrightarrow> calm early (abort_with e s)"
  "calm early s \<Longrightarrow> calm early (count_received n s)" "calm early s \<Longrightarrow> calm early (count_sent n s)"
  "calm early s \<Longrightarrow> calm early (base_finish_receive s)" "calm early s \<Longrightarrow> calm early (base_finish_send s)"
  "calm early s \<Longrightarrow> calm early (shutdown_send s)" "calm early s \<Longrightarrow> calm early (verify_bytes n s)"
  "calm early s \<Longrightarrow> calm early (store_received data s)" "calm early s \<Longrightarrow> calm early (log_received data s)"
  "calm early s \<Longrightarrow> calm early (log_sent offset k s)"
  by (simp_all add: calm_def crash_def abort_with_def count_received_def count_sent_def base_finish_receive_def
      base_finish_send_def shutdown_send_def verify_bytes_fields store_received_def log_received_def log_sent_def)

lemma calm_on_finish [calm_intros]: "calm early s \<Longrightarrow> calm early (on_finish close_socket s)"
  by (auto simp: calm_def on_finish_def Let_def close_socket_def list_all_iff intro: calm_cancel_all)

lemma calm_completions [calm_intros]:
  "calm early s \<Longrightarrow> calm early (on_receive_complete close_socket s)"
  "calm early s \<Longrightarrow> calm early (on_send_complete close_socket s)"
  by (simp_all add: on_receive_complete_def on_send_complete_def Let_def calm_intros)

lemma calm_virtuals [calm_intros]:
  "calm early s \<Longrightarrow> calm early (tcp_async_receive n s)" "calm early s \<Longrightarrow> calm early (tcp_async_send n s)"
  "calm early s \<Longrightarrow> calm early (tcp_finish_receive s)" "calm early s \<Longrightarrow> calm early (tcp_finish_send s)"
  "calm early s \<Longrightarrow> calm early (tcp_on_eof e n s)"
  by (simp_all add: tcp_async_receive_def tcp_async_send_def tcp_finish_receive_def tcp_finish_send_def
      tcp_on_eof_def Let_def calm_intros)

lemma calm_start_transfer [calm_intros]: "calm early s \<Longrightarrow> calm early (tcp_start_transfer s)"
  by (simp add: tcp_start_transfer_def start_transfer_def Let_def calm_intros)

lemma calm_start_timer: "calm True s \<Longrightarrow> calm True (start_timer s)"
  by (auto simp: start_timer_def calm_def crash_def start_op_def list_all_iff intro: calm_cancel_timeout
      split: sum.split)

lemma calm_base_handlers [calm_intros]:
  assumes "calm early s"
  shows "calm early (on_signal_number e k s)" and "calm early (on_timeout e s)"
    and "calm early (on_receive_slice tcp_async_receive e s)" and "calm early (on_send_slice tcp_async_send e s)"
    and "calm early (on_receive tcp_async_receive tcp_finish_receive e n left s)"
    and "calm early (on_send tcp_async_send tcp_finish_send e n left s)"
  using assms
  by (simp_all add: on_signal_number_def on_timeout_def on_receive_slice_def on_send_slice_def begin_slice_def
      on_receive_def on_send_def Let_def calm_intros)

lemma calm_handle:
  assumes "calm early s" and "calm_op early over op"
  shows "calm early (handle tcp_virtuals op ev s)"
  using assms
  by (cases "(tcp_virtuals, op, ev, s)" rule: handle.cases)
    (auto simp: tcp_virtuals_def calm_intros intro: calm_start_timer)

section \<open>Every undisturbed action keeps a session calm\<close>

lemma calm_perform:
  assumes quiet: "undisturbed s p a" and act: "perform a s = Some s'" and pr: "protocol (configuration s) = TCP"
    and calm: "calm early s"
  shows "calm early s'"
proof (cases a)
  case (Clock u t)
  then show ?thesis using act calm by (auto intro: calm_same split: if_split_asm)
next
  case Ask_exit
  then show ?thesis using quiet by simp
next
  case (End i)
  then have i: "i < length (pending s)" and s': "s' = end_wait i s" using act by (simp_all split: if_split_asm)
  have op: "calm_op early (closed (socket s)) (pending s ! i)"
    using calm i by (simp add: calm_def list_all_length)
  moreover have "\<not> (\<exists>q. pending s ! i = Wait_signal q \<or> pending s ! i = Wait_timeout q)"
    using quiet End by (cases "pending s ! i") simp_all
  ultimately have "calm_op early (closed (socket s)) (completed (pending s ! i))"
    by (cases "pending s ! i") simp_all
  then show ?thesis
    using calm i by (auto simp: s' calm_def end_wait_def list_all_iff dest!: set_update_subset_insert [THEN subsetD])
next
  case (Run i ev)
  note run = perform_run [OF act [unfolded Run] pr]
  have "calm_op early (closed (socket s)) (pending s ! i)"
    using calm run(2) by (simp add: calm_def list_all_iff)
  moreover have "calm early (without i s)"
    using calm by (auto simp: calm_def without_def remove_nth_def list_all_iff dest: in_set_takeD in_set_dropD)
  ultimately show ?thesis using run(4) calm_handle by blast
qed

lemma calm_pair_perform:
  assumes ok: "pair_ok (fst sp) (snd sp)" and act: "pair_perform x sp = Some sp'"
    and calm: "calm early (fst sp)" "calm early (snd sp)"
  shows "calm early (fst sp') \<and> calm early (snd sp')"
  using act
proof (cases rule: pair_perform_split)
  case (left a s p s')
  then show ?thesis
    using calm ok calm_perform [of s p a s' early] half_alive(2) [OF pair_linked, of s p] by simp
next
  case (right a s p p')
  then show ?thesis
    using calm ok calm_perform [of p s a p' early] half_alive(2) [OF linked_sym [OF pair_linked], of s p] by simp
qed

lemma calm_pair_performs:
  "pair_ok (fst sp) (snd sp) \<Longrightarrow> pair_performs xs sp = Some sp' \<Longrightarrow> calm early (fst sp) \<Longrightarrow>
   calm early (snd sp) \<Longrightarrow> calm early (fst sp') \<and> calm early (snd sp')"
proof (induction xs sp rule: pair_performs.induct)
  case (2 x xs sp)
  then obtain t where t: "pair_perform x sp = Some t" "pair_performs xs t = Some sp'"
    by (auto split: option.splits)
  then show ?case
    using 2(1) [OF t(1) pair_perform_ok [OF 2(2) t(1)]] calm_pair_perform [OF 2(2) t(1) 2(4,5)] by blast
qed simp

lemma created_calm:
  assumes "created c s" and "protocol c = TCP"
  shows "calm True s"
  using assms
  by (auto simp: created_def create_session_unfold make_Session_def and_then_Inr_iff initialize_def
      tcp_initialize_def base_initialize_def start_op_def Let_def calm_def split: if_splits)

lemma pair_reachable_calm:
  assumes "matching c d" and "pair_reachable c d sp"
  shows "calm True (fst sp)" and "calm True (snd sp)"
proof -
  obtain s p xs where new: "created c s" "created d p" and run: "pair_performs xs (s, p) = Some sp"
    using assms(2) by (auto simp: pair_reachable_def)
  have "calm True s" "calm True p"
    using created_calm new assms(1) by (simp_all add: matching_def)
  then show "calm True (fst sp)" "calm True (snd sp)"
    using calm_pair_performs [of "(s, p)" xs sp True] created_pair [OF assms(1) new] run by simp_all
qed

section \<open>After the closing\<close>

text \<open>The timer of the test has been started before the session closes, as \<open>initialize\<close> arranges.\<close>

definition timer_started :: "Session \<Rightarrow> bool" where
  "timer_started s \<longleftrightarrow> (\<forall>p. Posted p \<notin> set (pending s)) \<and> \<not> closed (socket s)"

lemma timer_started_calm:
  assumes "calm True s" and "timer_started s"
  shows "calm False s"
proof -
  have "calm_op False False op" if "op \<in> set (pending s)" for op
    using assms that by (cases op) (auto simp: calm_def timer_started_def list_all_iff)
  then show ?thesis using assms(2) by (simp add: calm_def timer_started_def list_all_iff)
qed

lemma closed_pending:
  assumes inv: "session_inv s" and pr: "protocol (configuration s) = TCP" and calm: "calm False s"
    and closed: "closed (socket s)" and op: "op \<in> set (pending s)"
  shows "op = Wait_signal Cancelled \<or> op = Wait_timeout Cancelled"
proof -
  have complete: "is_receive_complete s" "is_send_complete s"
    using inv closed by (simp_all add: session_inv_def base_ok_def closing_ok_def)
  then have "start_ops s = []" using inv by (auto simp: session_inv_def fresh_def split: if_split_asm)
  then have "\<not> starts TCP op" using op pr by (auto simp: start_ops_def filter_empty_conv)
  moreover have "\<not> is_rx op" "\<not> is_tx op" using inv_lane_op [OF inv op] complete by blast+
  moreover have "calm_op False True op" using calm closed op by (simp add: calm_def list_all_iff)
  ultimately show ?thesis by (cases op) (auto, (metis progress.exhaust)+)
qed

lemma drain_moves:
  assumes ok: "linked s p" and calm: "calm False s" and closed: "closed (socket s)" and more: "pending s \<noteq> []"
  shows "can_move s p"
proof -
  note alive = half_alive [OF ok]
  have i: "0 < length (pending s)" using more by simp
  have "pending s ! 0 = Wait_signal Cancelled \<or> pending s ! 0 = Wait_timeout Cancelled"
    using closed_pending [OF alive(3,2) calm closed, of "pending s ! 0"] nth_mem [OF i] by blast
  then show ?thesis
  proof
    assume "pending s ! 0 = Wait_signal Cancelled"
    then show ?thesis
      using ready_moves [OF i alive(1,2), of "Signalled Operation_aborted 0"] by (simp add: allowed_def)
  next
    assume "pending s ! 0 = Wait_timeout Cancelled"
    then show ?thesis
      using ready_moves [OF i alive(1,2), of "Done Operation_aborted"] by (simp add: allowed_def)
  qed
qed

lemma runs_move:
  assumes ok: "linked s p" and wait: "\<not> both_wait (configuration s) (configuration p)"
    and calm: "calm False s" "calm False p" and more: "pending s \<noteq> [] \<or> pending p \<noteq> []"
  shows "can_move s p \<or> can_move p s"
proof (cases "closed (socket s) \<and> closed (socket p)")
  case True
  then show ?thesis using more drain_moves [OF ok calm(1)] drain_moves [OF linked_sym [OF ok] calm(2)] by blast
next
  case False
  then show ?thesis by (rule no_deadlock [OF ok wait])
qed

lemma runs_end:
  assumes ok: "pair_ok (fst sp) (snd sp)" and thr: "throttles_ok (fst sp)" "throttles_ok (snd sp)"
    and wait: "\<not> both_wait (configuration (fst sp)) (configuration (snd sp))"
    and calm: "calm False (fst sp)" "calm False (snd sp)"
  shows "\<exists>xs sp'. pair_performs xs sp = Some sp' \<and> pending (fst sp') = [] \<and> pending (snd sp') = []"
proof -
  let ?I = "\<lambda>sp. \<not> both_wait (configuration (fst sp)) (configuration (snd sp)) \<and>
    calm False (fst sp) \<and> calm False (snd sp)"
  have "\<exists>xs sp'. pair_performs xs sp = Some sp' \<and> (pending (fst sp') = [] \<and> pending (snd sp') = [])"
  proof (rule pair_reaches [OF ok thr, where I = ?I])
    fix sp xs sp'
    assume "?I sp" and "pair_ok (fst sp) (snd sp)" and "pair_performs xs sp = Some sp'"
    then show "?I sp'" using pair_performs_configuration calm_pair_performs by metis
  next
    fix sp
    assume "?I sp" and "pair_ok (fst sp) (snd sp)" and "\<not> (pending (fst sp) = [] \<and> pending (snd sp) = [])"
    then show "can_move (fst sp) (snd sp) \<or> can_move (snd sp) (fst sp)"
      using runs_move pair_linked by blast
  qed (use wait calm in simp)
  then show ?thesis by simp
qed

end
