(* ===== verification/Run_Claims.thy ===== *)
theory Run_Claims
  imports Peer_Claims Run_End Application
begin

text \<open>
  The properties of whole runs of the program at both ends of one connection, from the
  sessions up to the exit status.
\<close>

section \<open>Runs that succeed\<close>




section \<open>Policies of two-way sessions\<close>

text \<open>
  A schedule that fails for every pair of policies that does not fit. An end with
  \<open>receive_complete\<close> shuts down sending once it has received everything, before its own bytes
  are sent. An end with \<open>wait_for_peer\<close> whose peer uses \<open>send_complete\<close> shuts down sending at the
  end of the peer's stream, which need not wait for its own bytes either.
\<close>

definition first_sends :: "side \<Rightarrow> (side \<times> action) list" where
  "first_sends x = map (Pair x) [End 3, Run 3 (Wrote No_error 3)]"

definition other_cut :: "side \<Rightarrow> bool \<Rightarrow> (side \<times> action) list" where
  "other_cut x waits =
     map (Pair x) [End 2, Run 2 (Got No_error [0, 1, 2])] @
     (if waits then map (Pair x) [End 3, Run 3 (Got Eof [])] else []) @
     map (Pair x) [End 2, Run 2 (Wrote (System_error EPIPE) 0)]"

definition unfit_schedule :: "ShutdownPolicy \<Rightarrow> ShutdownPolicy \<Rightarrow> (side \<times> action) list" where
  "unfit_schedule policy policy' =
     left_does sample_start @ right_does sample_start @
     (if policy = RECEIVE_COMPLETE \<or> policy = WAIT_FOR_PEER \<and> policy' \<noteq> RECEIVE_COMPLETE
      then first_sends Right_peer @ other_cut Left_peer (policy = WAIT_FOR_PEER)
      else first_sends Left_peer @ other_cut Right_peer (policy' = WAIT_FOR_PEER))"

lemma unfit_schedule_fails:
  assumes "policy \<noteq> policy' \<or> policy = RECEIVE_COMPLETE"
  shows "\<exists>s0 p0 s p. create_session (\<lambda>_. 8) 1000000 0 0 (with_policy policy) = Inr s0 \<and>
     create_session (\<lambda>_. 8) 1000000 0 0 (peer_with_policy policy') = Inr p0 \<and>
     pair_performs (unfit_schedule policy policy') (s0, p0) = Some (s, p) \<and>
     (is_failure (finalize s) \<or> is_failure (finalize p))"
  using assms
  by (cases policy; cases policy')
    (simp_all add: unfit_schedule_def first_sends_def other_cut_def pair_simps filled
      take_drop_ramp [of 0 3 131072 0, simplified] first_bytes finalize_def abort_with_def EPIPE_def)

text \<open>Two policies fit when no two sessions that send and receive the same number of bytes can fail with them.\<close>

definition two_way :: "SessionConfiguration \<Rightarrow> SessionConfiguration \<Rightarrow> bool" where
  "two_way c d \<longleftrightarrow>
     valid_configuration c \<and> valid_configuration d \<and> protocol c = TCP \<and> protocol d = TCP \<and>
     direction c = BOTH \<and> direction d = BOTH \<and> size_value (total_size c) = size_value (total_size d)"

definition policies_fit :: "ShutdownPolicy \<Rightarrow> ShutdownPolicy \<Rightarrow> bool" where
  "policies_fit policy policy' \<longleftrightarrow>
     (\<forall>c d s p. two_way c d \<and> shutdown_policy c = policy \<and> shutdown_policy d = policy' \<and>
        pair_reachable c d (s, p) \<longrightarrow> \<not> is_failure (finalize s) \<and> \<not> is_failure (finalize p))"

lemma sample_two_way: "two_way (with_policy policy) (peer_with_policy policy')"
  by (simp add: two_way_def valid_configuration_def with_policy_def peer_with_policy_def sample_configuration_def)

lemma sample_policies:
  "shutdown_policy (with_policy policy) = policy" "shutdown_policy (peer_with_policy policy) = policy"
  by (simp_all add: with_policy_def peer_with_policy_def)

text \<open>C17.
  Which shutdown policies fit two connected TCP sessions that both send and receive, with
  valid configurations of the same size: exactly two equal policies other than
  \<open>receive_complete\<close>. With them, no two such sessions ever fail, the network faithful and
  nobody interrupting (with \<open>wait_for_peer\<close> on both sides they wait for each other for ever);
  with any other pair of policies some two such sessions fail in some schedule.
\<close>

theorem two_way_policies_fit:
  "policies_fit policy policy' \<longleftrightarrow> policy = policy' \<and> policy \<noteq> RECEIVE_COMPLETE"
proof
  assume fit: "policies_fit policy policy'"
  have "\<not> (policy \<noteq> policy' \<or> policy = RECEIVE_COMPLETE)"
  proof
    assume "policy \<noteq> policy' \<or> policy = RECEIVE_COMPLETE"
    from unfit_schedule_fails [OF this] obtain s p where
      "pair_reachable (with_policy policy) (peer_with_policy policy') (s, p)"
      "is_failure (finalize s) \<or> is_failure (finalize p)" using sample_pair_reachable by blast
    then show False using fit sample_two_way sample_policies unfolding policies_fit_def by blast
  qed
  then show "policy = policy' \<and> policy \<noteq> RECEIVE_COMPLETE" by simp
next
  assume fit: "policy = policy' \<and> policy \<noteq> RECEIVE_COMPLETE"
  have "\<not> is_failure (finalize s) \<and> \<not> is_failure (finalize p)"
    if "two_way c d" "shutdown_policy c = policy" "shutdown_policy d = policy'" "pair_reachable c d (s, p)" for c d s p
  proof -
    have "matching c d" using that(1-3) fit by (auto simp: two_way_def matching_def)
    from pair_reachable_ok(1) [OF this that(4)] show ?thesis
      by (simp add: pair_ok_def half_ok_def finalize_def)
  qed
  then show "policies_fit policy policy'" unfolding policies_fit_def by blast
qed

end
