(* ===== verification/Spec2Isabelle.thy ===== *)
theory Spec2Isabelle
  imports Data_Claims Session_Claims Progress_Claims Application_Claims System_Claims Peer_Claims
    Run_Claims
begin

text \<open>
  A verification library for enyx-net-tester, a network benchmark: it runs TCP and UDP
  sessions that send and receive a known stream of bytes at limited rates, verifies what
  arrives, and reports statistics and an exit status.

  \<^bold>\<open>The program and the theories.\<close> All file names are under \<open>src/src/\<close>; each theory
  imports those it uses, in this order.

  \<^item> \<open>Prelude\<close>: machine words, faults as values, decimal numerals, lemmas on lists and words.
  \<^item> \<open>Io_Streams\<close>: the C++ input streams that the readers use. \<open>Boost_Regex\<close>: the contract
    of \<open>boost::regex_match\<close> (locale \<open>regex_engine\<close>) and a matcher that keeps it.
  \<^item> \<open>Sizes\<close> (\<open>Size.hpp\<close>, \<open>Size.cpp\<close>): \<open>parse_size\<close> with its wrapping multiplications, and
    a reference reading with a table of units.
  \<^item> \<open>Cpu_Ranges\<close> (\<open>Range\<close>, \<open>Ranges\<close>, \<open>Cpu.hpp\<close>): ranges as text and as sequences of cores;
    the locale \<open>range_element\<close> states what the templates need of their element type.
  \<^item> \<open>Config\<close> (\<open>SessionConfiguration\<close>, \<open>ApplicationConfiguration.hpp\<close>): the records, the
    enumerations and their keywords (locale \<open>keyword_enum\<close>).
  \<^item> \<open>Command_Line\<close> (\<open>Executable.cpp\<close>): the option table, the checks on a session's
    options, the configuration file, the command line; Boost.Program_options is a parameter
    with a contract (locale \<open>options_library\<close>).
  \<^item> \<open>Stats\<close> (\<open>Statistics\<close>), \<open>Printing\<close> (the \<open>operator<<\<close> of sizes, statistics and
    configurations), \<open>Handler_Memory\<close> (\<open>HandlerAllocator.hpp\<close>), \<open>Sockets\<close> (\<open>Socket.hpp\<close>,
    \<open>TcpSocket.hpp\<close>, \<open>UdpSocket.cpp\<close>: endpoints, the opening of sockets and what it throws).
  \<^item> \<open>Throttle\<close> (\<open>BandwidthThrottle\<close>), \<open>Errors\<close> (\<open>Error\<close>, \<open>Signal.cpp\<close>, the exceptions that
    reach \<open>main\<close>).
  \<^item> \<open>Sessions\<close> (\<open>Session\<close>): the state of a session and the operations of the base class; a
    virtual function is an argument of the operation that calls it. \<open>Tcp_Session\<close> and
    \<open>Udp_Session\<close> define the virtual functions of the two subclasses and the operations on
    their open sockets.
  \<^item> \<open>Session_Steps\<close>: the tables of virtual functions, the handlers, what the operating
    system may report, and the step relation of a session. Asynchronous operations are
    values in the list \<open>pending\<close>; a step is a turn of a clock, the end of an operation, the
    run of one handler, or a request to exit from outside. Its executable twin \<open>perform\<close> is
    what the sample runs evaluate.
  \<^item> \<open>Cpu_Pinning\<close> (\<open>CpuUnix.cpp\<close>, \<open>CpuWin.cpp\<close>): pinning a thread to a core.
  \<^item> \<open>Application\<close> (\<open>Application.cpp\<close>, \<open>main.cpp\<close>): the creation of the sessions with the
    opening of their sockets, their partition over the services, the threads as interleaved
    steps of all sessions, which share the exit flag, the collection of the failures and the
    exit status.

  \<^bold>\<open>The proofs.\<close>

  \<^item> \<open>Stream_Content\<close>: the byte ramp that sessions send, and the mismatches that the
    verification loop reports, as functions of the streams alone.
  \<^item> \<open>Session_Invariants\<close>, \<open>Transports\<close>, \<open>Session_Safety\<close>: the invariant \<open>session_inv\<close> of a
    session (its streams, its counters, one operation per lane, the conditions under which
    it closes), the contract of the virtual functions (locale \<open>session_class\<close>), its
    interpretations on the two subclasses, and the preservation by every step.
  \<^item> \<open>Pacing\<close>: the contract extended by what a call of \<open>async_send\<close> starts (locale
    \<open>paced_class\<close>), which yields the moves of the send lane; \<open>Send_Progress\<close>: a measure that
    every handler of the lane decreases, and the bytes that the slices grant;
    \<open>Send_Refinement\<close>: an abstract sender of four phases that every session refines.
    \<open>Receive_Pacing\<close> (locale \<open>receiving_class\<close>) and \<open>Receive_Progress\<close> do the same for the
    receive lane; \<open>Session_Progress\<close> adds the work of both lanes and of the other operations
    up, which bounds the handlers of a TCP session.
  \<^item> \<open>Session_Correctness\<close>: reachable sessions and sample runs. \<open>Time_Limit\<close>: the timer of the
    test is live until the session closes or fails, for both protocols.
  \<^item> \<open>Tcp_Effects\<close>, \<open>Peers\<close>, \<open>Peer_Safety\<close>, \<open>Peer_Progress\<close>: two sessions at the ends of one
    connection. \<open>Tcp_Effects\<close> states what each handler of a TCP session does to its two
    streams and to its shutdown; \<open>Peers\<close> composes two sessions, where what one sends is what the
    other may receive, and defines the relation \<open>pair_ok\<close> between them; \<open>Peer_Safety\<close> shows
    that every step of either session keeps it; \<open>Peer_Progress\<close> that something can always
    move until both have closed. \<open>Echo_Peer\<close> does both for one session whose peer sends back
    what it receives, as the peer in \<open>tests/TestNetTester.cpp\<close>; such a session is linked with
    itself, so that the lemmas on \<open>linked\<close> sessions serve both kinds of peers.
    \<open>Run_End\<close> goes on to the end of the two run loops: after the closing only the cancelled
    waits for a signal and for the time limit are left, and their handlers can run.
  \<^item> \<open>Shutdown\<close>: the moment of the shutdown and the code of a failure as equations, for
    whatever the network does.
  \<^item> The properties, each followed by a concrete witness where it has hypotheses:
    \<open>Session_Claims\<close> (soundness of success, exact verification, no stalls, lanes, shutdown,
    bounds), \<open>Progress_Claims\<close> (termination, the time limit, rates and the refinement of
    sending), \<open>Application_Claims\<close> (runs, failures, exit status, partition, accepted
    configurations), \<open>System_Claims\<close> (endpoints, sockets, handler memory, printed sizes),
    \<open>Data_Claims\<close> (sizes, ranges, enumerations, error codes, throttle), \<open>Peer_Claims\<close> (two
    connected sessions and the echoing peer: no failures, completion, and two ends that wait
    for each other), \<open>Run_Claims\<close> (the program against itself, up to the exit status of both
    ends, and the table of the shutdown policies that fit two-way sessions).

  \<^bold>\<open>Assumptions.\<close> \<open>valid_configuration\<close> collects what sessions rely on; \<open>accepted_configurations\<close>
  tells which part of it the command line checks. Asio's contract is the predicate
  \<open>allowed\<close>: a cancelled operation reports \<open>operation_aborted\<close> and no other one does, no
  transfer exceeds its buffer, a failed one moves nothing, a successful stream transfer
  moves something, a datagram is sent as a whole. A timer ends at its expiry time or later.
  The connection of \<open>Peers\<close> (\<open>delivers\<close>) loses and changes no byte, reports the end of a stream
  after its last byte and once its sender has shut it down, and fails a send exactly
  after the own shutdown; its buffers take whatever is sent. \<open>undisturbed\<close> leaves out signals and
  the time limit. \<open>matching\<close> sessions have the same size and either opposite directions, or
  both directions and the same policy, which is not \<open>receive_complete\<close>: that this cannot be
  relaxed is what \<open>two_way_policies_fit\<close> states. \<open>timer_started\<close> leaves out the schedules in
  which the function that \<open>initialize\<close> posts runs after the socket has been closed.
  Random numbers lie within the bounds of their distribution (\<open>draws_ok\<close>).

  \<^bold>\<open>Loops.\<close> Every loop of the sources is a total function: counting loops end by the distance
  that is left modulo the width of the counter, token loops by the length of the text. No
  fuel is used. The run loop of a thread is the closure of the step relation; that sending
  ends, that a TCP session ends, and that two connected sessions end, are bounds on the
  number of handlers in every schedule.
  A UDP session has no such bound on its receive lane: an empty datagram moves nothing. What
  ends it, when datagrams are lost, is its time limit.

  \<^bold>\<open>Not modelled.\<close> System calls are parameters or pending operations. Progress messages
  and the help text go to a terminal. The texts of Boost's dates and durations and the name
  resolver are parameters. So is the arithmetic of \<open>long double\<close>, with the contract of a format
  of 64 significant bits (locale \<open>long_double\<close> in \<open>Printing\<close>) and an instance that rounds. Boost
  counts the ticks of a duration in a signed 64-bit number, whose overflow is undefined; the
  model lets it wrap (\<open>to_ticks\<close>). \<open>HandlerMemory\<close> is modelled apart from the sessions
  that wrap their handlers with it (\<open>make_handler\<close>): the assertion that it is free cannot fail
  (\<open>handler_memory_never_refuses\<close>), and whether a handler fits its block depends on the
  compiler. Data races are outside the model: each service runs in one thread, and the only
  data that the threads share is the exit flag.
\<close>

end
